(* ===== verification/Prelude.thy ===== *)
theory Prelude
  imports Main "HOL-Library.Word" "HOL-Library.Signed_Division" "HOL-Library.Monad_Syntax"
begin

text \<open>
  What the component theories share: the machine types of the i686 target, the pieces
  of C's memory operations that every component uses (copying bytes into an array,
  little-endian words, byte-addressed memory), linear searches over the kernel's tables,
  and the collections of simplification rules.

  Conventions of the whole development.  A byte is a \<open>u8\<close>, an \<open>unsigned int\<close>, pointer or
  \<open>unsigned long\<close> of the 32-bit target a \<open>u32\<close>; a C \<open>int\<close> whose value is only ever an index
  or an error code is an \<open>int\<close>.  A result of type \<open>option\<close> is \<open>None\<close> where the C code
  has no defined result: it reads or writes outside an object, uses an uninitialised
  variable, dereferences a null pointer, or never returns.
\<close>

unbundle bit_operations_syntax

named_theorems list_ops \<open>reading back what was copied into an array\<close>
named_theorems codec_simps \<open>encoding and decoding of the on-disk and in-memory words\<close>
named_theorems mem_simps \<open>reads of a byte-addressed memory after writes\<close>

type_synonym u8 = "8 word"
type_synonym u16 = "16 word"
type_synonym u32 = "32 word"
type_synonym mem = "u32 \<Rightarrow> u8"

section \<open>Arrays\<close>

text \<open>\<open>splice xs off ys\<close>: the array \<open>xs\<close> after copying \<open>ys\<close> to offset \<open>off\<close>;
  \<open>slice xs off n\<close>: the \<open>n\<close> elements from offset \<open>off\<close>.\<close>

definition splice :: "'a list \<Rightarrow> nat \<Rightarrow> 'a list \<Rightarrow> 'a list" where
  "splice xs off ys = take off xs @ ys @ drop (off + length ys) xs"

definition slice :: "'a list \<Rightarrow> nat \<Rightarrow> nat \<Rightarrow> 'a list" where
  "slice xs off n = take n (drop off xs)"

lemma length_splice [list_ops, simp]:
  "off + length ys \<le> length xs \<Longrightarrow> length (splice xs off ys) = length xs"
  by (simp add: splice_def)

lemma length_slice [list_ops, simp]:
  "off + n \<le> length xs \<Longrightarrow> length (slice xs off n) = n"
  by (simp add: slice_def)

lemma nth_splice [list_ops]:
  assumes "off + length ys \<le> length xs" and "i < length xs"
  shows "splice xs off ys ! i
    = (if off \<le> i \<and> i < off + length ys then ys ! (i - off) else xs ! i)"
  using assms by (auto simp: splice_def nth_append min_def)

lemma nth_slice [list_ops]:
  "off + n \<le> length xs \<Longrightarrow> i < n \<Longrightarrow> slice xs off n ! i = xs ! (off + i)"
  by (simp add: slice_def)

lemma slice_splice_same [list_ops]:
  "off + length ys \<le> length xs \<Longrightarrow> n = length ys \<Longrightarrow> slice (splice xs off ys) off n = ys"
  by (simp add: slice_def splice_def)

lemma drop_splice_same [list_ops]:
  "off + length ys \<le> length xs \<Longrightarrow>
   drop off (splice xs off ys) = ys @ drop (off + length ys) xs"
  by (simp add: splice_def)

lemma slice_splice_before [list_ops]:
  assumes "off + length ys \<le> length xs" and "o2 + n \<le> off"
  shows "slice (splice xs off ys) o2 n = slice xs o2 n"
  using assms by (intro nth_equalityI) (auto simp: nth_slice nth_splice)

lemma slice_splice_after [list_ops]:
  assumes "off + length ys \<le> length xs" and "off + length ys \<le> o2" and "o2 + n \<le> length xs"
  shows "slice (splice xs off ys) o2 n = slice xs o2 n"
  using assms by (intro nth_equalityI) (auto simp: nth_slice nth_splice)

lemma slice_shorter: "m \<le> n \<Longrightarrow> slice xs off m = take m (slice xs off n)"
  by (simp add: slice_def min_absorb1)

lemma slice_add: "slice xs off (m + n) = slice xs off m @ slice xs (off + m) n"
  by (simp add: slice_def take_add add.commute)

lemma slice_whole [simp]: "slice xs 0 (length xs) = xs"
  by (simp add: slice_def)

lemma splice_nil [simp]: "splice xs off [] = xs"
  by (simp add: splice_def)

section \<open>Linear searches\<close>

text \<open>
  The kernel's tables are searched by loops of the form
  \<open>for (i = 0; i < N; i++) if (P) { r = i; break; }\<close> and, without the \<open>break\<close>, by loops
  that keep the last match.
\<close>

fun first_index :: "('a \<Rightarrow> bool) \<Rightarrow> 'a list \<Rightarrow> nat option" where
  "first_index P [] = None"
| "first_index P (x # xs) = (if P x then Some 0 else map_option Suc (first_index P xs))"

fun last_index :: "('a \<Rightarrow> bool) \<Rightarrow> 'a list \<Rightarrow> nat option" where
  "last_index P [] = None"
| "last_index P (x # xs) =
     (case last_index P xs of Some i \<Rightarrow> Some (Suc i) | None \<Rightarrow> if P x then Some 0 else None)"

lemma first_index_None: "first_index P xs = None \<longleftrightarrow> (\<forall>x \<in> set xs. \<not> P x)"
  by (induction xs) auto

lemma first_index_SomeD:
  "first_index P xs = Some i \<Longrightarrow> i < length xs \<and> P (xs ! i) \<and> (\<forall>j < i. \<not> P (xs ! j))"
proof (induction xs arbitrary: i)
  case Nil
  then show ?case by simp
next
  case (Cons x xs)
  then show ?case
    by (auto split: if_splits simp: nth_Cons less_Suc_eq_0_disj split: nat.splits)
qed

lemma first_index_eqI:
  assumes "i < length xs" and "P (xs ! i)" and "\<And>j. j < i \<Longrightarrow> \<not> P (xs ! j)"
  shows "first_index P xs = Some i"
proof (cases "first_index P xs")
  case None
  with assms show ?thesis by (metis first_index_None nth_mem)
next
  case (Some k)
  from first_index_SomeD [OF Some] assms have "k = i"
    by (metis linorder_neqE_nat)
  with Some show ?thesis by simp
qed

lemma first_index_Min:
  "first_index P xs =
     (if {i. i < length xs \<and> P (xs ! i)} = {} then None else Some (Min {i. i < length xs \<and> P (xs ! i)}))"
proof (cases "first_index P xs")
  case None
  then show ?thesis by (auto simp: first_index_None)
next
  case (Some i)
  note f = first_index_SomeD [OF this]
  then have "Min {i. i < length xs \<and> P (xs ! i)} = i"
    by (intro Min_eqI) (auto simp: not_less [symmetric])
  with f Some show ?thesis by auto
qed

lemma last_index_None: "last_index P xs = None \<longleftrightarrow> (\<forall>x \<in> set xs. \<not> P x)"
  by (induction xs) (auto split: option.splits)

lemma last_index_SomeD:
  "last_index P xs = Some i \<Longrightarrow>
   i < length xs \<and> P (xs ! i) \<and> (\<forall>j. i < j \<longrightarrow> j < length xs \<longrightarrow> \<not> P (xs ! j))"
proof (induction xs arbitrary: i)
  case Nil
  then show ?case by simp
next
  case (Cons x xs)
  show ?case
  proof (cases "last_index P xs")
    case None
    with Cons.prems have "i = 0" "P x" by (auto split: if_splits)
    moreover from None have "\<forall>x \<in> set xs. \<not> P x" by (simp add: last_index_None)
    ultimately show ?thesis by (auto simp: nth_Cons split: nat.splits)
  next
    case (Some k)
    with Cons.prems have "i = Suc k" by simp
    with Cons.IH [OF Some] show ?thesis by (auto simp: nth_Cons split: nat.splits)
  qed
qed

section \<open>Little-endian words\<close>

definition le16 :: "u16 \<Rightarrow> u8 list" where
  "le16 w = [ucast w, ucast (drop_bit 8 w)]"

definition le32 :: "u32 \<Rightarrow> u8 list" where
  "le32 w = [ucast w, ucast (drop_bit 8 w), ucast (drop_bit 16 w), ucast (drop_bit 24 w)]"

fun rd16 :: "u8 list \<Rightarrow> u16" where
  "rd16 (a # b # _) = ucast a OR push_bit 8 (ucast b)"
| "rd16 _ = 0"

fun rd32 :: "u8 list \<Rightarrow> u32" where
  "rd32 (a # b # c # d # _) =
     ucast a OR push_bit 8 (ucast b) OR push_bit 16 (ucast c) OR push_bit 24 (ucast d)"
| "rd32 _ = 0"

declare rd16.simps [simp del] rd32.simps [simp del]

lemma length_le16 [simp, codec_simps]: "length (le16 w) = 2"
  by (simp add: le16_def)

lemma length_le32 [simp, codec_simps]: "length (le32 w) = 4"
  by (simp add: le32_def)

lemma rd16_le16 [simp, codec_simps]: "rd16 (le16 w @ r) = w"
proof (rule bit_word_eqI)
  fix n assume "n < LENGTH(16)"
  then consider "n < 8" | "8 \<le> n" "n < 16" by fastforce
  then show "bit (rd16 (le16 w @ r)) n = bit w n"
    by cases (auto simp: le16_def rd16.simps bit_simps)
qed

lemma rd32_le32 [simp, codec_simps]: "rd32 (le32 w @ r) = w"
proof (rule bit_word_eqI)
  fix n assume "n < LENGTH(32)"
  then consider "n < 8" | "8 \<le> n" "n < 16" | "16 \<le> n" "n < 24" | "24 \<le> n" "n < 32"
    by fastforce
  then show "bit (rd32 (le32 w @ r)) n = bit w n"
    by cases (auto simp: le32_def rd32.simps bit_simps)
qed

lemma rd32_le32_nil [simp, codec_simps]: "rd32 (le32 w) = w"
  using rd32_le32 [of w "[]"] by simp

lemma u8_bit_high: "8 \<le> n \<Longrightarrow> \<not> bit (x :: u8) n"
  using bit_imp_le_length [of x n] by auto

lemma le16_rd16 [codec_simps]: "le16 (rd16 (a # b # r)) = [a, b]"
  by (auto simp: le16_def rd16.simps intro!: bit_word_eqI simp: bit_simps u8_bit_high)

lemma le32_rd32 [codec_simps]: "le32 (rd32 (a # b # c # d # r)) = [a, b, c, d]"
  by (auto simp: le32_def rd32.simps intro!: bit_word_eqI simp: bit_simps u8_bit_high)

section \<open>Byte-addressed memory\<close>

fun mem_write :: "mem \<Rightarrow> u32 \<Rightarrow> u8 list \<Rightarrow> mem" where
  "mem_write m p [] = m"
| "mem_write m p (b # bs) = mem_write (m(p := b)) (p + 1) bs"

definition mem_read :: "mem \<Rightarrow> u32 \<Rightarrow> nat \<Rightarrow> u8 list" where
  "mem_read m p n = map (\<lambda>i. m (p + of_nat i)) [0..<n]"

lemma length_mem_read [simp, mem_simps]: "length (mem_read m p n) = n"
  by (simp add: mem_read_def)

lemma mem_read_Suc [mem_simps]: "mem_read m p (Suc n) = m p # mem_read m (p + 1) n"
proof (rule nth_equalityI)
  fix i assume "i < length (mem_read m p (Suc n))"
  then show "mem_read m p (Suc n) ! i = (m p # mem_read m (p + 1) n) ! i"
    by (cases i) (auto simp: mem_read_def nth_append less_Suc_eq algebra_simps simp del: upt_Suc)
qed simp

lemma mem_read_0 [simp, mem_simps]: "mem_read m p 0 = []"
  by (simp add: mem_read_def)

text \<open>A write of at most \<open>2^32\<close> bytes changes exactly the bytes it covers.\<close>

lemma mem_write_apply:
  assumes "length bs \<le> 2 ^ 32"
  shows "mem_write m p bs q = (if unat (q - p) < length bs then bs ! unat (q - p) else m q)"
  using assms
proof (induction bs arbitrary: m p)
  case Nil
  then show ?case by simp
next
  case (Cons b bs)
  show ?case
  proof (cases "q = p")
    case True
    have "unat (q - (p + 1)) = 2 ^ 32 - 1"
      using True by (simp add: unsigned_minus_1_eq_mask mask_eq_exp_minus_1)
    with Cons True show ?thesis by simp
  next
    case False
    then have "q - p \<noteq> 0" by simp
    then have "unat (q - p) = Suc (unat (q - p - 1))"
      by (metis Suc_pred' unat_gt_0 unat_minus_one)
    then have "unat (q - p) = Suc (unat (q - (p + 1)))"
      by (simp add: algebra_simps)
    with Cons False show ?thesis by simp
  qed
qed

lemma mem_read_write_same [mem_simps]:
  assumes "length bs \<le> 2 ^ 32"
  shows "mem_read (mem_write m p bs) p (length bs) = bs"
proof (rule nth_equalityI)
  fix i assume "i < length (mem_read (mem_write m p bs) p (length bs))"
  then have i: "i < length bs" by simp
  with assms have "unat (of_nat i :: u32) = i"
    by (simp add: unat_of_nat take_bit_nat_eq_self)
  with assms i show "mem_read (mem_write m p bs) p (length bs) ! i = bs ! i"
    by (simp add: mem_read_def mem_write_apply)
qed simp

lemma mem_write_outside [mem_simps]:
  "length bs \<le> 2 ^ 32 \<Longrightarrow> length bs \<le> unat (q - p) \<Longrightarrow> mem_write m p bs q = m q"
  by (simp add: mem_write_apply)

lemma mem_read_cong:
  "(\<And>i. i < n \<Longrightarrow> m (p + of_nat i) = m' (p + of_nat i)) \<Longrightarrow> mem_read m p n = mem_read m' p n"
  by (simp add: mem_read_def)

lemma mem_write_append:
  "mem_write m p (bs @ cs) = mem_write (mem_write m p bs) (p + of_nat (length bs)) cs"
  by (induction bs arbitrary: m p) (auto simp: algebra_simps)

section \<open>Words as numbers\<close>

lemma sint_small [simp]:
  assumes "unat (w :: u32) < 2 ^ 31"
  shows "sint w = int (unat w)"
proof -
  from assms have "int (unat w) < int (2 ^ 31)" by (simp only: of_nat_less_iff)
  then have "uint w < 2 ^ 31" by simp
  then have "signed_take_bit 31 (uint w) = uint w"
    using uint_ge_0 [of w] by (intro signed_take_bit_int_eq_self) linarith+
  then show ?thesis by (simp add: sint_uint)
qed

lemma unat_of_nat32: "n < 2 ^ 32 \<Longrightarrow> unat (of_nat n :: u32) = n"
  by (simp add: unat_of_nat take_bit_nat_eq_self)

lemma unat_add_small:
  "unat (a :: u32) + unat b < 2 ^ 32 \<Longrightarrow> unat (a + b) = unat a + unat b"
  by (simp add: unat_word_ariths)

lemma sdiv_nat [simp]: "int a sdiv int b = int (a div b)"
  by (cases "a = 0") (auto simp: signed_divide_int_def sgn_if zdiv_int)

lemma smod_nat [simp]: "int a smod int b = int (a mod b)"
  by (cases "a = 0") (auto simp: signed_modulo_int_def zmod_int sgn_if)

section \<open>Pools of free resources\<close>

text \<open>
  The contract shared by the kernel's allocators that keep their free resources on a linked
  list: \<open>repr s xs\<close> says that in state \<open>s\<close> the list holds \<open>xs\<close>, and an allocation takes its
  head.
\<close>

locale free_pool =
  fixes alloc :: "'s \<Rightarrow> ('a \<times> 's) option" and repr :: "'s \<Rightarrow> 'a list \<Rightarrow> bool"
  assumes alloc_Cons: "repr s (x # xs) \<Longrightarrow> \<exists>s'. alloc s = Some (x, s') \<and> repr s' xs"
begin

fun alloc_many :: "nat \<Rightarrow> 's \<Rightarrow> ('a list \<times> 's) option" where
  "alloc_many 0 s = Some ([], s)"
| "alloc_many (Suc n) s = do {
     (x, s') \<leftarrow> alloc s;
     (xs, s'') \<leftarrow> alloc_many n s';
     Some (x # xs, s'')
   }"

lemma alloc_many_take:
  "repr s xs \<Longrightarrow> n \<le> length xs \<Longrightarrow>
   \<exists>s'. alloc_many n s = Some (take n xs, s') \<and> repr s' (drop n xs)"
proof (induction n arbitrary: s xs)
  case 0
  then show ?case by simp
next
  case (Suc n)
  then obtain x ys where xs: "xs = x # ys" by (cases xs) auto
  with Suc.prems alloc_Cons obtain s1 where s1: "alloc s = Some (x, s1)" "repr s1 ys" by blast
  from Suc.IH [OF s1(2)] Suc.prems xs obtain s2 where
    "alloc_many n s1 = Some (take n ys, s2)" "repr s2 (drop n ys)" by auto
  with s1 xs show ?case by simp
qed

text \<open>No resource is handed out twice.\<close>

lemma alloc_many_distinct:
  assumes "repr s xs" and "distinct xs" and "n \<le> length xs"
  shows "\<exists>rs s'. alloc_many n s = Some (rs, s') \<and> length rs = n \<and> distinct rs \<and>
           set rs \<inter> set (drop n xs) = {} \<and> repr s' (drop n xs)"
  using alloc_many_take [OF assms(1,3)] assms(2,3)
  by (auto simp: set_take_disj_set_drop_if_distinct)

end

text \<open>A pool whose allocator reports that it is empty.\<close>

locale checked_pool = free_pool +
  assumes alloc_Nil: "repr s [] \<Longrightarrow> alloc s = None"
begin

lemma alloc_many_exhausted:
  "repr s xs \<Longrightarrow> length xs < n \<Longrightarrow> alloc_many n s = None"
proof (induction n arbitrary: s xs)
  case 0
  then show ?case by simp
next
  case (Suc n)
  show ?case
  proof (cases xs)
    case Nil
    with Suc.prems show ?thesis by (simp add: alloc_Nil)
  next
    case (Cons x ys)
    with Suc.prems alloc_Cons obtain s1 where "alloc s = Some (x, s1)" "repr s1 ys" by blast
    with Suc.IH Suc.prems Cons show ?thesis by simp
  qed
qed

end

text \<open>A pool to which a resource that is not in it can be given back.\<close>

locale returning_pool = free_pool alloc repr
  for alloc :: "'s \<Rightarrow> ('a \<times> 's) option" and repr :: "'s \<Rightarrow> 'a list \<Rightarrow> bool" +
  fixes give :: "'a \<Rightarrow> 's \<Rightarrow> 's" and good :: "'a \<Rightarrow> bool"
  assumes give_Cons: "repr s xs \<Longrightarrow> good x \<Longrightarrow> x \<notin> set xs \<Longrightarrow> repr (give x s) (x # xs)"
begin

lemma alloc_give:
  assumes "repr s xs" and "good x" and "x \<notin> set xs"
  shows "\<exists>s'. alloc (give x s) = Some (x, s') \<and> repr s' xs"
  using assms give_Cons alloc_Cons by blast

lemma give_many:
  "repr s xs \<Longrightarrow> \<forall>y \<in> set ys. good y \<Longrightarrow> distinct ys \<Longrightarrow> set ys \<inter> set xs = {} \<Longrightarrow>
   repr (fold give ys s) (rev ys @ xs)"
proof (induction ys arbitrary: s xs)
  case Nil
  then show ?case by simp
next
  case (Cons y ys)
  then have "repr (give y s) (y # xs)" by (simp add: give_Cons)
  with Cons show ?case by fastforce
qed

end

end
