(* ===== verification/Lock.thy ===== *)
theory Lock
  imports Prelude
begin

text \<open>
  \<open>lock.c\<close> and the \<open>xchg\<close> of \<open>x86.c\<close>: the spin locks \<open>video_lock\<close> and \<open>disk_lock\<close>.
  First the calls as the kernel makes them, then any number of contexts that contend for
  one lock, each exchange being one atomic step.
\<close>

record lock =
  lock_value :: u32

text \<open>\<open>xchg(s, i)\<close>: the old value of \<open>*s\<close> (the result) and its new value.\<close>

definition xchg :: "u32 \<Rightarrow> u32 \<Rightarrow> u32 \<times> u32" where
  "xchg s i = (s, i)"

definition init_lock :: "lock \<times> lock" where
  "init_lock = (\<lparr>lock_value = 0\<rparr>, \<lparr>lock_value = 0\<rparr>)"

text \<open>The test of the loop in \<open>acquire\<close>: whether it goes on, and the lock after the exchange.\<close>

definition acquire_test :: "lock \<Rightarrow> bool \<times> lock" where
  "acquire_test l = (case xchg (lock_value l) 1 of (old, new) \<Rightarrow> (old \<noteq> 0, l\<lparr>lock_value := new\<rparr>))"

text \<open>The whole call, without another context: \<open>None\<close> is spinning for ever.\<close>

partial_function (option) acquire :: "lock \<Rightarrow> lock option" where
  "acquire l = (case acquire_test l of (again, l') \<Rightarrow> if again then acquire l' else Some l')"

definition release :: "lock \<Rightarrow> lock" where
  "release l = l\<lparr>lock_value := 0\<rparr>"

lemma acquire_test_eq: "acquire_test l = (lock_value l \<noteq> 0, l\<lparr>lock_value := 1\<rparr>)"
  by (simp add: acquire_test_def xchg_def)

lemma acquire_free [simp]: "lock_value l = 0 \<Longrightarrow> acquire l = Some (l\<lparr>lock_value := 1\<rparr>)"
  by (subst acquire.simps) (simp add: acquire_test_eq)

lemma acquire_SomeD:
  assumes "acquire l = Some l'"
  shows "lock_value l = 0"
proof (rule acquire.raw_induct [where P = "\<lambda>l l'. lock_value l = 0", OF _ assms])
  fix acq :: "lock \<Rightarrow> lock option" and l l' :: lock
  assume IH: "\<And>l l'. acq l = Some l' \<Longrightarrow> lock_value l = 0"
    and eq: "(case acquire_test l of (again, m) \<Rightarrow> if again then acq m else Some m) = Some l'"
  show "lock_value l = 0"
  proof (rule ccontr)
    assume "lock_value l \<noteq> 0"
    with eq have "acq (l\<lparr>lock_value := 1\<rparr>) = Some l'" by (simp add: acquire_test_eq)
    from IH [OF this] show False by simp
  qed
qed

lemma acquire_held: "lock_value l \<noteq> 0 \<Longrightarrow> acquire l = None"
  using acquire_SomeD by (cases "acquire l") auto

section \<open>Contention\<close>

text \<open>
  Where a context is in \<open>acquire(&l); ... release(&l);\<close>.  A step is one test of the loop of \<open>acquire\<close>,
  which is one exchange, or the store of \<open>release\<close>.
\<close>

datatype lock_pc = Outside | Spinning | Holding

record lock_sys =
  the_lock :: lock
  pc_of :: "nat \<Rightarrow> lock_pc"

definition lock_init :: lock_sys where
  "lock_init = \<lparr>the_lock = fst init_lock, pc_of = (\<lambda>_. Outside)\<rparr>"

inductive lock_step :: "lock_sys \<Rightarrow> lock_sys \<Rightarrow> bool" where
  call: "pc_of s i = Outside \<Longrightarrow> lock_step s (s\<lparr>pc_of := (pc_of s)(i := Spinning)\<rparr>)"
| spin: "pc_of s i = Spinning \<Longrightarrow> acquire_test (the_lock s) = (True, l) \<Longrightarrow> lock_step s (s\<lparr>the_lock := l\<rparr>)"
| take: "pc_of s i = Spinning \<Longrightarrow> acquire_test (the_lock s) = (False, l) \<Longrightarrow>
     lock_step s (s\<lparr>the_lock := l, pc_of := (pc_of s)(i := Holding)\<rparr>)"
| leave: "pc_of s i = Holding \<Longrightarrow>
     lock_step s (s\<lparr>the_lock := release (the_lock s), pc_of := (pc_of s)(i := Outside)\<rparr>)"

inductive_cases lock_stepE: "lock_step s t"

inductive lock_reach :: "lock_sys \<Rightarrow> bool" where
  boot: "lock_reach lock_init"
| more: "lock_reach s \<Longrightarrow> lock_step s t \<Longrightarrow> lock_reach t"

text \<open>The lock word is 0 when no context is between its calls, 1 when exactly one is.\<close>

definition lock_inv :: "lock_sys \<Rightarrow> bool" where
  "lock_inv s \<longleftrightarrow>
     (lock_value (the_lock s) = 0 \<and> (\<forall>i. pc_of s i \<noteq> Holding)) \<or>
     (lock_value (the_lock s) = 1 \<and> (\<exists>!i. pc_of s i = Holding))"

lemma lock_inv_init: "lock_inv lock_init"
  by (simp add: lock_inv_def lock_init_def init_lock_def)

lemma lock_step_inv: "lock_step s t \<Longrightarrow> lock_inv s \<Longrightarrow> lock_inv t"
proof (induction rule: lock_step.induct)
  case (call s i)
  then have "((pc_of s)(i := Spinning)) j = Holding \<longleftrightarrow> pc_of s j = Holding" for j by auto
  with call show ?case by (simp add: lock_inv_def)
next
  case (spin s i l)
  then show ?case by (auto simp: lock_inv_def acquire_test_eq)
next
  case (take s i l)
  then show ?case by (auto simp: lock_inv_def acquire_test_eq)
next
  case (leave s i)
  then show ?case by (auto simp: lock_inv_def release_def)
qed

lemma lock_reach_inv: "lock_reach s \<Longrightarrow> lock_inv s"
  by (induction rule: lock_reach.induct) (auto intro: lock_inv_init lock_step_inv)

section \<open>Properties\<close>

text \<open>\<open>acquire\<close> returns exactly when the lock word is 0, leaves it 1, and \<open>release\<close> makes
  the next \<open>acquire\<close> succeed; on a held lock it spins for ever.\<close>

theorem acquire_release_correct:
  "(acquire l = (if lock_value l = 0 then Some (l\<lparr>lock_value := 1\<rparr>) else None)) \<and>
   acquire (release l) = Some (l\<lparr>lock_value := 1\<rparr>)"
  by (simp add: acquire_held release_def)

text \<open>
  C12: The lock excludes and does not leak.  In every state that any number of contexts reach by the
  tests of their \<open>acquire\<close> loops and their releases, at most one context is between its \<open>acquire\<close> and its
  \<open>release\<close>; while one is, a call of \<open>acquire\<close> never returns, otherwise it returns with the lock taken;
  and when the holder releases the lock, the next call of \<open>acquire\<close> returns.
\<close>

theorem lock_mutual_exclusion:
  assumes "lock_reach s"
  shows "(\<forall>i j. pc_of s i = Holding \<longrightarrow> pc_of s j = Holding \<longrightarrow> i = j) \<and>
    acquire (the_lock s) = (if \<exists>i. pc_of s i = Holding then None else Some \<lparr>lock_value = 1\<rparr>) \<and>
    acquire (release (the_lock s)) = Some \<lparr>lock_value = 1\<rparr>"
proof -
  have one: "l\<lparr>lock_value := 1\<rparr> = \<lparr>lock_value = 1\<rparr>" for l :: lock by simp
  from lock_reach_inv [OF assms] show ?thesis
    unfolding lock_inv_def by (auto simp: acquire_held release_def one)
qed

text \<open>Context 3 holds the lock, context 5 has tried to take it.\<close>

definition contended :: lock_sys where
  "contended = \<lparr>the_lock = \<lparr>lock_value = 1\<rparr>, pc_of = (\<lambda>_. Outside)(3 := Holding, 5 := Spinning)\<rparr>"

lemma contended_reach: "lock_reach contended"
proof -
  define a where "a = \<lparr>the_lock = \<lparr>lock_value = 0\<rparr>, pc_of = (\<lambda>_. Outside)(3 := Spinning)\<rparr>"
  define b where "b = \<lparr>the_lock = \<lparr>lock_value = 1\<rparr>, pc_of = (\<lambda>_. Outside)(3 := Holding)\<rparr>"
  have "lock_step lock_init a"
    using lock_step.call [of lock_init 3] by (simp add: a_def lock_init_def init_lock_def)
  with boot have a: "lock_reach a" by (rule more)
  have "lock_step a b" using take [of a 3 "\<lparr>lock_value = 1\<rparr>"] by (simp add: a_def b_def acquire_test_eq)
  with a have b: "lock_reach b" by (rule more)
  have "lock_step b contended" using lock_step.call [of b 5] by (simp add: b_def contended_def)
  with b have c: "lock_reach contended" by (rule more)
  have "lock_step contended contended"
    using spin [of contended 5 "\<lparr>lock_value = 1\<rparr>"] by (simp add: contended_def acquire_test_eq)
  with c show ?thesis by (rule more)
qed

theorem lock_mutual_exclusion_witness:
  "lock_reach contended \<and> pc_of contended 3 = Holding \<and> {j. pc_of contended j = Holding} = {3} \<and>
   pc_of contended 5 = Spinning \<and> acquire (the_lock contended) = None"
proof -
  have "pc_of contended 3 = Holding" "pc_of contended 5 = Spinning" by (simp_all add: contended_def)
  with lock_mutual_exclusion [OF contended_reach] contended_reach show ?thesis by auto
qed

end
