(* ===== verification/Disk.thy ===== *)
theory Disk
  imports Lock
begin

text \<open>
  \<open>diskload.c\<close>: the IDE driver.  \<open>k_operatesector\<close> is modelled at the level of its port
  accesses, over a device that is a parameter; \<open>ata_device\<close> states the documented behaviour
  of an ATA drive in PIO mode that the driver relies on.  \<open>k_readsector\<close> and \<open>k_writesector\<close>
  are then given on an abstract disk (the contents of every sector), which is what the file
  system runs on, and \<open>k_operatesector_correct\<close> shows that the calls over the port-level driver
  (\<open>readsector_io\<close>, \<open>writesector_io\<close>) implement them.  \<open>block_device\<close> is the contract of the two calls.
\<close>

type_synonym disk = "u32 \<Rightarrow> u8 list"

section \<open>Ports\<close>

record 'd ports =
  port_outb :: "'d \<Rightarrow> u16 \<Rightarrow> u8 \<Rightarrow> 'd"
  port_inb :: "'d \<Rightarrow> u16 \<Rightarrow> u8 \<times> 'd"
  port_outw :: "'d \<Rightarrow> u16 \<Rightarrow> u16 \<Rightarrow> 'd"
  port_inw :: "'d \<Rightarrow> u16 \<Rightarrow> u16 \<times> 'd"

abbreviation IDE_DATA_PORT :: u16 where "IDE_DATA_PORT \<equiv> 0x1f0"
abbreviation IDE_SECTOR_COUNT_PORT :: u16 where "IDE_SECTOR_COUNT_PORT \<equiv> 0x1f2"
abbreviation IDE_SECTOR_NUMBER_PORT :: u16 where "IDE_SECTOR_NUMBER_PORT \<equiv> 0x1f3"
abbreviation IDE_CYLINDER_LOW_PORT :: u16 where "IDE_CYLINDER_LOW_PORT \<equiv> 0x1f4"
abbreviation IDE_CYLINDER_HIGH_PORT :: u16 where "IDE_CYLINDER_HIGH_PORT \<equiv> 0x1f5"
abbreviation IDE_DEVICE_PORT :: u16 where "IDE_DEVICE_PORT \<equiv> 0x1f6"
abbreviation IDE_STATUS_PORT :: u16 where "IDE_STATUS_PORT \<equiv> 0x1f7"
abbreviation READ_DISK_FLAG :: int where "READ_DISK_FLAG \<equiv> 0"
abbreviation WRITE_DISK_FLAG :: int where "WRITE_DISK_FLAG \<equiv> 1"
abbreviation SECTOR_SIZE :: nat where "SECTOR_SIZE \<equiv> 512"

section \<open>The driver\<close>

text \<open>The four bytes that \<open>k_operatesector\<close> writes to the address registers.\<close>

definition lba_regs :: "u32 \<Rightarrow> u8 \<times> u8 \<times> u8 \<times> u8" where
  "lba_regs sector_number =
     (ucast (sector_number AND 0x000000ff),
      ucast (drop_bit 8 (sector_number AND 0x0000ff00)),
      ucast (drop_bit 16 (sector_number AND 0x00ff0000)),
      ucast (drop_bit 24 (sector_number AND 0x0f0000) OR 0xe0))"

fun outs :: "'d ports \<Rightarrow> 'd \<Rightarrow> (u16 \<times> u8) list \<Rightarrow> 'd" where
  "outs P d [] = d"
| "outs P d ((port, v) # ws) = outs P (port_outb P d port v) ws"

definition setup_writes :: "u32 \<Rightarrow> int \<Rightarrow> (u16 \<times> u8) list" where
  "setup_writes sector_number rwflag =
     (case lba_regs sector_number of (low, mid, high, dev) \<Rightarrow>
        [(IDE_SECTOR_COUNT_PORT, 1),
         (IDE_SECTOR_NUMBER_PORT, low),
         (IDE_CYLINDER_LOW_PORT, mid),
         (IDE_CYLINDER_HIGH_PORT, high),
         (IDE_DEVICE_PORT, dev),
         (IDE_STATUS_PORT, if rwflag = READ_DISK_FLAG then 0x20 else 0x30)])"

text \<open>The polling loop; \<open>None\<close> when the drive never raises its data-request bit.\<close>

partial_function (option) wait_drq :: "'d ports \<Rightarrow> 'd \<Rightarrow> 'd option" where
  "wait_drq P d =
     (case port_inb P d IDE_STATUS_PORT of
        (status, d') \<Rightarrow> if status AND 0x08 = 0 then wait_drq P d' else Some d')"

text \<open>The transfer loop: \<open>n\<close> more 16-bit words, at the bytes \<open>target\<close>.\<close>

fun transfer :: "'d ports \<Rightarrow> int \<Rightarrow> nat \<Rightarrow> u8 list \<Rightarrow> 'd \<Rightarrow> (u8 list \<times> 'd) option" where
  "transfer P rwflag 0 target d = Some (target, d)"
| "transfer P rwflag (Suc n) (x # y # target) d =
     (if rwflag = READ_DISK_FLAG then
        (case port_inw P d IDE_DATA_PORT of
           (data, d') \<Rightarrow> map_option (\<lambda>(t, e). (le16 data @ t, e)) (transfer P rwflag n target d'))
      else
        map_option (\<lambda>(t, e). (x # y # t, e))
          (transfer P rwflag n target (port_outw P d IDE_DATA_PORT (rd16 [x, y]))))"
| "transfer P rwflag (Suc n) _ d = None"

definition k_operatesector ::
    "'d ports \<Rightarrow> lock \<Rightarrow> 'd \<Rightarrow> u8 list \<Rightarrow> u32 \<Rightarrow> int \<Rightarrow> (lock \<times> 'd \<times> u8 list) option" where
  "k_operatesector P disk_lock d target_location sector_number rwflag = do {
     l \<leftarrow> acquire disk_lock;
     d1 \<leftarrow> wait_drq P (outs P d (setup_writes sector_number rwflag));
     (buf, d2) \<leftarrow> transfer P rwflag 256 target_location d1;
     Some (release l, d2, buf)
   }"

section \<open>The sector calls\<close>

text \<open>The sector that the address registers of a drive select (28-bit LBA).\<close>

definition lba_of_regs :: "u8 \<times> u8 \<times> u8 \<times> u8 \<Rightarrow> u32" where
  "lba_of_regs regs = (case regs of (low, mid, high, dev) \<Rightarrow>
     ucast low OR push_bit 8 (ucast mid) OR push_bit 16 (ucast high)
       OR push_bit 24 (ucast (dev AND 0x0f)))"

text \<open>The calls as the kernel makes them, on the ports.\<close>

definition readsector_io :: "'d ports \<Rightarrow> lock \<Rightarrow> 'd \<Rightarrow> u8 list \<Rightarrow> u32 \<Rightarrow> (lock \<times> 'd \<times> u8 list) option" where
  "readsector_io P disk_lock d target_location sector_number =
     k_operatesector P disk_lock d target_location sector_number READ_DISK_FLAG"

definition writesector_io :: "'d ports \<Rightarrow> lock \<Rightarrow> 'd \<Rightarrow> u8 list \<Rightarrow> u32 \<Rightarrow> (lock \<times> 'd \<times> u8 list) option" where
  "writesector_io P disk_lock d target_location sector_number =
     k_operatesector P disk_lock d target_location sector_number WRITE_DISK_FLAG"

text \<open>
  What the calls mean, for the file system: the sector that the low 24 bits name, whichever way the
  driver sends them to the drive.
\<close>

definition sector_lba :: "u32 \<Rightarrow> u32" where
  "sector_lba sector_number = sector_number AND 0xffffff"

definition k_readsector :: "disk \<Rightarrow> u32 \<Rightarrow> u8 list" where
  "k_readsector d sector_number = d (sector_lba sector_number)"

definition k_writesector :: "disk \<Rightarrow> u8 list \<Rightarrow> u32 \<Rightarrow> disk" where
  "k_writesector d target_location sector_number =
     d(sector_lba sector_number := take SECTOR_SIZE target_location)"

definition disk_ok :: "disk \<Rightarrow> bool" where
  "disk_ok d \<longleftrightarrow> (\<forall>s. length (d s) = SECTOR_SIZE)"

lemma bit_masks:
  "bit (0xff :: u32) n \<longleftrightarrow> n < 8"
  "bit (0xff00 :: u32) n \<longleftrightarrow> 8 \<le> n \<and> n < 16"
  "bit (0xff0000 :: u32) n \<longleftrightarrow> 16 \<le> n \<and> n < 24"
  "bit (0xffffff :: u32) n \<longleftrightarrow> n < 24"
  "bit (0x0f :: u8) n \<longleftrightarrow> n < 4"
  "bit (0xe0 :: u8) n \<longleftrightarrow> 5 \<le> n \<and> n < 8"
proof -
  have "(0xff :: u32) = mask 8" "(0xff00 :: u32) = push_bit 8 (mask 8)"
    "(0xff0000 :: u32) = push_bit 16 (mask 8)" "(0xffffff :: u32) = mask 24"
    "(0x0f :: u8) = mask 4" "(0xe0 :: u8) = push_bit 5 (mask 3)"
    by (simp_all add: mask_eq_exp_minus_1)
  then show
    "bit (0xff :: u32) n \<longleftrightarrow> n < 8"
    "bit (0xff00 :: u32) n \<longleftrightarrow> 8 \<le> n \<and> n < 16"
    "bit (0xff0000 :: u32) n \<longleftrightarrow> 16 \<le> n \<and> n < 24"
    "bit (0xffffff :: u32) n \<longleftrightarrow> n < 24"
    "bit (0x0f :: u8) n \<longleftrightarrow> n < 4"
    "bit (0xe0 :: u8) n \<longleftrightarrow> 5 \<le> n \<and> n < 8"
    by (simp_all only: bit_simps) auto
qed

text \<open>The driver sends the low 24 bits, split over the registers, and nothing of the others.\<close>

lemma lba_of_lba_regs: "lba_of_regs (lba_regs s) = sector_lba s"
proof (rule bit_word_eqI)
  fix n assume "n < LENGTH(32)"
  then consider "n < 8" | "8 \<le> n" "n < 16" | "16 \<le> n" "n < 24" | "24 \<le> n" "n < 32"
    by fastforce
  then show "bit (lba_of_regs (lba_regs s)) n = bit (sector_lba s) n"
    by cases
       (auto simp add: sector_lba_def lba_of_regs_def lba_regs_def bit_masks bit_simps
          simp del: bit_numeral_word_iff)
qed

lemma sector_lba_small [simp]: "unat s < 2 ^ 24 \<Longrightarrow> sector_lba s = s"
proof -
  assume "unat s < 2 ^ 24"
  then have "take_bit 24 s = s"
    by (intro unsigned_word_eqI [where 'a = nat]) (simp add: unsigned_take_bit_eq take_bit_nat_eq_self)
  then show ?thesis by (simp add: sector_lba_def take_bit_eq_mask mask_eq_exp_minus_1)
qed


lemma sector_lba_idem: "sector_lba (sector_lba s) = sector_lba s"
  by (simp add: sector_lba_def)

section \<open>The contract of the sector calls\<close>

locale block_device =
  fixes rd :: "'d \<Rightarrow> u32 \<Rightarrow> u8 list"
    and wr :: "'d \<Rightarrow> u8 list \<Rightarrow> u32 \<Rightarrow> 'd"
    and same :: "u32 \<Rightarrow> u32 \<Rightarrow> bool"
    and ok :: "'d \<Rightarrow> bool"
  assumes rd_len: "ok d \<Longrightarrow> length (rd d s) = SECTOR_SIZE"
    and rd_wr: "ok d \<Longrightarrow> length b = SECTOR_SIZE \<Longrightarrow>
      rd (wr d b s) t = (if same s t then b else rd d t)"
    and ok_wr: "ok d \<Longrightarrow> length b = SECTOR_SIZE \<Longrightarrow> ok (wr d b s)"
begin

text \<open>Read a sector, copy bytes into it at an offset, write it back.\<close>

definition patch :: "'d \<Rightarrow> u32 \<Rightarrow> nat \<Rightarrow> u8 list \<Rightarrow> 'd" where
  "patch d s off bs = wr d (splice (rd d s) off bs) s"

lemma ok_patch: "ok d \<Longrightarrow> off + length bs \<le> SECTOR_SIZE \<Longrightarrow> ok (patch d s off bs)"
  by (simp add: patch_def ok_wr rd_len)

lemma rd_patch:
  assumes "ok d" and "off + length bs \<le> SECTOR_SIZE" and "same s t" and "rd d s = rd d t"
  shows "slice (rd (patch d s off bs) t) off (length bs) = bs"
  using assms by (simp add: patch_def rd_wr rd_len slice_splice_same)

lemma rd_patch_elsewhere:
  assumes "ok d" and "off + length bs \<le> SECTOR_SIZE" and "rd d s = rd d t"
    and "o2 + n \<le> off \<or> off + length bs \<le> o2" and "o2 + n \<le> SECTOR_SIZE"
  shows "slice (rd (patch d s off bs) t) o2 n = slice (rd d t) o2 n"
  using assms
  by (auto simp: patch_def rd_wr rd_len slice_splice_before slice_splice_after)

lemma rd_patch_other:
  "ok d \<Longrightarrow> off + length bs \<le> SECTOR_SIZE \<Longrightarrow> \<not> same s t \<Longrightarrow> rd (patch d s off bs) t = rd d t"
  by (simp add: patch_def rd_wr rd_len)

end

interpretation sectors: block_device k_readsector k_writesector
  "\<lambda>s t. sector_lba s = sector_lba t" disk_ok
  by unfold_locales (auto simp: k_readsector_def k_writesector_def disk_ok_def)

section \<open>The driver implements the sector calls\<close>

text \<open>
  What the driver relies on, as the ATA standard documents it for PIO transfers.  \<open>phase\<close> is
  the protocol state of the drive, \<open>sectors\<close> its medium: an idle drive that gets a sector
  count of 1, an LBA address for the master and a READ or WRITE SECTORS command is busy for
  finitely many status reads and then raises its data-request bit; it then delivers the 256
  words of the sector, or stores the 256 words it is given, and is idle again.
\<close>

datatype ata_phase = Idle | Busy nat ata_phase | DataIn "u16 list" | DataOut u32 nat "u16 list"

fun words_of :: "u8 list \<Rightarrow> u16 list" where
  "words_of (x # y # bs) = rd16 [x, y] # words_of bs"
| "words_of _ = []"

definition ata_command :: "'d ports \<Rightarrow> ('d \<Rightarrow> disk) \<Rightarrow> ('d \<Rightarrow> ata_phase) \<Rightarrow> bool" where
  "ata_command P sectors phase \<longleftrightarrow>
     (\<forall>d low mid high dev cmd. phase d = Idle \<longrightarrow> dev AND 0x50 = 0x40 \<longrightarrow> cmd \<in> {0x20, 0x30} \<longrightarrow>
        (let d' = outs P d [(0x1f2, 1), (0x1f3, low), (0x1f4, mid), (0x1f5, high), (0x1f6, dev),
                            (0x1f7, cmd)];
             lba = lba_of_regs (low, mid, high, dev)
         in sectors d' = sectors d \<and>
            (\<exists>n. phase d' = Busy n (if cmd = 0x20 then DataIn (words_of (sectors d lba))
                                  else DataOut lba 256 []))))"

definition ata_poll :: "'d ports \<Rightarrow> ('d \<Rightarrow> disk) \<Rightarrow> ('d \<Rightarrow> ata_phase) \<Rightarrow> bool" where
  "ata_poll P sectors phase \<longleftrightarrow>
     (\<forall>d n ph status d'. phase d = Busy n ph \<longrightarrow> port_inb P d 0x1f7 = (status, d') \<longrightarrow>
        sectors d' = sectors d \<and>
        (if n = 0 then status AND 0x08 \<noteq> 0 \<and> phase d' = ph
         else status AND 0x08 = 0 \<and> phase d' = Busy (n - 1) ph))"

definition ata_data_in :: "'d ports \<Rightarrow> ('d \<Rightarrow> disk) \<Rightarrow> ('d \<Rightarrow> ata_phase) \<Rightarrow> bool" where
  "ata_data_in P sectors phase \<longleftrightarrow>
     (\<forall>d w ws data d'. phase d = DataIn (w # ws) \<longrightarrow> port_inw P d 0x1f0 = (data, d') \<longrightarrow>
        data = w \<and> sectors d' = sectors d \<and> phase d' = (if ws = [] then Idle else DataIn ws))"

definition ata_data_out :: "'d ports \<Rightarrow> ('d \<Rightarrow> disk) \<Rightarrow> ('d \<Rightarrow> ata_phase) \<Rightarrow> bool" where
  "ata_data_out P sectors phase \<longleftrightarrow>
     (\<forall>d lba n ws w. phase d = DataOut lba (Suc n) ws \<longrightarrow>
        (if n = 0
         then phase (port_outw P d 0x1f0 w) = Idle \<and>
              sectors (port_outw P d 0x1f0 w) = (sectors d)(lba := concat (map le16 (ws @ [w])))
         else phase (port_outw P d 0x1f0 w) = DataOut lba n (ws @ [w]) \<and>
              sectors (port_outw P d 0x1f0 w) = sectors d))"

definition ata_device :: "'d ports \<Rightarrow> ('d \<Rightarrow> disk) \<Rightarrow> ('d \<Rightarrow> ata_phase) \<Rightarrow> bool" where
  "ata_device P sectors phase \<longleftrightarrow>
     ata_command P sectors phase \<and> ata_poll P sectors phase \<and>
     ata_data_in P sectors phase \<and> ata_data_out P sectors phase"

lemma ata_commandD:
  assumes "ata_command P sectors phase" and "phase d = Idle" and "dev AND 0x50 = 0x40"
    and "cmd \<in> {0x20, 0x30}"
    and "d' = outs P d [(0x1f2, 1), (0x1f3, low), (0x1f4, mid), (0x1f5, high), (0x1f6, dev),
      (0x1f7, cmd)]"
  shows "sectors d' = sectors d \<and>
    (\<exists>n. phase d' = Busy n (if cmd = 0x20
       then DataIn (words_of (sectors d (lba_of_regs (low, mid, high, dev))))
       else DataOut (lba_of_regs (low, mid, high, dev)) 256 []))"
  using assms unfolding ata_command_def Let_def by blast

lemma ata_pollD:
  "ata_poll P sectors phase \<Longrightarrow> phase d = Busy n ph \<Longrightarrow> port_inb P d 0x1f7 = (status, d') \<Longrightarrow>
   sectors d' = sectors d \<and>
   (if n = 0 then status AND 0x08 \<noteq> 0 \<and> phase d' = ph
    else status AND 0x08 = 0 \<and> phase d' = Busy (n - 1) ph)"
  unfolding ata_poll_def by blast

lemma ata_data_inD:
  "ata_data_in P sectors phase \<Longrightarrow> phase d = DataIn (w # ws) \<Longrightarrow> port_inw P d 0x1f0 = (data, d') \<Longrightarrow>
   data = w \<and> sectors d' = sectors d \<and> phase d' = (if ws = [] then Idle else DataIn ws)"
  unfolding ata_data_in_def by blast

lemma concat_le16_words_of: "even (length bs) \<Longrightarrow> concat (map le16 (words_of bs)) = bs"
  by (induction bs rule: words_of.induct) (auto simp: le16_rd16)

lemma length_words_of: "length (words_of bs) = length bs div 2"
  by (induction bs rule: words_of.induct) auto

lemma wait_drq_busy:
  assumes "ata_poll P sectors phase"
  shows "phase d = Busy n ph \<Longrightarrow>
    \<exists>d'. wait_drq P d = Some d' \<and> phase d' = ph \<and> sectors d' = sectors d"
proof (induction n arbitrary: d)
  case 0
  obtain status d' where io: "port_inb P d 0x1f7 = (status, d')" by fastforce
  from ata_pollD [OF assms 0 io]
  have "status AND 0x08 \<noteq> 0" "phase d' = ph" "sectors d' = sectors d" by auto
  with io show ?case by (subst wait_drq.simps) auto
next
  case (Suc n)
  obtain status d' where io: "port_inb P d 0x1f7 = (status, d')" by fastforce
  from ata_pollD [OF assms Suc.prems io]
  have st: "status AND 0x08 = 0" "phase d' = Busy n ph" "sectors d' = sectors d" by auto
  from Suc.IH [OF st(2)] io st show ?case by (subst wait_drq.simps) auto
qed

lemma length_2_Suc:
  assumes "length buf = 2 * Suc n"
  obtains x y buf' where "buf = x # y # buf'" and "length buf' = 2 * n"
  using assms by (cases buf; cases "tl buf") auto

lemma transfer_read:
  assumes "ata_data_in P sectors phase"
  shows "phase d = (if ws = [] then Idle else DataIn ws) \<Longrightarrow> length buf = 2 * length ws \<Longrightarrow>
    \<exists>d'. transfer P READ_DISK_FLAG (length ws) buf d = Some (concat (map le16 ws), d') \<and>
         phase d' = Idle \<and> sectors d' = sectors d"
proof (induction ws arbitrary: buf d)
  case Nil
  then show ?case by simp
next
  case (Cons w ws)
  from Cons.prems(2) have "length buf = 2 * Suc (length ws)" by simp
  then obtain x y buf' where buf: "buf = x # y # buf'" "length buf' = 2 * length ws"
    by (rule length_2_Suc)
  obtain data d' where io: "port_inw P d 0x1f0 = (data, d')" by fastforce
  from Cons.prems(1) have "phase d = DataIn (w # ws)" by simp
  from ata_data_inD [OF assms this io]
  have "data = w" "sectors d' = sectors d" "phase d' = (if ws = [] then Idle else DataIn ws)"
    by auto
  with Cons.IH [OF this(3) buf(2)] io buf show ?case by auto
qed

lemma transfer_write:
  assumes "ata_data_out P sectors phase"
  shows "phase d = DataOut lba (Suc n) ws \<Longrightarrow> length buf = 2 * Suc n \<Longrightarrow>
    \<exists>d'. transfer P WRITE_DISK_FLAG (Suc n) buf d = Some (buf, d') \<and> phase d' = Idle \<and>
         sectors d' = (sectors d)(lba := concat (map le16 (ws @ words_of buf)))"
proof (induction n arbitrary: buf d ws)
  case 0
  from 0(2) obtain x y buf' where "buf = x # y # buf'" "length buf' = 2 * 0"
    by (rule length_2_Suc)
  then have "buf = [x, y]" by simp
  moreover from assms 0(1)
  have "phase (port_outw P d 0x1f0 (rd16 [x, y])) = Idle \<and>
      sectors (port_outw P d 0x1f0 (rd16 [x, y]))
        = (sectors d)(lba := concat (map le16 (ws @ [rd16 [x, y]])))"
    by (auto simp: ata_data_out_def)
  ultimately show ?case by (simp add: fun_upd_def)
next
  case (Suc n)
  from Suc.prems(2) obtain x y buf' where buf: "buf = x # y # buf'" "length buf' = 2 * Suc n"
    by (rule length_2_Suc)
  let ?d = "port_outw P d 0x1f0 (rd16 [x, y])"
  from assms Suc.prems(1) have d: "phase ?d = DataOut lba (Suc n) (ws @ [rd16 [x, y]])"
    "sectors ?d = sectors d"
    by (auto simp: ata_data_out_def)
  from Suc.IH [OF d(1) buf(2)] d buf show ?case by auto
qed

lemma setup_dev: "ucast (drop_bit 24 (s AND 0x0f0000 :: u32) OR 0xe0) AND 0x50 = (0x40 :: u8)"
proof -
  have "(0x0f0000 :: u32) = push_bit 16 (mask 4)" by (simp add: mask_eq_exp_minus_1)
  then have "drop_bit 24 (s AND 0x0f0000) = (0 :: u32)"
    by (intro bit_word_eqI) (simp only:, simp add: bit_simps)
  then show ?thesis by simp
qed

lemma k_operatesector_setup:
  assumes "ata_device P sectors phase" and "phase d = Idle"
  obtains n where
    "phase (outs P d (setup_writes s rw)) = Busy n
       (if rw = READ_DISK_FLAG then DataIn (words_of (sectors d (sector_lba s)))
        else DataOut (sector_lba s) 256 [])"
    and "sectors (outs P d (setup_writes s rw)) = sectors d"
proof -
  obtain low mid high dev where regs: "lba_regs s = (low, mid, high, dev)"
    by (cases "lba_regs s") auto
  let ?c = "if rw = READ_DISK_FLAG then 0x20 else 0x30 :: u8"
  from regs setup_dev [of s] have dev: "dev AND 0x50 = 0x40"
    by (auto simp: lba_regs_def)
  from assms(1) have cmd: "ata_command P sectors phase" by (simp add: ata_device_def)
  have writes: "outs P d (setup_writes s rw) = outs P d [(0x1f2, 1), (0x1f3, low), (0x1f4, mid),
      (0x1f5, high), (0x1f6, dev), (0x1f7, ?c)]"
    by (simp only: setup_writes_def regs prod.case)
  from ata_commandD [OF cmd assms(2) dev _ writes] regs show thesis
    by (cases "rw = READ_DISK_FLAG") (auto intro: that simp flip: lba_of_lba_regs)
qed

section \<open>Properties\<close>

text \<open>
  C9: On a drive that behaves as the ATA standard says, with the lock free, the calls that read and write a
  sector return after finitely many polls, free the lock and leave the drive idle.  A read fills the
  512-byte buffer with the sector that the low 24 bits of the number name and changes no sector; a write
  replaces exactly that sector by the buffer.  That is what the file system's \<open>k_readsector\<close> and
  \<open>k_writesector\<close> do; the upper 8 bits of the number, of which the driver means to send four, are lost.
\<close>

theorem k_operatesector_correct:
  assumes "ata_device P sectors phase" and "phase d = Idle" and "lock_value l = 0"
    and "length buf = SECTOR_SIZE" and "disk_ok (sectors d)"
  shows "(\<exists>d'. readsector_io P l d buf s = Some (l, d', sectors d (s AND 0xffffff)) \<and>
               phase d' = Idle \<and> sectors d' = sectors d) \<and>
         (\<exists>d'. writesector_io P l d buf s = Some (l, d', buf) \<and>
               phase d' = Idle \<and> sectors d' = (sectors d)(s AND 0xffffff := buf)) \<and>
         k_readsector (sectors d) s = sectors d (s AND 0xffffff) \<and>
         k_writesector (sectors d) buf s = (sectors d)(s AND 0xffffff := buf)"
proof -
  from assms(1) have dev: "ata_poll P sectors phase" "ata_data_in P sectors phase"
    "ata_data_out P sectors phase" by (simp_all add: ata_device_def)
  have lock: "acquire l = Some (l\<lparr>lock_value := 1\<rparr>)" "release (l\<lparr>lock_value := 1\<rparr>) = l"
    using assms(3) by (simp_all add: release_def)
  let ?ws = "words_of (sectors d (sector_lba s))"
  have len: "length ?ws = 256" "?ws \<noteq> []"
    using assms(5) by (auto simp: length_words_of disk_ok_def simp flip: length_greater_0_conv)
  have read: "\<exists>d'. k_operatesector P l d buf s READ_DISK_FLAG
      = Some (l, d', k_readsector (sectors d) s) \<and> phase d' = Idle \<and> sectors d' = sectors d"
  proof -
    from k_operatesector_setup [OF assms(1,2), of s READ_DISK_FLAG] obtain n where
      "phase (outs P d (setup_writes s READ_DISK_FLAG)) = Busy n (DataIn ?ws)"
      and "sectors (outs P d (setup_writes s READ_DISK_FLAG)) = sectors d" by auto
    with wait_drq_busy [OF dev(1) this(1)] obtain d1 where
      d1: "wait_drq P (outs P d (setup_writes s READ_DISK_FLAG)) = Some d1"
      "phase d1 = DataIn ?ws" "sectors d1 = sectors d" by auto
    from transfer_read [OF dev(2), of d1 ?ws buf] d1 len assms(4) obtain d2 where
      "transfer P READ_DISK_FLAG 256 buf d1 = Some (concat (map le16 ?ws), d2)"
      "phase d2 = Idle" "sectors d2 = sectors d" by auto
    with d1 lock assms(5) show ?thesis
      by (simp add: k_operatesector_def k_readsector_def concat_le16_words_of disk_ok_def)
  qed
  have "\<exists>d'. k_operatesector P l d buf s WRITE_DISK_FLAG = Some (l, d', buf) \<and>
      phase d' = Idle \<and> sectors d' = k_writesector (sectors d) buf s"
  proof -
    from k_operatesector_setup [OF assms(1,2), of s WRITE_DISK_FLAG] obtain n where
      "phase (outs P d (setup_writes s WRITE_DISK_FLAG)) = Busy n (DataOut (sector_lba s) 256 [])"
      and "sectors (outs P d (setup_writes s WRITE_DISK_FLAG)) = sectors d" by auto
    with wait_drq_busy [OF dev(1) this(1)] obtain d1 where
      d1: "wait_drq P (outs P d (setup_writes s WRITE_DISK_FLAG)) = Some d1"
      "phase d1 = DataOut (sector_lba s) (Suc 255) []" "sectors d1 = sectors d" by auto
    from transfer_write [OF dev(3) d1(2), of buf] assms(4) d1(3) obtain d2 where
      "transfer P WRITE_DISK_FLAG 256 buf d1 = Some (buf, d2)" "phase d2 = Idle"
      "sectors d2 = (sectors d)(sector_lba s := buf)"
      by (auto simp: concat_le16_words_of)
    with d1 lock assms(4) show ?thesis
      by (simp add: k_operatesector_def k_writesector_def)
  qed
  moreover have "k_writesector (sectors d) buf s = (sectors d)(s AND 0xffffff := buf)"
    using assms(4) by (simp add: k_writesector_def sector_lba_def)
  moreover have "k_readsector (sectors d) s = sectors d (s AND 0xffffff)"
    by (simp add: k_readsector_def sector_lba_def)
  ultimately show ?thesis using read by (simp add: readsector_io_def writesector_io_def)
qed

text \<open>A drive for the witness: it is busy for two status reads after each command.\<close>

record sim_drive =
  sim_medium :: disk
  sim_phase :: ata_phase
  sim_regs :: "u8 \<times> u8 \<times> u8 \<times> u8"

definition sim_outb :: "sim_drive \<Rightarrow> u16 \<Rightarrow> u8 \<Rightarrow> sim_drive" where
  "sim_outb d port v = (case sim_regs d of (a, b, c, e) \<Rightarrow>
     if port = 0x1f3 then d\<lparr>sim_regs := (v, b, c, e)\<rparr>
     else if port = 0x1f4 then d\<lparr>sim_regs := (a, v, c, e)\<rparr>
     else if port = 0x1f5 then d\<lparr>sim_regs := (a, b, v, e)\<rparr>
     else if port = 0x1f6 then d\<lparr>sim_regs := (a, b, c, v)\<rparr>
     else if port = 0x1f7 then
       d\<lparr>sim_phase := Busy 2 (if v = 0x20
            then DataIn (words_of (sim_medium d (lba_of_regs (a, b, c, e))))
            else DataOut (lba_of_regs (a, b, c, e)) 256 [])\<rparr>
     else d)"

definition sim_inb :: "sim_drive \<Rightarrow> u16 \<Rightarrow> u8 \<times> sim_drive" where
  "sim_inb d port = (case sim_phase d of
     Busy n ph \<Rightarrow> if n = 0 then (0x08, d\<lparr>sim_phase := ph\<rparr>)
                  else (0x80, d\<lparr>sim_phase := Busy (n - 1) ph\<rparr>)
   | _ \<Rightarrow> (0x40, d))"

definition sim_inw :: "sim_drive \<Rightarrow> u16 \<Rightarrow> u16 \<times> sim_drive" where
  "sim_inw d port = (case sim_phase d of
     DataIn (w # ws) \<Rightarrow> (w, d\<lparr>sim_phase := if ws = [] then Idle else DataIn ws\<rparr>)
   | _ \<Rightarrow> (0, d))"

definition sim_outw :: "sim_drive \<Rightarrow> u16 \<Rightarrow> u16 \<Rightarrow> sim_drive" where
  "sim_outw d port w = (case sim_phase d of
     DataOut lba (Suc n) ws \<Rightarrow>
       if n = 0
       then d\<lparr>sim_phase := Idle,
              sim_medium := (sim_medium d)(lba := concat (map le16 (ws @ [w])))\<rparr>
       else d\<lparr>sim_phase := DataOut lba n (ws @ [w])\<rparr>
   | _ \<Rightarrow> d)"

definition sim_ports :: "sim_drive ports" where
  "sim_ports = \<lparr>port_outb = sim_outb, port_inb = sim_inb, port_outw = sim_outw, port_inw = sim_inw\<rparr>"

lemma sim_ports_sel [simp]:
  "port_outb sim_ports = sim_outb" "port_inb sim_ports = sim_inb"
  "port_outw sim_ports = sim_outw" "port_inw sim_ports = sim_inw"
  by (simp_all add: sim_ports_def)

lemma sim_ata_device: "ata_device sim_ports sim_medium sim_phase"
  unfolding ata_device_def
proof (intro conjI)
  show "ata_command sim_ports sim_medium sim_phase"
    by (auto simp: ata_command_def sim_outb_def Let_def split: prod.splits)
  show "ata_poll sim_ports sim_medium sim_phase"
    by (auto simp: ata_poll_def sim_inb_def split: if_splits)
  show "ata_data_in sim_ports sim_medium sim_phase"
    by (auto simp: ata_data_in_def sim_inw_def)
  show "ata_data_out sim_ports sim_medium sim_phase"
    by (auto simp: ata_data_out_def sim_outw_def)
qed

theorem k_operatesector_correct_witness:
  "\<exists>d'. writesector_io sim_ports \<lparr>lock_value = 0\<rparr>
      \<lparr>sim_medium = (\<lambda>_. replicate 512 7), sim_phase = Idle, sim_regs = (0, 0, 0, 0)\<rparr>
      (replicate 512 9) 0x1012c = Some (\<lparr>lock_value = 0\<rparr>, d', replicate 512 9) \<and>
    sim_medium d' = (\<lambda>_. replicate 512 7)(0x1012c := replicate 512 9)"
proof -
  have "(0x1012c :: u32) AND 0xffffff = 0x1012c" by code_simp
  then show ?thesis
    using k_operatesector_correct [OF sim_ata_device, of
        "\<lparr>sim_medium = (\<lambda>_. replicate 512 7), sim_phase = Idle, sim_regs = (0, 0, 0, 0)\<rparr>"
        "\<lparr>lock_value = 0\<rparr>" "replicate 512 9" "0x1012c"]
    by (auto simp: disk_ok_def)
qed

end
