(* ===== verification/FsLayout.thy ===== *)
theory FsLayout
  imports Disk
begin

text \<open>
  The on-disk structures of \<open>kernel.h\<close> and the routines of \<open>file.c\<close> that move one of them
  between memory and its sector: \<open>inode\<close> (116 bytes, with the two bytes of padding after
  \<open>mode\<close> that \<open>memmov\<close> copies along), \<open>super_block\<close> (36 bytes) and \<open>dir_item\<close> (28 bytes).
  \<open>codec\<close> is the contract of the three encodings.  Block 0 of the file system is sector
  \<open>SUPER_BLOCK_SECTOR\<close>.
\<close>

section \<open>Constants\<close>

abbreviation MAX_BLOCKS_InFILE :: nat where "MAX_BLOCKS_InFILE \<equiv> 20"
abbreviation FILE_NAME_MAX :: nat where "FILE_NAME_MAX \<equiv> 20"
abbreviation REGULAR_FILE :: u16 where "REGULAR_FILE \<equiv> 0"
abbreviation DIRECTORY_FILE :: u16 where "DIRECTORY_FILE \<equiv> 1"
abbreviation BLOCK_SIZE :: nat where "BLOCK_SIZE \<equiv> 512"
abbreviation SUPER_BLOCK_SECTOR :: u32 where "SUPER_BLOCK_SECTOR \<equiv> 300"
abbreviation SUPER_BLOCK_NO :: u32 where "SUPER_BLOCK_NO \<equiv> 0"
abbreviation BLOCK_FREE :: int where "BLOCK_FREE \<equiv> 0"
abbreviation BLOCK_BUSY :: int where "BLOCK_BUSY \<equiv> 1"
abbreviation DataBlockBitSize :: nat where "DataBlockBitSize \<equiv> 5"
abbreviation INODE_BLOCK_SIZE :: nat where "INODE_BLOCK_SIZE \<equiv> 50"
abbreviation FILE_SYS_BLOCKS :: u32 where "FILE_SYS_BLOCKS \<equiv> 700"

section \<open>Structures\<close>

record inode =
  i_size :: u32
  i_atime :: u32
  i_mtime :: u32
  i_ctime :: u32
  i_mode :: u16
  i_pad :: u16
  next_inode_block_no :: u32
  next_inode_offset :: u32
  my_inode_block_no :: u32
  my_inode_offset :: u32
  block_no :: "u32 list"

record super_block =
  free_inode_block_no :: u32
  free_inode_offset :: u32
  rootdir_inode_block_no :: u32
  rootdir_inode_offset :: u32
  dataBlockBit_no :: "u32 list"

record dir_item =
  d_name :: "u8 list"
  d_inode_block_no :: u32
  d_inode_offset :: u32

abbreviation sizeof_inode :: nat where "sizeof_inode \<equiv> 116"
abbreviation sizeof_super_block :: nat where "sizeof_super_block \<equiv> 36"
abbreviation sizeof_dir_item :: nat where "sizeof_dir_item \<equiv> 28"

definition le32s :: "u32 list \<Rightarrow> u8 list" where
  "le32s ws = concat (map le32 ws)"

definition rd32s :: "nat \<Rightarrow> u8 list \<Rightarrow> u32 list" where
  "rd32s n bs = map (\<lambda>k. rd32 (drop (4 * k) bs)) [0..<n]"

definition inode_bytes :: "inode \<Rightarrow> u8 list" where
  "inode_bytes n =
     le32 (i_size n) @ le32 (i_atime n) @ le32 (i_mtime n) @ le32 (i_ctime n) @
     le16 (i_mode n) @ le16 (i_pad n) @
     le32 (next_inode_block_no n) @ le32 (next_inode_offset n) @
     le32 (my_inode_block_no n) @ le32 (my_inode_offset n) @ le32s (block_no n)"

definition inode_of_bytes :: "u8 list \<Rightarrow> inode" where
  "inode_of_bytes bs =
     \<lparr>i_size = rd32 bs, i_atime = rd32 (drop 4 bs), i_mtime = rd32 (drop 8 bs),
      i_ctime = rd32 (drop 12 bs), i_mode = rd16 (drop 16 bs), i_pad = rd16 (drop 18 bs),
      next_inode_block_no = rd32 (drop 20 bs), next_inode_offset = rd32 (drop 24 bs),
      my_inode_block_no = rd32 (drop 28 bs), my_inode_offset = rd32 (drop 32 bs),
      block_no = rd32s MAX_BLOCKS_InFILE (drop 36 bs)\<rparr>"

definition super_block_bytes :: "super_block \<Rightarrow> u8 list" where
  "super_block_bytes sb =
     le32 (free_inode_block_no sb) @ le32 (free_inode_offset sb) @
     le32 (rootdir_inode_block_no sb) @ le32 (rootdir_inode_offset sb) @
     le32s (dataBlockBit_no sb)"

definition super_block_of_bytes :: "u8 list \<Rightarrow> super_block" where
  "super_block_of_bytes bs =
     \<lparr>free_inode_block_no = rd32 bs, free_inode_offset = rd32 (drop 4 bs),
      rootdir_inode_block_no = rd32 (drop 8 bs), rootdir_inode_offset = rd32 (drop 12 bs),
      dataBlockBit_no = rd32s DataBlockBitSize (drop 16 bs)\<rparr>"

definition dir_item_bytes :: "dir_item \<Rightarrow> u8 list" where
  "dir_item_bytes e = d_name e @ le32 (d_inode_block_no e) @ le32 (d_inode_offset e)"

definition dir_item_of_bytes :: "u8 list \<Rightarrow> dir_item" where
  "dir_item_of_bytes bs =
     \<lparr>d_name = take FILE_NAME_MAX bs, d_inode_block_no = rd32 (drop 20 bs),
      d_inode_offset = rd32 (drop 24 bs)\<rparr>"

section \<open>The encodings\<close>

locale codec =
  fixes enc :: "'a \<Rightarrow> u8 list" and dec :: "u8 list \<Rightarrow> 'a" and wf :: "'a \<Rightarrow> bool" and width :: nat
  assumes enc_len: "wf x \<Longrightarrow> length (enc x) = width"
    and dec_enc: "wf x \<Longrightarrow> dec (enc x) = x"
    and wf_dec: "width \<le> length bs \<Longrightarrow> wf (dec bs)"
    and dec_take: "width \<le> length bs \<Longrightarrow> dec (take width bs) = dec bs"
begin

text \<open>Storing a structure at an offset of a block and loading it again.\<close>

lemma dec_splice:
  "wf x \<Longrightarrow> off + width \<le> length blk \<Longrightarrow> dec (slice (splice blk off (enc x)) off width) = x"
  by (simp add: slice_splice_same enc_len dec_enc)

lemma dec_prefix: "wf x \<Longrightarrow> dec (enc x @ r) = x"
  using dec_take [of "enc x @ r"] by (simp add: enc_len dec_enc)

text \<open>It leaves every structure that does not overlap it alone.\<close>

lemma dec_splice_other:
  "\<lbrakk> wf x; off + width \<le> length blk; o2 + n \<le> length blk; o2 + n \<le> off \<or> off + width \<le> o2 \<rbrakk>
   \<Longrightarrow> slice (splice blk off (enc x)) o2 n = slice blk o2 n"
  by (auto simp: enc_len slice_splice_before slice_splice_after)

lemma enc_inj: "wf x \<Longrightarrow> wf y \<Longrightarrow> enc x = enc y \<Longrightarrow> x = y"
  using dec_enc by metis

end

lemma length_le32s [simp, codec_simps]: "length (le32s ws) = 4 * length ws"
  by (induction ws) (auto simp: le32s_def)

lemma rd32_le32s: "k < length ws \<Longrightarrow> rd32 (drop (4 * k) (le32s ws @ r)) = ws ! k"
proof (induction ws arbitrary: k)
  case Nil
  then show ?case by simp
next
  case (Cons w ws)
  then show ?case by (cases k) (auto simp: le32s_def)
qed

lemma rd32s_le32s [simp, codec_simps]: "length ws = n \<Longrightarrow> rd32s n (le32s ws @ r) = ws"
  by (intro nth_equalityI) (auto simp: rd32s_def rd32_le32s simp del: drop_append)

lemma rd32s_le32s_nil [simp, codec_simps]: "length ws = n \<Longrightarrow> rd32s n (le32s ws) = ws"
  using rd32s_le32s [of ws n "[]"] by simp

lemma length_rd32s [simp, codec_simps]: "length (rd32s n bs) = n"
  by (simp add: rd32s_def)

lemma rd32_take: "4 \<le> n \<Longrightarrow> rd32 (take n bs) = rd32 bs"
proof (cases "4 \<le> length bs")
  case True
  assume "4 \<le> n"
  with True show ?thesis
    by (cases bs rule: rd32.cases; cases n; cases "n - 1"; cases "n - 2"; cases "n - 3")
       (auto simp: rd32.simps take_Cons')
next
  case False
  assume "4 \<le> n"
  with False show ?thesis by simp
qed

lemma rd16_take: "2 \<le> n \<Longrightarrow> rd16 (take n bs) = rd16 bs"
  by (cases bs rule: rd16.cases) (auto simp: rd16.simps take_Cons')

lemma rd32s_take: "4 * n \<le> m \<Longrightarrow> rd32s n (take m bs) = rd32s n bs"
  by (auto simp: rd32s_def drop_take rd32_take)

definition wf_inode :: "inode \<Rightarrow> bool" where
  "wf_inode n \<longleftrightarrow> length (block_no n) = MAX_BLOCKS_InFILE"

definition wf_super_block :: "super_block \<Rightarrow> bool" where
  "wf_super_block sb \<longleftrightarrow> length (dataBlockBit_no sb) = DataBlockBitSize"

definition wf_dir_item :: "dir_item \<Rightarrow> bool" where
  "wf_dir_item e \<longleftrightarrow> length (d_name e) = FILE_NAME_MAX"

interpretation inode_codec: codec inode_bytes inode_of_bytes wf_inode sizeof_inode
  by unfold_locales
     (auto simp: inode_bytes_def inode_of_bytes_def wf_inode_def drop_take
       rd32_take rd16_take rd32s_take)

interpretation sb_codec: codec super_block_bytes super_block_of_bytes wf_super_block sizeof_super_block
  by unfold_locales
     (auto simp: super_block_bytes_def super_block_of_bytes_def wf_super_block_def drop_take
       rd32_take rd32s_take)

interpretation dir_codec: codec dir_item_bytes dir_item_of_bytes wf_dir_item sizeof_dir_item
  by unfold_locales
     (auto simp: dir_item_bytes_def dir_item_of_bytes_def wf_dir_item_def drop_take rd32_take)

section \<open>Blocks\<close>

definition write_block :: "disk \<Rightarrow> u8 list \<Rightarrow> u32 \<Rightarrow> disk" where
  "write_block d block no = k_writesector d (take BLOCK_SIZE block) (no + SUPER_BLOCK_SECTOR)"

text \<open>The sector of a block, as every caller of \<open>k_readsector\<close> in \<open>file.c\<close> computes it.\<close>

definition read_block :: "disk \<Rightarrow> u32 \<Rightarrow> u8 list" where
  "read_block d no = k_readsector d (no + SUPER_BLOCK_SECTOR)"

lemma fold_read_block [simp]:
  "k_readsector d (no + SUPER_BLOCK_SECTOR) = read_block d no"
  "k_readsector d SUPER_BLOCK_SECTOR = read_block d 0"
  "k_readsector d 351 = read_block d 51"
  by (simp_all add: read_block_def)

text \<open>
  \<open>write_superBlock\<close> hands \<open>write_block\<close> the 36-byte structure, of which \<open>write_block\<close>
  copies 512 bytes: \<open>stk\<close> are the bytes that follow it on the kernel stack.
\<close>

definition write_superBlock :: "disk \<Rightarrow> u8 list \<Rightarrow> super_block \<Rightarrow> disk" where
  "write_superBlock d stk sb = write_block d (super_block_bytes sb @ stk) SUPER_BLOCK_NO"

definition read_superBlock :: "disk \<Rightarrow> super_block" where
  "read_superBlock d =
     super_block_of_bytes (take sizeof_super_block (k_readsector d SUPER_BLOCK_SECTOR))"

definition read_inode :: "disk \<Rightarrow> u32 \<Rightarrow> u32 \<Rightarrow> inode option" where
  "read_inode d inode_block_no inode_offset =
     (let arr = k_readsector d (inode_block_no + SUPER_BLOCK_SECTOR) in
      if unat inode_offset + sizeof_inode \<le> BLOCK_SIZE
      then Some (inode_of_bytes (slice arr (unat inode_offset) sizeof_inode)) else None)"

definition writeInode :: "disk \<Rightarrow> inode \<Rightarrow> disk option" where
  "writeInode d iptr =
     (let inode_block = my_inode_block_no iptr;
          arr = k_readsector d (inode_block + SUPER_BLOCK_SECTOR) in
      if unat (my_inode_offset iptr) + sizeof_inode \<le> BLOCK_SIZE
      then Some (write_block d (splice arr (unat (my_inode_offset iptr)) (inode_bytes iptr))
                   (my_inode_block_no iptr))
      else None)"

interpretation blocks: block_device read_block write_block
  "\<lambda>s t. sector_lba (s + SUPER_BLOCK_SECTOR) = sector_lba (t + SUPER_BLOCK_SECTOR)" disk_ok
  by unfold_locales
     (auto simp: write_block_def read_block_def sectors.rd_len sectors.rd_wr sectors.ok_wr
       simp del: fold_read_block)

text \<open>Block numbers of a file system of at most \<open>2^23\<close> blocks name distinct sectors.\<close>

definition small_block :: "u32 \<Rightarrow> bool" where
  "small_block b \<longleftrightarrow> unat b < 2 ^ 23"

lemma small_block_numeral [simp]: "small_block 0" "small_block 1"
  by (simp_all add: small_block_def)

lemma sector_of_block:
  assumes "small_block b"
  shows "sector_lba (b + SUPER_BLOCK_SECTOR) = b + SUPER_BLOCK_SECTOR"
proof -
  have "unat (b + 300) = unat b + 300"
    using assms by (subst unat_add_small) (auto simp: small_block_def)
  then show ?thesis
    using assms by (intro sector_lba_small) (simp add: small_block_def)
qed

lemma same_block_iff [simp]:
  "small_block b \<Longrightarrow> small_block c \<Longrightarrow>
   sector_lba (b + SUPER_BLOCK_SECTOR) = sector_lba (c + SUPER_BLOCK_SECTOR) \<longleftrightarrow> b = c"
  by (simp add: sector_of_block)

lemma length_read_block [simp]: "disk_ok d \<Longrightarrow> length (read_block d b) = BLOCK_SIZE"
  by (rule blocks.rd_len)

lemma disk_ok_write_block [simp]:
  "disk_ok d \<Longrightarrow> length blk = BLOCK_SIZE \<Longrightarrow> disk_ok (write_block d blk b)"
  by (rule blocks.ok_wr)

lemma read_write_block:
  "\<lbrakk> disk_ok d; length blk = BLOCK_SIZE; small_block b; small_block c \<rbrakk> \<Longrightarrow>
   read_block (write_block d blk b) c = (if b = c then blk else read_block d c)"
  by (simp add: blocks.rd_wr)

lemma read_write_block_same [simp]:
  "disk_ok d \<Longrightarrow> length blk = BLOCK_SIZE \<Longrightarrow> read_block (write_block d blk b) b = blk"
  by (simp add: blocks.rd_wr)

subsection \<open>The super block\<close>

lemma wf_read_superBlock [simp]: "disk_ok d \<Longrightarrow> wf_super_block (read_superBlock d)"
  unfolding read_superBlock_def by (rule sb_codec.wf_dec) simp

lemma write_superBlock_eq:
  "wf_super_block sb \<Longrightarrow> 476 \<le> length stk \<Longrightarrow>
   write_superBlock d stk sb = write_block d (super_block_bytes sb @ take 476 stk) 0"
  by (simp add: write_superBlock_def write_block_def sb_codec.enc_len)

lemma disk_ok_write_superBlock [simp]:
  "disk_ok d \<Longrightarrow> wf_super_block sb \<Longrightarrow> 476 \<le> length stk \<Longrightarrow> disk_ok (write_superBlock d stk sb)"
  by (simp add: write_superBlock_eq sb_codec.enc_len)

lemma read_superBlock_block0: "read_superBlock d = super_block_of_bytes (take 36 (read_block d 0))"
  by (simp add: read_superBlock_def)

lemma read_write_superBlock:
  "\<lbrakk> disk_ok d; wf_super_block sb; 476 \<le> length stk \<rbrakk> \<Longrightarrow>
   read_superBlock (write_superBlock d stk sb) = sb"
  unfolding read_superBlock_block0 write_superBlock_eq
  by (subst read_write_block_same) (auto simp: sb_codec.enc_len sb_codec.dec_enc)

lemma read_block_write_superBlock:
  "\<lbrakk> disk_ok d; wf_super_block sb; 476 \<le> length stk; small_block b; b \<noteq> 0 \<rbrakk> \<Longrightarrow>
   read_block (write_superBlock d stk sb) b = read_block d b"
  by (simp add: write_superBlock_eq read_write_block sb_codec.enc_len)

lemma read_superBlock_write_block:
  "\<lbrakk> disk_ok d; length blk = BLOCK_SIZE; small_block b; b \<noteq> 0 \<rbrakk> \<Longrightarrow>
   read_superBlock (write_block d blk b) = read_superBlock d"
  unfolding read_superBlock_block0 by (subst read_write_block) auto

subsection \<open>Inodes\<close>

lemma wf_read_inode: "disk_ok d \<Longrightarrow> read_inode d b off = Some n \<Longrightarrow> wf_inode n"
  by (auto simp: read_inode_def Let_def intro!: inode_codec.wf_dec split: if_splits)

lemma read_inode_block:
  "read_inode d b off =
     (if unat off + sizeof_inode \<le> BLOCK_SIZE
      then Some (inode_of_bytes (slice (read_block d b) (unat off) sizeof_inode)) else None)"
  by (simp add: read_inode_def)

lemma read_inode_cong:
  "read_block d b = read_block d' b \<Longrightarrow> read_inode d b off = read_inode d' b off"
  by (simp add: read_inode_def)

text \<open>\<open>writeInode\<close> patches one slot of the inode's block.\<close>

lemma writeInode_patch:
  "writeInode d n = Some d' \<Longrightarrow>
   d' = blocks.patch d (my_inode_block_no n) (unat (my_inode_offset n)) (inode_bytes n) \<and>
   unat (my_inode_offset n) + sizeof_inode \<le> BLOCK_SIZE"
  by (auto simp: writeInode_def blocks.patch_def Let_def split: if_splits)

lemma writeInode_ok:
  assumes "writeInode d n = Some d'" and "wf_inode n" and "disk_ok d"
  shows "disk_ok d'"
  using writeInode_patch [OF assms(1)] assms(2,3)
  by (simp add: blocks.ok_patch inode_codec.enc_len)

lemma writeInode_read:
  assumes "writeInode d n = Some d'" and "wf_inode n" and "disk_ok d"
  shows "read_inode d' (my_inode_block_no n) (my_inode_offset n) = Some n"
  using writeInode_patch [OF assms(1)] assms(2,3)
    blocks.rd_patch [of d "unat (my_inode_offset n)" "inode_bytes n" "my_inode_block_no n"
      "my_inode_block_no n"]
  by (simp add: read_inode_def inode_codec.enc_len inode_codec.dec_enc)

lemma writeInode_read_other:
  assumes "writeInode d n = Some d'" and "wf_inode n" and "disk_ok d"
    and "small_block b" and "small_block (my_inode_block_no n)"
    and "b \<noteq> my_inode_block_no n \<or>
         unat off + sizeof_inode \<le> unat (my_inode_offset n) \<or>
         unat (my_inode_offset n) + sizeof_inode \<le> unat off"
  shows "read_inode d' b off = read_inode d b off"
proof (cases "b = my_inode_block_no n")
  case True
  with writeInode_patch [OF assms(1)] assms show ?thesis
    by (auto simp: read_inode_def Let_def inode_codec.enc_len blocks.rd_patch_elsewhere)
next
  case False
  with writeInode_patch [OF assms(1)] assms show ?thesis
    by (auto simp: inode_codec.enc_len blocks.rd_patch_other intro!: read_inode_cong)
qed

lemma writeInode_read_block:
  assumes "writeInode d n = Some d'" and "wf_inode n" and "disk_ok d"
    and "small_block b" and "small_block (my_inode_block_no n)" and "b \<noteq> my_inode_block_no n"
  shows "read_block d' b = read_block d b"
  using writeInode_patch [OF assms(1)] assms by (simp add: inode_codec.enc_len blocks.rd_patch_other)

end
