(* ===== verification/FsAlloc.thy ===== *)
theory FsAlloc
  imports FsLayout
begin

text \<open>
  Allocation in \<open>file.c\<close>: the linked list of free inodes that starts in the super block, and
  the bitmap of data blocks; their initialisation is at the end.  The bytes that an
  uninitialised local of the C code holds are parameters (\<open>stk\<close>, \<open>sb0\<close>).
\<close>

section \<open>Inodes\<close>

text \<open>Result code, \<open>*iptr\<close> and the disk after the call; \<open>*iptr\<close> is only written on success.\<close>

definition allocInode :: "disk \<Rightarrow> u8 list \<Rightarrow> inode \<Rightarrow> (int \<times> inode \<times> disk) option" where
  "allocInode d stk iptr =
     (let sb = read_superBlock d;
          b = free_inode_block_no sb;
          off = free_inode_offset sb
      in if b = 0 then Some (-1, iptr, d)
         else do {
           n0 \<leftarrow> read_inode d b off;
           let n = n0\<lparr>my_inode_block_no := b, my_inode_offset := off,
                      block_no := replicate MAX_BLOCKS_InFILE 0\<rparr>;
           let sb' = sb\<lparr>free_inode_offset := next_inode_offset n,
                        free_inode_block_no := next_inode_block_no n\<rparr>;
           Some (0, n, write_superBlock d stk sb')
         })"

text \<open>The list of free inodes: \<open>xs\<close> are the slots on the chain that starts at \<open>(b, off)\<close>.\<close>

primrec inode_chain :: "disk \<Rightarrow> u32 \<times> u32 \<Rightarrow> (u32 \<times> u32) list \<Rightarrow> bool" where
  "inode_chain d p [] \<longleftrightarrow> fst p = 0"
| "inode_chain d p (x # xs) \<longleftrightarrow>
     x = p \<and> fst p \<noteq> 0 \<and> small_block (fst p) \<and>
     (case read_inode d (fst p) (snd p) of
        None \<Rightarrow> False
      | Some n \<Rightarrow> inode_chain d (next_inode_block_no n, next_inode_offset n) xs)"

definition free_inodes :: "disk \<Rightarrow> (u32 \<times> u32) list \<Rightarrow> bool" where
  "free_inodes d xs \<longleftrightarrow>
     inode_chain d (free_inode_block_no (read_superBlock d), free_inode_offset (read_superBlock d)) xs"

lemma inode_chain_cong:
  "inode_chain d p xs \<Longrightarrow> (\<And>b off. (b, off) \<in> set xs \<Longrightarrow> read_inode d' b off = read_inode d b off) \<Longrightarrow>
   inode_chain d' p xs"
  by (induction xs arbitrary: p) (auto split: option.splits)

lemma inode_chain_small:
  "inode_chain d p xs \<Longrightarrow> (b, off) \<in> set xs \<Longrightarrow> small_block b \<and> b \<noteq> 0"
  by (induction xs arbitrary: p) (auto split: option.splits)

lemma free_inodes_cong:
  assumes "free_inodes d xs" and "read_superBlock d' = read_superBlock d"
    and "\<And>b off. (b, off) \<in> set xs \<Longrightarrow> read_inode d' b off = read_inode d b off"
  shows "free_inodes d' xs"
  using assms inode_chain_cong unfolding free_inodes_def by fastforce

lemma allocInode_empty:
  "free_inodes d [] \<Longrightarrow> allocInode d stk iptr = Some (-1, iptr, d)"
  by (simp add: free_inodes_def allocInode_def)

lemma allocInode_pop:
  assumes "free_inodes d ((b, off) # xs)" and "disk_ok d" and "476 \<le> length stk"
  shows "\<exists>n0 d'. read_inode d b off = Some n0 \<and>
    allocInode d stk iptr = Some (0, n0\<lparr>my_inode_block_no := b, my_inode_offset := off,
        block_no := replicate MAX_BLOCKS_InFILE 0\<rparr>, d') \<and>
    free_inodes d' xs \<and> disk_ok d' \<and>
    (\<forall>c. small_block c \<longrightarrow> c \<noteq> 0 \<longrightarrow> read_block d' c = read_block d c) \<and>
    read_superBlock d' = (read_superBlock d)\<lparr>free_inode_offset := next_inode_offset n0,
        free_inode_block_no := next_inode_block_no n0\<rparr>"
proof -
  let ?sb = "read_superBlock d"
  from assms(1) obtain n0 where p: "(b, off) = (free_inode_block_no ?sb, free_inode_offset ?sb)"
    "b \<noteq> 0" "read_inode d b off = Some n0"
    "inode_chain d (next_inode_block_no n0, next_inode_offset n0) xs"
    by (auto simp: free_inodes_def split: option.splits)
  let ?sb' = "?sb\<lparr>free_inode_offset := next_inode_offset n0,
    free_inode_block_no := next_inode_block_no n0\<rparr>"
  let ?d' = "write_superBlock d stk ?sb'"
  have wf: "wf_super_block ?sb'"
    using wf_read_superBlock [OF assms(2)] by (simp add: wf_super_block_def)
  have sb: "read_superBlock ?d' = ?sb'"
    using assms wf by (simp add: read_write_superBlock)
  have blk: "\<forall>c. small_block c \<longrightarrow> c \<noteq> 0 \<longrightarrow> read_block ?d' c = read_block d c"
    using assms wf by (auto simp: read_block_write_superBlock)
  have "inode_chain ?d' (next_inode_block_no n0, next_inode_offset n0) xs"
    using p(4) by (rule inode_chain_cong)
      (use p(4) blk inode_chain_small in \<open>blast intro: read_inode_cong\<close>)
  then have "free_inodes ?d' xs" by (simp add: free_inodes_def sb)
  moreover have "allocInode d stk iptr = Some (0, n0\<lparr>my_inode_block_no := b,
      my_inode_offset := off, block_no := replicate MAX_BLOCKS_InFILE 0\<rparr>, ?d')"
    using p by (simp add: allocInode_def Let_def)
  ultimately show ?thesis
    using p(3) sb blk assms wf by auto
qed

text \<open>The free inodes are a pool; the state is the disk and the stack bytes of the call.\<close>

definition take_inode :: "u8 list \<times> disk \<Rightarrow> ((u32 \<times> u32) \<times> (u8 list \<times> disk)) option" where
  "take_inode s = (case allocInode (snd s) (fst s) (inode_of_bytes (replicate sizeof_inode 0)) of
     Some (r, n, d') \<Rightarrow>
       if r = 0 then Some ((my_inode_block_no n, my_inode_offset n), (fst s, d')) else None
   | None \<Rightarrow> None)"

definition inode_pool_repr :: "u8 list \<times> disk \<Rightarrow> (u32 \<times> u32) list \<Rightarrow> bool" where
  "inode_pool_repr s xs \<longleftrightarrow> 476 \<le> length (fst s) \<and> disk_ok (snd s) \<and> free_inodes (snd s) xs"

interpretation inode_pool: checked_pool take_inode inode_pool_repr
proof unfold_locales
  fix s x xs
  assume "inode_pool_repr s (x # xs)"
  then show "\<exists>s'. take_inode s = Some (x, s') \<and> inode_pool_repr s' xs"
    using allocInode_pop [of "snd s" "fst x" "snd x" xs "fst s"
        "inode_of_bytes (replicate sizeof_inode 0)"]
    by (fastforce simp: inode_pool_repr_def take_inode_def)
next
  fix s
  assume "inode_pool_repr s []"
  then show "take_inode s = None"
    by (simp add: inode_pool_repr_def take_inode_def allocInode_empty)
qed

section \<open>The bitmap of data blocks\<close>

text \<open>The scan for a zero bit of a byte; all bits from 8 on are zero.\<close>

function zero_bit :: "u8 \<Rightarrow> nat \<Rightarrow> nat" where
  "zero_bit free_byte index =
     (if bit free_byte index then zero_bit free_byte (Suc index) else index)"
  by pat_completeness auto
termination
  by (relation "measure (\<lambda>(b, i). 8 - i)") (auto dest: bit_imp_le_length)

declare zero_bit.simps [simp del]

text \<open>\<open>None\<close>: every byte of the block is 255 and the code reads the byte after it.\<close>

definition getFreeBlock :: "u8 list \<Rightarrow> nat \<Rightarrow> u32 option" where
  "getFreeBlock start sz =
     (let i = (case first_index (\<lambda>b. b \<noteq> 255) (take sz start) of Some i \<Rightarrow> i | None \<Rightarrow> sz)
      in if i < length start
         then Some (of_nat (i * 8 + zero_bit (start ! i) 0)) else None)"

definition update_dataBlockBit :: "disk \<Rightarrow> u32 \<Rightarrow> int \<Rightarrow> int \<times> disk" where
  "update_dataBlockBit d no status =
     (if FILE_SYS_BLOCKS < no \<or> (status \<noteq> BLOCK_BUSY \<and> status \<noteq> BLOCK_FREE) then (-1, d)
      else
        let bitBlockNo = of_nat (unat no div (BLOCK_SIZE * 8) + INODE_BLOCK_SIZE + 1);
            arr = k_readsector d (bitBlockNo + SUPER_BLOCK_SECTOR);
            byte = (unat no mod (BLOCK_SIZE * 8)) div 8;
            b = (unat no mod (BLOCK_SIZE * 8)) mod 8;
            new = (if bit (arr ! byte) b then arr ! byte AND push_bit b (of_int status)
                   else arr ! byte OR push_bit b (of_int status))
        in (0, write_block d (arr[byte := new]) bitBlockNo))"

definition clearBlock :: "disk \<Rightarrow> u32 \<Rightarrow> disk" where
  "clearBlock d no = write_block d (replicate 512 0) no"

text \<open>The loop over the bitmap blocks: \<open>i\<close> is the index of the next one.\<close>

fun find_free_block :: "disk \<Rightarrow> u32 list \<Rightarrow> nat \<Rightarrow> u32 \<Rightarrow> u32 option" where
  "find_free_block d [] i free_block = Some free_block"
| "find_free_block d (no # nos) i free_block = do {
     free \<leftarrow> getFreeBlock (k_readsector d (no + SUPER_BLOCK_SECTOR)) 512;
     if free \<noteq> -1 then Some (of_nat (i * 512 * 8) + free)
     else find_free_block d nos (Suc i) free
   }"

definition allocBlock :: "disk \<Rightarrow> inode \<Rightarrow> (int \<times> inode \<times> disk) option" where
  "allocBlock d iptr =
     (case first_index (\<lambda>b. b = 0) (block_no iptr) of
        None \<Rightarrow> Some (-1, iptr, d)
      | Some j \<Rightarrow> do {
          free_block \<leftarrow> find_free_block d (dataBlockBit_no (read_superBlock d)) 0 0;
          if free_block = -1 then Some (-1, iptr, d)
          else
            let iptr' = iptr\<lparr>block_no := (block_no iptr)[j := free_block]\<rparr>;
                d1 = clearBlock d free_block;
                (_, d2) = update_dataBlockBit d1 free_block BLOCK_BUSY
            in Some (0, iptr', d2)
        })"

subsection \<open>Which blocks are busy\<close>

text \<open>Bit \<open>k\<close> of a bitmap block, and the block numbers marked busy in the first one.\<close>

definition bitmap_bit :: "u8 list \<Rightarrow> nat \<Rightarrow> bool" where
  "bitmap_bit bs k \<longleftrightarrow> bit (bs ! (k div 8)) (k mod 8)"

abbreviation first_bitmap :: u32 where "first_bitmap \<equiv> 51"

definition busy_blocks :: "disk \<Rightarrow> nat set" where
  "busy_blocks d = {k. k < 4096 \<and> bitmap_bit (read_block d first_bitmap) k}"

lemma zero_bit_least:
  "i \<le> zero_bit b i \<and> \<not> bit b (zero_bit b i) \<and> (\<forall>j. i \<le> j \<longrightarrow> j < zero_bit b i \<longrightarrow> bit b j)"
proof (induction b i rule: zero_bit.induct)
  case (1 b i)
  show ?case
  proof (cases "bit b i")
    case True
    with 1 have IH: "Suc i \<le> zero_bit b (Suc i)" "\<not> bit b (zero_bit b (Suc i))"
      "\<And>j. Suc i \<le> j \<Longrightarrow> j < zero_bit b (Suc i) \<Longrightarrow> bit b j" by auto
    have "bit b j" if "i \<le> j" "j < zero_bit b (Suc i)" for j
      using that IH(3) [of j] True by (cases "j = i") auto
    with IH True show ?thesis by (simp add: zero_bit.simps [of b i])
  next
    case False
    then show ?thesis by (simp add: zero_bit.simps [of b i])
  qed
qed

lemma u8_full: "(b :: u8) = 255 \<longleftrightarrow> (\<forall>j < 8. bit b j)"
proof
  assume "\<forall>j < 8. bit b j"
  then have "b = - 1" by (intro bit_word_eqI) (auto simp: bit_simps)
  then show "b = 255" by simp
next
  assume "b = 255"
  then have "b = - 1" by simp
  then show "\<forall>j < 8. bit b j" by (auto simp: bit_simps simp del: bit_numeral_word_iff)
qed

lemma zero_bit_less_8: "b \<noteq> 255 \<Longrightarrow> zero_bit b 0 < 8"
  using zero_bit_least [of 0 b] by (auto simp: u8_full) (meson leI le_less_trans less_or_eq_imp_le)

lemma getFreeBlock_least:
  assumes "length bs = 512" and "k < 4096" and "\<not> bitmap_bit bs k"
    and "\<And>j. j < k \<Longrightarrow> bitmap_bit bs j"
  shows "getFreeBlock bs 512 = Some (of_nat k)"
proof -
  let ?i = "k div 8"
  have i: "?i < 512" using assms(2) by simp
  have busy: "bs ! j = 255" if "j < ?i" for j
  proof -
    have "bit (bs ! j) m" if "m < 8" for m
    proof -
      have "j * 8 + m < k" using \<open>j < ?i\<close> \<open>m < 8\<close> by linarith
      from assms(4) [OF this] \<open>m < 8\<close> show ?thesis by (simp add: bitmap_bit_def)
    qed
    then show ?thesis by (simp add: u8_full)
  qed
  have free: "bs ! ?i \<noteq> 255"
    using assms(3) u8_full [of "bs ! ?i"] mod_less_divisor [of 8 k] by (auto simp: bitmap_bit_def)
  have "first_index (\<lambda>b. b \<noteq> 255) (take 512 bs) = Some ?i"
    using i busy free assms(1) by (intro first_index_eqI) auto
  moreover have "zero_bit (bs ! ?i) 0 = k mod 8"
  proof (rule ccontr)
    let ?z = "zero_bit (bs ! ?i) 0"
    assume neq: "?z \<noteq> k mod 8"
    from zero_bit_less_8 [OF free] have z: "?z < 8" .
    show False
    proof (cases "?z < k mod 8")
      case True
      then have "8 * ?i + ?z < k" by (metis add_less_cancel_left mult_div_mod_eq)
      from assms(4) [OF this] z have "bit (bs ! ?i) ?z" by (simp add: bitmap_bit_def)
      with zero_bit_least [of 0 "bs ! ?i"] show False by simp
    next
      case False
      with neq have "k mod 8 < ?z" by simp
      with zero_bit_least [of 0 "bs ! ?i"] have "bit (bs ! ?i) (k mod 8)" by simp
      with assms(3) show False by (simp add: bitmap_bit_def)
    qed
  qed
  ultimately show ?thesis
    using i assms(1) by (simp add: getFreeBlock_def)
qed

lemma getFreeBlock_full:
  assumes "length bs = 512" and "\<And>j. j < 4096 \<Longrightarrow> bitmap_bit bs j"
  shows "getFreeBlock bs 512 = None"
proof -
  have "bs ! i = 255" if "i < 512" for i
  proof -
    have "bit (bs ! i) m" if "m < 8" for m
      using assms(2) [of "i * 8 + m"] \<open>i < 512\<close> that by (simp add: bitmap_bit_def)
    then show ?thesis by (simp add: u8_full)
  qed
  then have "first_index (\<lambda>b. b \<noteq> 255) (take 512 bs) = None"
    using assms(1) by (auto simp: first_index_None in_set_conv_nth)
  then show ?thesis using assms(1) by (simp add: getFreeBlock_def)
qed

lemma bit_pow8: "bit ((2 :: u8) ^ b) m \<longleftrightarrow> m = b \<and> b < 8"
  by (auto simp: bit_exp_iff)

text \<open>Marking a free block busy sets its bit and no other.\<close>

lemma update_dataBlockBit_busy:
  assumes "disk_ok d" and "k \<le> 700" and "k \<notin> busy_blocks d"
  shows "\<exists>d'. update_dataBlockBit d (of_nat k) BLOCK_BUSY = (0, d') \<and> disk_ok d' \<and>
    busy_blocks d' = insert k (busy_blocks d) \<and>
    (\<forall>c. small_block c \<longrightarrow> c \<noteq> first_bitmap \<longrightarrow> read_block d' c = read_block d c)"
proof -
  have k: "unat (of_nat k :: u32) = k" "k div 4096 = 0" "k mod 4096 = k"
    using assms(2) by (simp_all add: unat_of_nat take_bit_nat_eq_self)
  have le: "\<not> FILE_SYS_BLOCKS < (of_nat k :: u32)"
    using assms(2) k by (simp add: word_less_nat_alt)
  let ?arr = "read_block d first_bitmap"
  let ?new = "?arr ! (k div 8) OR push_bit (k mod 8) (of_int BLOCK_BUSY)"
  let ?d' = "write_block d (?arr[k div 8 := ?new]) first_bitmap"
  from assms have free: "\<not> bit (?arr ! (k div 8)) (k mod 8)"
    by (auto simp: busy_blocks_def bitmap_bit_def)
  have len: "length ?arr = 512" using assms(1) by simp
  have upd: "update_dataBlockBit d (of_nat k) BLOCK_BUSY = (0, ?d')"
    using le k free by (simp add: update_dataBlockBit_def Let_def)
  have rd: "read_block ?d' first_bitmap = ?arr[k div 8 := ?new]"
    using assms(1) by simp
  have "bitmap_bit (?arr[k div 8 := ?new]) j \<longleftrightarrow> j = k \<or> bitmap_bit ?arr j" if "j < 4096" for j
  proof (cases "j div 8 = k div 8")
    case True
    then have "j = k \<longleftrightarrow> j mod 8 = k mod 8" by (metis mult_div_mod_eq)
    with True that len show ?thesis
      by (auto simp: bitmap_bit_def bit_or_iff bit_pow8)
  next
    case False
    then show ?thesis by (auto simp: bitmap_bit_def)
  qed
  then have "busy_blocks ?d' = insert k (busy_blocks d)"
    using assms(2) rd by (auto simp: busy_blocks_def)
  moreover have "disk_ok ?d'" using assms(1) by simp
  moreover have "\<forall>c. small_block c \<longrightarrow> c \<noteq> first_bitmap \<longrightarrow> read_block ?d' c = read_block d c"
    using assms(1) by (auto simp: read_write_block small_block_def)
  ultimately show ?thesis using upd by blast
qed

subsection \<open>Allocating a block\<close>

text \<open>
  The state that \<open>init_file\<close> sets up and that allocation relies on: the first bitmap block is
  where the super block says, and the blocks of the file system's own structures are busy.
\<close>

definition bitmap_ok :: "disk \<Rightarrow> bool" where
  "bitmap_ok d \<longleftrightarrow> disk_ok d \<and>
     (case dataBlockBit_no (read_superBlock d) of [] \<Rightarrow> False | b # _ \<Rightarrow> b = first_bitmap) \<and>
     (\<forall>k < 56. k \<in> busy_blocks d)"

text \<open>\<open>k\<close> is the lowest block that is not busy.\<close>

definition lowest_free :: "disk \<Rightarrow> nat \<Rightarrow> bool" where
  "lowest_free d k \<longleftrightarrow> k < 4096 \<and> k \<notin> busy_blocks d \<and> (\<forall>j < k. j \<in> busy_blocks d)"

lemma read_superBlock_cong:
  "read_block d' 0 = read_block d 0 \<Longrightarrow> read_superBlock d' = read_superBlock d"
  by (simp add: read_superBlock_block0)

lemma busy_blocks_cong:
  "read_block d' first_bitmap = read_block d first_bitmap \<Longrightarrow> busy_blocks d' = busy_blocks d"
  by (simp add: busy_blocks_def)

lemma unat_block [simp]: "k < 4096 \<Longrightarrow> unat (of_nat k :: u32) = k"
  by (simp add: unat_of_nat take_bit_nat_eq_self)

lemma small_of_nat [simp]: "k < 4096 \<Longrightarrow> small_block (of_nat k)"
  by (simp add: small_block_def)

lemma of_nat_block_neq: "k < 4096 \<Longrightarrow> unat c \<noteq> k \<Longrightarrow> (of_nat k :: u32) \<noteq> c"
  by auto

lemma find_free_block_lowest:
  assumes "bitmap_ok d" and "lowest_free d k"
  shows "find_free_block d (dataBlockBit_no (read_superBlock d)) 0 0 = Some (of_nat k)"
proof -
  from assms(1) obtain nos where nos: "dataBlockBit_no (read_superBlock d) = first_bitmap # nos"
    by (auto simp: bitmap_ok_def split: list.splits)
  have "getFreeBlock (read_block d first_bitmap) 512 = Some (of_nat k)"
    using assms by (intro getFreeBlock_least)
      (auto simp: bitmap_ok_def lowest_free_def busy_blocks_def)
  moreover have "(of_nat k :: u32) \<noteq> -1"
    using assms(2) by (intro of_nat_block_neq)
      (auto simp: lowest_free_def unsigned_minus_1_eq_mask mask_eq_exp_minus_1)
  ultimately show ?thesis by (simp add: nos)
qed

lemma lowest_free_ge:
  assumes "bitmap_ok d" and "lowest_free d k"
  shows "56 \<le> k" and "of_nat k \<noteq> (0 :: u32)" and "of_nat k \<noteq> first_bitmap"
proof -
  show k: "56 \<le> k"
    using assms by (auto simp: bitmap_ok_def lowest_free_def) (meson leI)
  from assms(2) have "k < 4096" by (simp add: lowest_free_def)
  with k of_nat_block_neq [of k 0] of_nat_block_neq [of k first_bitmap]
  show "of_nat k \<noteq> (0 :: u32)" "of_nat k \<noteq> first_bitmap" by auto
qed

lemma clearBlock_frame:
  assumes "bitmap_ok d" and "lowest_free d k"
  shows "disk_ok (clearBlock d (of_nat k))"
    and "read_block (clearBlock d (of_nat k)) (of_nat k) = replicate 512 0"
    and "small_block c \<Longrightarrow> c \<noteq> of_nat k \<Longrightarrow> read_block (clearBlock d (of_nat k)) c = read_block d c"
    and "busy_blocks (clearBlock d (of_nat k)) = busy_blocks d"
    and "read_superBlock (clearBlock d (of_nat k)) = read_superBlock d"
proof -
  from assms have d: "disk_ok d" and k: "k < 4096" by (simp_all add: bitmap_ok_def lowest_free_def)
  show "disk_ok (clearBlock d (of_nat k))"
    "read_block (clearBlock d (of_nat k)) (of_nat k) = replicate 512 0"
    using d by (simp_all add: clearBlock_def)
  show other: "read_block (clearBlock d (of_nat k)) c = read_block d c"
    if "small_block c" "c \<noteq> of_nat k" for c
    using d k that by (auto simp: clearBlock_def read_write_block)
  show "busy_blocks (clearBlock d (of_nat k)) = busy_blocks d"
    using lowest_free_ge [OF assms] by (intro busy_blocks_cong other) (auto simp: small_block_def)
  show "read_superBlock (clearBlock d (of_nat k)) = read_superBlock d"
    using lowest_free_ge [OF assms] by (intro read_superBlock_cong other) auto
qed

lemma allocBlock_take:
  assumes "bitmap_ok d" and "lowest_free d k" and "k \<le> 700"
    and "first_index (\<lambda>b. b = 0) (block_no iptr) = Some j"
  shows "\<exists>d'. allocBlock d iptr
      = Some (0, iptr\<lparr>block_no := (block_no iptr)[j := of_nat k]\<rparr>, d') \<and>
    bitmap_ok d' \<and> busy_blocks d' = insert k (busy_blocks d) \<and>
    read_block d' (of_nat k) = replicate 512 0 \<and>
    read_superBlock d' = read_superBlock d \<and>
    (\<forall>c. small_block c \<longrightarrow> c \<noteq> of_nat k \<longrightarrow> c \<noteq> first_bitmap \<longrightarrow> read_block d' c = read_block d c)"
proof -
  let ?d1 = "clearBlock d (of_nat k)"
  note frame = clearBlock_frame [OF assms(1,2)]
  note ge = lowest_free_ge [OF assms(1,2)]
  from assms(2) have k: "k < 4096" "k \<notin> busy_blocks ?d1" by (simp_all add: lowest_free_def frame)
  obtain d2 where upd: "update_dataBlockBit ?d1 (of_nat k) BLOCK_BUSY = (0, d2)" "disk_ok d2"
    "busy_blocks d2 = insert k (busy_blocks d)"
    "\<And>c. small_block c \<Longrightarrow> c \<noteq> first_bitmap \<Longrightarrow> read_block d2 c = read_block ?d1 c"
    using update_dataBlockBit_busy [OF frame(1) assms(3) k(2)] unfolding frame(4) by blast
  have sb: "read_superBlock d2 = read_superBlock d"
    using read_superBlock_cong [of d2 ?d1] upd(4) [of 0] frame(5) by simp
  have "of_nat k \<noteq> (-1 :: u32)"
    using k by (intro of_nat_block_neq) (auto simp: unsigned_minus_1_eq_mask mask_eq_exp_minus_1)
  then have "allocBlock d iptr = Some (0, iptr\<lparr>block_no := (block_no iptr)[j := of_nat k]\<rparr>, d2)"
    using assms(4) upd(1) by (simp add: allocBlock_def find_free_block_lowest [OF assms(1,2)])
  moreover have "bitmap_ok d2"
    using assms(1) upd(2,3) sb by (simp add: bitmap_ok_def)
  ultimately show ?thesis
    using upd k ge frame sb by auto
qed

lemma allocBlock_beyond:
  assumes "bitmap_ok d" and "lowest_free d k" and "700 < k"
    and "first_index (\<lambda>b. b = 0) (block_no iptr) = Some j"
  shows "allocBlock d iptr = Some (0, iptr\<lparr>block_no := (block_no iptr)[j := of_nat k]\<rparr>,
      clearBlock d (of_nat k))"
proof -
  from assms(2) have k: "k < 4096" by (simp add: lowest_free_def)
  then have "of_nat k \<noteq> (-1 :: u32)"
    by (intro of_nat_block_neq) (auto simp: unsigned_minus_1_eq_mask mask_eq_exp_minus_1)
  moreover from k assms(3) have "FILE_SYS_BLOCKS < (of_nat k :: u32)"
    by (simp add: word_less_nat_alt)
  ultimately show ?thesis
    using assms(4)
    by (simp add: allocBlock_def find_free_block_lowest [OF assms(1,2)] update_dataBlockBit_def)
qed

text \<open>A disk with five bitmap blocks of which the first marks the first \<open>8 * n\<close> blocks busy.\<close>

definition sample_disk :: "nat \<Rightarrow> disk" where
  "sample_disk n = (\<lambda>s.
     if s = 300 then super_block_bytes \<lparr>free_inode_block_no = 0, free_inode_offset = 0,
       rootdir_inode_block_no = 1, rootdir_inode_offset = 0, dataBlockBit_no = [51, 52, 53, 54, 55]\<rparr>
       @ replicate 476 0
     else if s = 351 then replicate n 255 @ replicate (512 - n) 0
     else replicate 512 0)"

lemma sample_disk_block:
  "small_block b \<Longrightarrow> read_block (sample_disk n) b = sample_disk n (b + SUPER_BLOCK_SECTOR)"
  by (simp add: read_block_def k_readsector_def sector_of_block del: fold_read_block)

lemma sample_disk_ok: "n \<le> 512 \<Longrightarrow> disk_ok (sample_disk n)"
  by (simp add: disk_ok_def sample_disk_def sb_codec.enc_len wf_super_block_def)

lemma sample_disk_sb: "read_superBlock (sample_disk n) = \<lparr>free_inode_block_no = 0, free_inode_offset = 0,
    rootdir_inode_block_no = 1, rootdir_inode_offset = 0, dataBlockBit_no = [51, 52, 53, 54, 55]\<rparr>"
  by (simp add: read_superBlock_block0 sample_disk_block)
     (simp add: sample_disk_def sb_codec.enc_len sb_codec.dec_enc wf_super_block_def)

lemma sample_disk_busy:
  assumes "n \<le> 512"
  shows "busy_blocks (sample_disk n) = {..<8 * n}"
proof -
  have "bitmap_bit (sample_disk n 351) k \<longleftrightarrow> k < 8 * n" if "k < 4096" for k
  proof -
    have k: "k div 8 < 512" "k div 8 < n \<longleftrightarrow> k < 8 * n" using that by auto
    have "bit (255 :: u8) (k mod 8)" using u8_full [of 255] by simp
    with k assms show ?thesis by (auto simp: bitmap_bit_def sample_disk_def nth_append)
  qed
  then show ?thesis
    using sample_disk_block [of first_bitmap n] assms by (auto simp: busy_blocks_def small_block_def)
qed

lemma sample_disk_bitmap:
  "7 \<le> n \<Longrightarrow> n < 512 \<Longrightarrow> bitmap_ok (sample_disk n)"
  "n < 512 \<Longrightarrow> lowest_free (sample_disk n) (8 * n)"
  by (simp_all add: bitmap_ok_def lowest_free_def sample_disk_ok sample_disk_busy sample_disk_sb)

text \<open>
  C10: on a disk whose lowest free block \<open>k\<close> is one of the file system's (at most 700),
  \<open>allocBlock\<close> puts \<open>k\<close> into the first unused entry of the inode's block table, zeroes the
  block, marks it and no other block busy, and changes nothing else on the disk; an inode whose
  table is full is refused with \<open>-1\<close> and nothing changes.
\<close>

theorem allocBlock_correct:
  assumes "bitmap_ok d" and "lowest_free d k" and "k \<le> 700"
  shows "case first_index (\<lambda>b. b = 0) (block_no iptr) of
      None \<Rightarrow> allocBlock d iptr = Some (-1, iptr, d)
    | Some j \<Rightarrow> \<exists>d'. allocBlock d iptr = Some (0, iptr\<lparr>block_no := (block_no iptr)[j := of_nat k]\<rparr>, d') \<and>
        bitmap_ok d' \<and> busy_blocks d' = insert k (busy_blocks d) \<and>
        read_block d' (of_nat k) = replicate 512 0 \<and> read_superBlock d' = read_superBlock d \<and>
        (\<forall>c. small_block c \<longrightarrow> c \<noteq> of_nat k \<longrightarrow> c \<noteq> first_bitmap \<longrightarrow> read_block d' c = read_block d c)"
  using allocBlock_take [OF assms] by (auto simp: allocBlock_def split: option.split)

theorem allocBlock_correct_witness:
  "\<exists>d'. allocBlock (sample_disk 7) ((inode_of_bytes [])\<lparr>block_no := 7 # 0 # replicate 18 0\<rparr>)
      = Some (0, (inode_of_bytes [])\<lparr>block_no := 7 # 56 # replicate 18 0\<rparr>, d') \<and>
    busy_blocks d' = insert 56 {..<56}"
  using allocBlock_correct [OF sample_disk_bitmap, of 7 "(inode_of_bytes [])\<lparr>block_no := 7 # 0 # replicate 18 0\<rparr>"]
  by (auto simp: sample_disk_busy)

text \<open>
  beyond block 700 the bitmap is never updated (\<open>update_dataBlockBit\<close> refuses and
  \<open>allocBlock\<close> ignores its result), so two allocations in a row hand out the same block, and
  the second erases what the first wrote there.
\<close>

theorem allocBlock_twice_beyond_700:
  assumes "bitmap_ok d" and "lowest_free d k" and "700 < k"
    and "first_index (\<lambda>b. b = 0) (block_no n) = Some i"
    and "first_index (\<lambda>b. b = 0) (block_no m) = Some j"
    and "length blk = BLOCK_SIZE"
  shows "\<exists>d1 d2. allocBlock d n = Some (0, n\<lparr>block_no := (block_no n)[i := of_nat k]\<rparr>, d1) \<and>
    allocBlock (write_block d1 blk (of_nat k)) m
      = Some (0, m\<lparr>block_no := (block_no m)[j := of_nat k]\<rparr>, d2) \<and>
    read_block d2 (of_nat k) = replicate 512 0"
proof -
  let ?d1 = "clearBlock d (of_nat k)"
  let ?d = "write_block ?d1 blk (of_nat k)"
  note frame = clearBlock_frame [OF assms(1,2)]
  note ge = lowest_free_ge [OF assms(1,2)]
  have k: "small_block (of_nat k)" using assms(2) by (simp add: lowest_free_def)
  have other: "read_block ?d c = read_block ?d1 c" if "small_block c" "c \<noteq> of_nat k" for c
    using that frame(1) assms(6) k by (auto simp: read_write_block)
  have "read_superBlock ?d = read_superBlock d"
    using frame(5) other [of 0] ge by (subst read_superBlock_cong [of ?d ?d1]) auto
  moreover have busy: "busy_blocks ?d = busy_blocks d"
    using frame(4) other [of first_bitmap] ge
    by (subst busy_blocks_cong [of ?d ?d1]) (auto simp: small_block_def)
  ultimately have ok: "bitmap_ok ?d" and low: "lowest_free ?d k"
    using assms(1,2,6) frame(1) by (simp_all add: bitmap_ok_def lowest_free_def)
  show ?thesis
    using allocBlock_beyond [OF assms(1-4)] allocBlock_beyond [OF ok low assms(3,5)]
      clearBlock_frame(2) [OF ok low]
    by simp
qed

theorem allocBlock_twice_witness:
  "\<exists>d1 d2. allocBlock (sample_disk 100) ((inode_of_bytes [])\<lparr>block_no := 0 # replicate 19 0\<rparr>)
      = Some (0, (inode_of_bytes [])\<lparr>block_no := 800 # replicate 19 0\<rparr>, d1) \<and>
    allocBlock (write_block d1 (replicate 512 1) 800) ((inode_of_bytes [])\<lparr>block_no := 7 # 0 # replicate 18 0\<rparr>)
      = Some (0, (inode_of_bytes [])\<lparr>block_no := 7 # 800 # replicate 18 0\<rparr>, d2) \<and>
    read_block d2 800 = replicate 512 0"
  using allocBlock_twice_beyond_700 [OF sample_disk_bitmap, of 100
      "(inode_of_bytes [])\<lparr>block_no := 0 # replicate 19 0\<rparr>" 0
      "(inode_of_bytes [])\<lparr>block_no := 7 # 0 # replicate 18 0\<rparr>" 1 "replicate 512 1"]
  by simp

subsection \<open>The blocks as a pool\<close>

definition take_block :: "disk \<Rightarrow> (nat \<times> disk) option" where
  "take_block d = (case allocBlock d ((inode_of_bytes [])\<lparr>block_no := replicate MAX_BLOCKS_InFILE 0\<rparr>) of
     Some (r, n, d') \<Rightarrow> if r = 0 then Some (unat (block_no n ! 0), d') else None
   | None \<Rightarrow> None)"

definition block_pool_repr :: "disk \<Rightarrow> nat list \<Rightarrow> bool" where
  "block_pool_repr d xs \<longleftrightarrow> bitmap_ok d \<and> xs = filter (\<lambda>k. k \<notin> busy_blocks d) [0..<701]"

lemma filter_upt_head:
  assumes "filter P [m..<n] = x # xs"
  shows "m \<le> x \<and> x < n \<and> P x \<and> (\<forall>j. m \<le> j \<longrightarrow> j < x \<longrightarrow> \<not> P j) \<and>
    filter (\<lambda>k. k \<noteq> x \<and> P k) [m..<n] = xs"
proof -
  from assms obtain us vs where s: "[m..<n] = us @ x # vs" "\<forall>u \<in> set us. \<not> P u" "P x" "xs = filter P vs"
    by (auto simp: filter_eq_Cons_iff)
  have len: "length us < n - m" using arg_cong [OF s(1), of length] by simp
  have "[m..<n] ! length us = x" using s(1) by (simp add: nth_append)
  with len have x: "x = m + length us" "length us < n - m" by simp_all
  have "\<not> P j" if "m \<le> j" "j < x" for j
  proof -
    have j: "j - m < length us" using that x(1) by simp
    have "[m..<n] ! (j - m) = j" using that x by simp
    with j have "us ! (j - m) = j" unfolding s(1) by (simp add: nth_append)
    moreover note j
    ultimately show ?thesis using s(2) by (metis nth_mem)
  qed
  moreover have "distinct (us @ x # vs)" using s(1) by (metis distinct_upt)
  then have "filter (\<lambda>k. k \<noteq> x \<and> P k) (us @ x # vs) = xs"
    using s(2-4) by (auto simp: filter_empty_conv intro!: filter_cong)
  ultimately show ?thesis using s(1,3) x by auto
qed

interpretation block_pool: free_pool take_block block_pool_repr
proof
  fix d x xs
  assume r: "block_pool_repr d (x # xs)"
  then have bm: "bitmap_ok d" and f: "filter (\<lambda>k. k \<notin> busy_blocks d) [0..<701] = x # xs"
    by (simp_all add: block_pool_repr_def)
  note h = filter_upt_head [OF f]
  have low: "lowest_free d x" using h by (auto simp: lowest_free_def)
  have x: "unat (of_nat x :: u32) = x" using h by (intro unat_block) simp
  show "\<exists>s'. take_block d = Some (x, s') \<and> block_pool_repr s' xs"
    using allocBlock_take [OF bm low, of "(inode_of_bytes [])\<lparr>block_no := replicate MAX_BLOCKS_InFILE 0\<rparr>" 0] h x
    by (auto simp: take_block_def block_pool_repr_def first_index_eqI)
qed

text \<open>
  C13: as long as free blocks up to number 700 are left, successive allocations hand out
  pairwise distinct blocks that were free before, lowest first, and exactly those become busy.
\<close>

theorem allocBlock_distinct:
  assumes "bitmap_ok d" and "n \<le> card ({..700} - busy_blocks d)"
  shows "\<exists>bs d'. block_pool.alloc_many n d = Some (bs, d') \<and> length bs = n \<and> distinct bs \<and>
    set bs \<inter> busy_blocks d = {} \<and> set bs \<subseteq> {..700} \<and> sorted bs \<and>
    busy_blocks d' \<inter> {..700} = (busy_blocks d \<union> set bs) \<inter> {..700}"
proof -
  let ?xs = "filter (\<lambda>k. k \<notin> busy_blocks d) [0..<701]"
  have set: "set ?xs = {..700} - busy_blocks d" by auto
  then have len: "length ?xs = card ({..700} - busy_blocks d)"
    using distinct_card [of ?xs] by simp
  have "block_pool_repr d ?xs" using assms(1) by (simp add: block_pool_repr_def)
  from block_pool.alloc_many_take [OF this, of n] assms(2) len obtain d' where
    d': "block_pool.alloc_many n d = Some (take n ?xs, d')" "block_pool_repr d' (drop n ?xs)" by auto
  have "set (drop n ?xs) = {..700} - busy_blocks d'"
    using d'(2) by (auto simp: block_pool_repr_def)
  moreover have "set (take n ?xs) \<union> set (drop n ?xs) = {..700} - busy_blocks d"
    using set by (metis append_take_drop_id set_append)
  moreover have "set (take n ?xs) \<inter> set (drop n ?xs) = {}"
    by (rule set_take_disj_set_drop_if_distinct) simp_all
  ultimately have "busy_blocks d' \<inter> {..700} = (busy_blocks d \<union> set (take n ?xs)) \<inter> {..700}"
    by blast
  moreover have "set (take n ?xs) \<subseteq> {..700} - busy_blocks d" using set set_take_subset by metis
  ultimately show ?thesis
    using d'(1) assms(2) len sorted_wrt_take [OF sorted_wrt_filter [OF sorted_upt]]
    by (intro exI conjI) auto
qed

theorem allocBlock_distinct_witness:
  "\<exists>bs d'. block_pool.alloc_many 3 (sample_disk 87) = Some (bs, d') \<and> length bs = 3 \<and> distinct bs \<and>
    set bs \<subseteq> {696..700}"
proof -
  have "{..700} - busy_blocks (sample_disk 87) = {696..700::nat}"
    by (auto simp: sample_disk_busy)
  then show ?thesis
    using allocBlock_distinct [of "sample_disk 87" 3] by (auto simp: sample_disk_bitmap)
qed

section \<open>Marking blocks\<close>

lemma bitmap_bit_update:
  assumes "length arr = 512" and "j < 4096" and "st \<in> {BLOCK_BUSY, BLOCK_FREE}" and b: "b = arr ! (k div 8)"
  shows "bitmap_bit (arr[k div 8 := (if bit b (k mod 8) then b AND push_bit (k mod 8) (of_int st)
      else b OR push_bit (k mod 8) (of_int st))]) j \<longleftrightarrow>
    (if j div 8 = k div 8
     then (if bit b (k mod 8) then j = k \<and> st = BLOCK_BUSY else bitmap_bit arr j \<or> j = k \<and> st = BLOCK_BUSY)
     else bitmap_bit arr j)"
proof (cases "j div 8 = k div 8")
  case True
  then have "j = k \<longleftrightarrow> j mod 8 = k mod 8" by (metis mult_div_mod_eq)
  with True assms show ?thesis
    by (auto simp: bitmap_bit_def bit_or_iff bit_and_iff bit_pow8)
next
  case False
  then show ?thesis by (simp add: bitmap_bit_def)
qed

text \<open>
  C15: \<open>update_dataBlockBit\<close> does what it is asked for only when the block is free: then a
  BUSY request marks that block and no other, and a FREE request changes nothing.  For a block
  that is already busy, a FREE request frees all eight blocks of its byte of the bitmap and a
  BUSY request frees the seven others.  Numbers above 700 and other states are refused.
\<close>

theorem update_dataBlockBit_cases:
  assumes "disk_ok d"
  shows "(\<forall>no st. (700 < no \<or> st \<noteq> BLOCK_BUSY \<and> st \<noteq> BLOCK_FREE) \<longrightarrow>
      update_dataBlockBit d no st = (-1, d)) \<and>
    (\<forall>k \<le> 700. \<forall>st \<in> {BLOCK_BUSY, BLOCK_FREE}.
       let old = busy_blocks d; group = {j. j div 8 = k div 8};
           d' = snd (update_dataBlockBit d (of_nat k) st) in
       fst (update_dataBlockBit d (of_nat k) st) = 0 \<and> disk_ok d' \<and>
       busy_blocks d' = (if k \<notin> old then (if st = BLOCK_BUSY then insert k old else old)
                         else (if st = BLOCK_BUSY then (old - group) \<union> {k} else old - group)) \<and>
       (\<forall>c. small_block c \<longrightarrow> c \<noteq> first_bitmap \<longrightarrow> read_block d' c = read_block d c))"
proof (intro conjI allI ballI impI)
  fix no :: u32 and st :: int
  assume "700 < no \<or> st \<noteq> BLOCK_BUSY \<and> st \<noteq> BLOCK_FREE"
  then show "update_dataBlockBit d no st = (-1, d)" by (auto simp: update_dataBlockBit_def)
next
  fix k :: nat and st :: int
  assume k: "k \<le> 700" and st: "st \<in> {BLOCK_BUSY, BLOCK_FREE}"
  let ?arr = "read_block d first_bitmap"
  let ?b = "?arr ! (k div 8)"
  let ?new = "if bit ?b (k mod 8) then ?b AND push_bit (k mod 8) (of_int st)
      else ?b OR push_bit (k mod 8) (of_int st)"
  let ?d' = "write_block d (?arr[k div 8 := ?new]) first_bitmap"
  have num: "unat (of_nat k :: u32) = k" "k div 4096 = 0" "k mod 4096 = k"
    using k by (simp_all add: unat_of_nat take_bit_nat_eq_self)
  have "\<not> FILE_SYS_BLOCKS < (of_nat k :: u32)" using k num by (simp add: word_less_nat_alt)
  then have upd: "update_dataBlockBit d (of_nat k) st = (0, ?d')"
    using num st by (auto simp: update_dataBlockBit_def Let_def)
  have len: "length ?arr = 512" using assms by simp
  have rd: "read_block ?d' first_bitmap = ?arr[k div 8 := ?new]" using assms by simp
  have mem: "k \<in> busy_blocks d \<longleftrightarrow> bit ?b (k mod 8)"
    using k by (simp add: busy_blocks_def bitmap_bit_def)
  note new = bitmap_bit_update [OF len _ st refl, of _ k]
  have "busy_blocks ?d' = {j. j < 4096 \<and> bitmap_bit (?arr[k div 8 := ?new]) j}"
    by (simp only: busy_blocks_def rd)
  also have "\<dots> = (if k \<notin> busy_blocks d then (if st = BLOCK_BUSY then insert k (busy_blocks d) else busy_blocks d)
      else (if st = BLOCK_BUSY then (busy_blocks d - {j. j div 8 = k div 8}) \<union> {k}
            else busy_blocks d - {j. j div 8 = k div 8}))"
    (is "?L = ?R")
  proof (rule set_eqI)
    fix j
    show "j \<in> ?L \<longleftrightarrow> j \<in> ?R"
    proof (cases "j < 4096")
      case True
      then have old: "bitmap_bit ?arr j \<longleftrightarrow> j \<in> busy_blocks d" by (simp add: busy_blocks_def)
      have "j \<in> ?L \<longleftrightarrow> (if j div 8 = k div 8
         then (if k \<in> busy_blocks d then j = k \<and> st = BLOCK_BUSY
               else j \<in> busy_blocks d \<or> j = k \<and> st = BLOCK_BUSY)
         else j \<in> busy_blocks d)"
        unfolding mem_Collect_eq new [OF True] old by (simp only: True mem simp_thms)
      also have "\<dots> \<longleftrightarrow> j \<in> ?R" by auto
      finally show ?thesis .
    next
      case False
      with k have "j \<notin> busy_blocks d" "j \<noteq> k" by (auto simp: busy_blocks_def)
      with False show ?thesis by simp
    qed
  qed
  finally show "let old = busy_blocks d; group = {j. j div 8 = k div 8};
           d' = snd (update_dataBlockBit d (of_nat k) st) in
       fst (update_dataBlockBit d (of_nat k) st) = 0 \<and> disk_ok d' \<and>
       busy_blocks d' = (if k \<notin> old then (if st = BLOCK_BUSY then insert k old else old)
                         else (if st = BLOCK_BUSY then (old - group) \<union> {k} else old - group)) \<and>
       (\<forall>c. small_block c \<longrightarrow> c \<noteq> first_bitmap \<longrightarrow> read_block d' c = read_block d c)"
    unfolding upd using assms by (auto simp: Let_def read_write_block small_block_def)
qed

theorem update_dataBlockBit_cases_witness:
  "busy_blocks (snd (update_dataBlockBit (sample_disk 7) 8 BLOCK_FREE)) = {..<56} - {j. j div 8 = 1} \<and>
   busy_blocks (snd (update_dataBlockBit (sample_disk 7) 8 BLOCK_BUSY)) = {..<56} - {j. j div 8 = 1} \<union> {8}"
  using update_dataBlockBit_cases [OF sample_disk_ok, of 7]
  by (auto simp: sample_disk_busy Let_def dest!: spec [where x = "8::nat"])

end
