(* ===== verification/FsInit.thy ===== *)
theory FsInit
  imports FsAlloc
begin

text \<open>
  Formatting the disk (\<open>file.c\<close>): the super block, the list of free inodes, the bitmap and
  the root directory, in the order of \<open>init_file\<close>.  The theorem at the end says what the
  formatted disk holds; the two user programs that \<open>init_file\<close> then enters in the root
  directory are in \<open>FsDir\<close>.
\<close>

section \<open>The routines\<close>

definition init_superBlock :: "disk \<Rightarrow> u8 list \<Rightarrow> super_block \<Rightarrow> disk" where
  "init_superBlock d stk sb0 =
     write_superBlock d stk
       (sb0\<lparr>free_inode_block_no := 1, free_inode_offset := 0,
            dataBlockBit_no := map (\<lambda>i. of_nat (INODE_BLOCK_SIZE + i + 1)) [0..<DataBlockBitSize]\<rparr>)"

text \<open>Assignments through an inode pointer into the block \<open>arr\<close>.\<close>

definition set_inode_at :: "u8 list \<Rightarrow> nat \<Rightarrow> (inode \<Rightarrow> inode) \<Rightarrow> u8 list" where
  "set_inode_at arr off f =
     splice arr off (inode_bytes (f (inode_of_bytes (slice arr off sizeof_inode))))"

abbreviation inode_count :: nat where "inode_count \<equiv> BLOCK_SIZE div sizeof_inode"

text \<open>The assignments to slot \<open>j\<close> of block \<open>i\<close>.\<close>

definition fill_slot :: "nat \<Rightarrow> nat \<Rightarrow> inode \<Rightarrow> inode" where
  "fill_slot i j iptr =
     (let iptr' = iptr\<lparr>my_inode_block_no := of_nat i,
                       my_inode_offset := of_nat (j * sizeof_inode)\<rparr> in
      if j = inode_count - 1
      then iptr'\<lparr>next_inode_block_no := of_nat (i + 1), next_inode_offset := 0\<rparr>
      else iptr'\<lparr>next_inode_block_no := of_nat i,
                 next_inode_offset := of_nat ((j + 1) * sizeof_inode)\<rparr>)"

text \<open>The inner loop of \<open>init_inodeList\<close>: \<open>n\<close> iterations from \<open>j\<close> on.\<close>

fun inode_loop :: "nat \<Rightarrow> nat \<Rightarrow> nat \<Rightarrow> u8 list \<Rightarrow> u8 list" where
  "inode_loop i j 0 arr = arr"
| "inode_loop i j (Suc n) arr =
     inode_loop i (Suc j) n
       (set_inode_at arr (j * sizeof_inode) (fill_slot i j))"

definition init_inode_block :: "nat \<Rightarrow> u8 list \<Rightarrow> u8 list" where
  "init_inode_block i arr0 =
     (let arr = inode_loop i 0 inode_count arr0 in
      if i = INODE_BLOCK_SIZE
      then set_inode_at arr ((inode_count - 1) * sizeof_inode)
             (\<lambda>iptr. iptr\<lparr>next_inode_offset := 0, next_inode_block_no := 0\<rparr>)
      else arr)"

text \<open>\<open>stk i\<close> are the bytes of the uninitialised array in iteration \<open>i\<close>.\<close>

definition init_inodeList :: "disk \<Rightarrow> (nat \<Rightarrow> u8 list) \<Rightarrow> disk" where
  "init_inodeList d stk =
     foldl (\<lambda>d i. write_block d (init_inode_block i (stk i)) (of_nat i)) d
       [1..<INODE_BLOCK_SIZE + 1]"

text \<open>Setting the first \<open>bit\<close> bits of a byte by additions.\<close>

fun add_bits :: "nat \<Rightarrow> nat \<Rightarrow> u8 \<Rightarrow> u8" where
  "add_bits k 0 b = b"
| "add_bits k (Suc n) b = add_bits (Suc k) n (b + push_bit k 1)"

definition init_dataBlockBit :: "disk \<Rightarrow> disk" where
  "init_dataBlockBit d =
     (let arr = replicate 512 0;
          d1 = foldl (\<lambda>d i. write_block d arr (of_nat (INODE_BLOCK_SIZE + i))) d
                 [1..<DataBlockBitSize + 1];
          busyBlock = 1 + DataBlockBitSize + INODE_BLOCK_SIZE;
          byte = busyBlock div 8;
          arr1 = replicate byte 0xff @ drop byte arr;
          b = busyBlock mod 8;
          arr2 = arr1[byte := add_bits 0 b (arr1 ! byte)]
      in write_block d1 arr2 (of_nat (INODE_BLOCK_SIZE + 1)))"

text \<open>The results of the calls are ignored; \<open>in0\<close> is the uninitialised \<open>rootDirInode\<close>.\<close>

definition create_rootDir :: "disk \<Rightarrow> u8 list \<Rightarrow> u8 list \<Rightarrow> inode \<Rightarrow> disk option" where
  "create_rootDir d stk stk' in0 = do {
     (_, n1, d1) \<leftarrow> allocInode d stk in0;
     (_, n2, d2) \<leftarrow> allocBlock d1 n1;
     let n3 = n2\<lparr>i_mode := DIRECTORY_FILE, i_size := 0\<rparr>;
     d3 \<leftarrow> writeInode d2 n3;
     let sb = read_superBlock d3;
     Some (write_superBlock d3 stk'
       (sb\<lparr>rootdir_inode_offset := my_inode_offset n3,
           rootdir_inode_block_no := my_inode_block_no n3\<rparr>))
   }"

section \<open>The inode blocks\<close>

text \<open>Slot \<open>j\<close> of inode block \<open>i\<close>, as the loop fills it in.\<close>

definition linked :: "nat \<Rightarrow> nat \<Rightarrow> inode \<Rightarrow> bool" where
  "linked i j n \<longleftrightarrow>
     my_inode_block_no n = of_nat i \<and> my_inode_offset n = of_nat (j * sizeof_inode) \<and>
     (if j = 3 then next_inode_block_no n = of_nat (i + 1) \<and> next_inode_offset n = 0
      else next_inode_block_no n = of_nat i \<and> next_inode_offset n = of_nat ((j + 1) * sizeof_inode))"

lemma wf_set_fields:
  "wf_inode n \<Longrightarrow> wf_inode (n\<lparr>my_inode_block_no := a, my_inode_offset := b,
     next_inode_block_no := c, next_inode_offset := e\<rparr>)"
  "wf_inode n \<Longrightarrow> wf_inode (n\<lparr>next_inode_offset := e, next_inode_block_no := c\<rparr>)"
  by (simp_all add: wf_inode_def)

lemma set_inode_at_props:
  assumes "off + sizeof_inode \<le> length arr"
    and "\<And>n. wf_inode n \<Longrightarrow> wf_inode (f n)"
  shows "length (set_inode_at arr off f) = length arr"
    and "inode_of_bytes (slice (set_inode_at arr off f) off sizeof_inode)
      = f (inode_of_bytes (slice arr off sizeof_inode))"
    and "pos + n \<le> length arr \<Longrightarrow> pos + n \<le> off \<or> off + sizeof_inode \<le> pos \<Longrightarrow>
      slice (set_inode_at arr off f) pos n = slice arr pos n"
proof -
  have wf: "wf_inode (f (inode_of_bytes (slice arr off sizeof_inode)))"
    using assms by (intro assms(2) inode_codec.wf_dec) simp
  show "length (set_inode_at arr off f) = length arr"
    using assms(1) wf by (simp add: set_inode_at_def inode_codec.enc_len)
  show "inode_of_bytes (slice (set_inode_at arr off f) off sizeof_inode)
      = f (inode_of_bytes (slice arr off sizeof_inode))"
    using assms(1) wf by (simp add: set_inode_at_def inode_codec.dec_splice)
  show "slice (set_inode_at arr off f) pos n = slice arr pos n"
    if "pos + n \<le> length arr" "pos + n \<le> off \<or> off + sizeof_inode \<le> pos"
    using assms(1) wf that by (simp add: set_inode_at_def inode_codec.dec_splice_other)
qed

abbreviation slot_of :: "u8 list \<Rightarrow> nat \<Rightarrow> inode" where
  "slot_of arr j \<equiv> inode_of_bytes (slice arr (j * sizeof_inode) sizeof_inode)"

lemma inode_loop_linked:
  "j + n = 4 \<Longrightarrow> length arr = 512 \<Longrightarrow>
   length (inode_loop i j n arr) = 512 \<and>
   (\<forall>k < 4. if j \<le> k then linked i k (slot_of (inode_loop i j n arr) k)
            else slot_of (inode_loop i j n arr) k = slot_of arr k)"
proof (induction i j n arr rule: inode_loop.induct)
  case (1 i j arr)
  then show ?case by simp
next
  case (2 i j n arr)
  let ?arr = "set_inode_at arr (j * sizeof_inode) (fill_slot i j)"
  from "2.prems" have off: "j * sizeof_inode + sizeof_inode \<le> length arr" "j < 4" by auto
  have wf: "wf_inode (fill_slot i j m)" if "wf_inode m" for m
    using that by (simp add: wf_inode_def fill_slot_def Let_def)
  note p = set_inode_at_props [where f = "fill_slot i j", OF off(1) wf]
  have len: "length ?arr = 512" using p(1) "2.prems" by simp
  have this_slot: "linked i j (slot_of ?arr j)"
    using p(2) by (simp add: linked_def fill_slot_def Let_def)
  have other: "slot_of ?arr k = slot_of arr k" if "k < 4" "k \<noteq> j" for k
  proof -
    have "k * 116 + 116 \<le> j * 116 \<or> j * 116 + 116 \<le> k * 116"
      using that(2) by (cases "k < j") linarith+
    then show ?thesis using p(3) [where pos = "k * sizeof_inode" and n = sizeof_inode] that "2.prems" by simp
  qed
  from "2.IH" [OF _ len] "2.prems"(1)
  have IH: "length (inode_loop i (Suc j) n ?arr) = 512"
    "\<And>k. k < 4 \<Longrightarrow> if Suc j \<le> k then linked i k (slot_of (inode_loop i (Suc j) n ?arr) k)
            else slot_of (inode_loop i (Suc j) n ?arr) k = slot_of ?arr k"
    by auto
  have "if j \<le> k then linked i k (slot_of (inode_loop i (Suc j) n ?arr) k)
       else slot_of (inode_loop i (Suc j) n ?arr) k = slot_of arr k" if "k < 4" for k
    using IH(2) [OF that] this_slot other [OF that] by (cases "k = j") (auto split: if_splits)
  with IH(1) show ?case by simp
qed

text \<open>The slot that follows slot \<open>j\<close> of block \<open>i\<close> on the list.\<close>

definition slot_next :: "nat \<Rightarrow> nat \<Rightarrow> u32 \<times> u32" where
  "slot_next i j =
     (if i = INODE_BLOCK_SIZE \<and> j = 3 then (0, 0)
      else if j = 3 then (of_nat (i + 1), 0) else (of_nat i, of_nat ((j + 1) * sizeof_inode)))"

lemma init_inode_block_slots:
  assumes "length arr0 = 512"
  shows "length (init_inode_block i arr0) = 512"
    and "j < 4 \<Longrightarrow> my_inode_block_no (slot_of (init_inode_block i arr0) j) = of_nat i \<and>
      my_inode_offset (slot_of (init_inode_block i arr0) j) = of_nat (j * sizeof_inode) \<and>
      (next_inode_block_no (slot_of (init_inode_block i arr0) j),
       next_inode_offset (slot_of (init_inode_block i arr0) j)) = slot_next i j"
proof -
  let ?arr = "inode_loop i 0 4 arr0"
  let ?f = "\<lambda>iptr :: inode. iptr\<lparr>next_inode_offset := 0, next_inode_block_no := 0\<rparr>"
  have loop: "length ?arr = 512" "\<And>k. k < 4 \<Longrightarrow> linked i k (slot_of ?arr k)"
    using inode_loop_linked [of 0 4 arr0 i] assms by auto
  have eq: "init_inode_block i arr0 =
      (if i = INODE_BLOCK_SIZE then set_inode_at ?arr (3 * sizeof_inode) ?f else ?arr)"
    by (simp add: init_inode_block_def)
  have off: "3 * sizeof_inode + sizeof_inode \<le> length ?arr" using loop(1) by simp
  have wf: "wf_inode n \<Longrightarrow> wf_inode (?f n)" for n by (simp add: wf_inode_def)
  note p = set_inode_at_props [where f = ?f, OF off wf]
  show "length (init_inode_block i arr0) = 512"
    using p(1) loop(1) unfolding eq by (cases "i = INODE_BLOCK_SIZE") simp_all
  show "my_inode_block_no (slot_of (init_inode_block i arr0) j) = of_nat i \<and>
      my_inode_offset (slot_of (init_inode_block i arr0) j) = of_nat (j * sizeof_inode) \<and>
      (next_inode_block_no (slot_of (init_inode_block i arr0) j),
       next_inode_offset (slot_of (init_inode_block i arr0) j)) = slot_next i j" if "j < 4"
  proof (cases "j = 3")
    case True
    with p(2) loop(2) [of 3] show ?thesis by (auto simp: eq slot_next_def linked_def)
  next
    case False
    with that have "slot_of (set_inode_at ?arr (3 * sizeof_inode) ?f) j = slot_of ?arr j"
      using p(3) [where pos = "j * sizeof_inode" and n = sizeof_inode] loop(1) by simp
    with False that loop(2) [OF that] show ?thesis
      by (auto simp: eq slot_next_def linked_def)
  qed
qed

lemma foldl_write_blocks:
  assumes "disk_ok d" and "distinct is" and "\<And>i. i \<in> set is \<Longrightarrow> length (f i) = 512 \<and> g i < 4096"
    and "inj_on g (set is)"
  shows "disk_ok (foldl (\<lambda>d i. write_block d (f i) (of_nat (g i))) d is) \<and>
    (\<forall>i \<in> set is. read_block (foldl (\<lambda>d i. write_block d (f i) (of_nat (g i))) d is) (of_nat (g i)) = f i) \<and>
    (\<forall>c. small_block c \<longrightarrow> unat c \<notin> g ` set is \<longrightarrow>
       read_block (foldl (\<lambda>d i. write_block d (f i) (of_nat (g i))) d is) c = read_block d c)"
  using assms
proof (induction "is" rule: rev_induct)
  case Nil
  then show ?case by simp
next
  case (snoc i "is")
  let ?F = "foldl (\<lambda>d i. write_block d (f i) (of_nat (g i))) d is"
  from snoc have IH: "disk_ok ?F" "\<forall>i \<in> set is. read_block ?F (of_nat (g i)) = f i"
    "\<forall>c. small_block c \<longrightarrow> unat c \<notin> g ` set is \<longrightarrow> read_block ?F c = read_block d c"
    by auto
  from snoc.prems have i: "length (f i) = 512" "g i < 4096" by auto
  have new: "read_block (write_block ?F (f i) (of_nat (g i))) c
      = (if of_nat (g i) = c then f i else read_block ?F c)" if "small_block c" for c
    using IH(1) i that by (intro read_write_block) auto
  have "read_block (write_block ?F (f i) (of_nat (g i))) (of_nat (g k)) = f k"
    if "k \<in> set (is @ [i])" for k
  proof (cases "k = i")
    case True
    with new [of "of_nat (g i)"] i show ?thesis by simp
  next
    case False
    with that have k: "k \<in> set is" by simp
    with snoc.prems(3) have "g k < 4096" by simp
    moreover from False k snoc.prems(4) have "g k \<noteq> g i"
      using inj_onD [OF snoc.prems(4), of k i] by auto
    moreover note k
    ultimately have "g k \<noteq> g i" "g k < 4096" "k \<in> set is" by simp_all
    then have "of_nat (g i) \<noteq> (of_nat (g k) :: u32)"
      using i by (intro of_nat_block_neq) auto
    with new [of "of_nat (g k)"] IH(2) \<open>g k < 4096\<close> \<open>k \<in> set is\<close> show ?thesis by simp
  qed
  moreover have "read_block (write_block ?F (f i) (of_nat (g i))) c = read_block d c"
    if "small_block c" "unat c \<notin> g ` set (is @ [i])" for c
  proof -
    from that have "of_nat (g i) \<noteq> c" using i by (intro of_nat_block_neq) auto
    with new [OF that(1)] IH(3) that show ?thesis by auto
  qed
  ultimately show ?case using IH(1) i by simp
qed

lemma init_inodeList_blocks:
  assumes "disk_ok d" and "\<And>i. length (stk i) = 512"
  shows "disk_ok (init_inodeList d stk)"
    and "1 \<le> i \<Longrightarrow> i \<le> 50 \<Longrightarrow> read_block (init_inodeList d stk) (of_nat i) = init_inode_block i (stk i)"
    and "small_block c \<Longrightarrow> c = 0 \<or> 50 < unat c \<Longrightarrow>
      read_block (init_inodeList d stk) c = read_block d c"
  using foldl_write_blocks [OF assms(1), of "[1..<51]" "\<lambda>i. init_inode_block i (stk i)" "\<lambda>i. i"]
  by (auto simp: init_inodeList_def init_inode_block_slots(1) assms(2))

section \<open>The list of free inodes\<close>

definition inode_slot :: "nat \<Rightarrow> u32 \<times> u32" where
  "inode_slot k = (of_nat (1 + k div 4), of_nat (k mod 4 * sizeof_inode))"

lemma slot_bound: "i mod 4 * sizeof_inode + sizeof_inode \<le> BLOCK_SIZE" for i :: nat
  using mod_less_divisor [of 4 i] by linarith

lemma Suc_div_mod_4:
  fixes k :: nat
  shows "k mod 4 = 3 \<Longrightarrow> Suc k div 4 = Suc (k div 4) \<and> Suc k mod 4 = 0"
  "k mod 4 \<noteq> 3 \<Longrightarrow> Suc k div 4 = k div 4 \<and> Suc k mod 4 = Suc (k mod 4)"
  by (simp_all add: div_Suc mod_Suc)

lemma slot_next_inode_slot:
  assumes "k < 200"
  shows "slot_next (1 + k div 4) (k mod 4) = (if k = 199 then (0, 0) else inode_slot (Suc k))"
proof (cases "k mod 4 = 3")
  case True
  have "k = 4 * (k div 4) + 3" using True mult_div_mod_eq [of 4 k] by linarith
  then have "1 + k div 4 = 50 \<longleftrightarrow> k = 199" by linarith
  with True Suc_div_mod_4(1) [OF True] show ?thesis
    by (auto simp: slot_next_def inode_slot_def)
next
  case False
  then have "k \<noteq> 199" by auto
  with False Suc_div_mod_4(2) [OF False] show ?thesis
    by (auto simp: slot_next_def inode_slot_def algebra_simps)
qed

lemma read_inode_slot:
  assumes "\<And>i. 1 \<le> i \<Longrightarrow> i \<le> 50 \<Longrightarrow> read_block d (of_nat i) = init_inode_block i (stk i)"
    and "k < 200"
  shows "read_inode d (fst (inode_slot k)) (snd (inode_slot k))
    = Some (slot_of (init_inode_block (1 + k div 4) (stk (1 + k div 4))) (k mod 4))"
proof -
  have "1 + k div 4 \<le> 50" using assms(2) by simp
  then have rd: "read_block d (of_nat (1 + k div 4)) = init_inode_block (1 + k div 4) (stk (1 + k div 4))"
    by (intro assms(1)) simp_all
  have "unat (of_nat (k mod 4 * sizeof_inode) :: u32) = k mod 4 * sizeof_inode"
    using slot_bound [of k] by (intro unat_block) linarith
  moreover note slot_bound [of k]
  ultimately show ?thesis
    using rd unfolding inode_slot_def fst_conv snd_conv read_inode_block by simp
qed

lemma small_inode_slot: "k < 200 \<Longrightarrow> small_block (fst (inode_slot k)) \<and> fst (inode_slot k) \<noteq> 0"
proof -
  assume "k < 200"
  then have "1 + k div 4 < 4096" by simp
  then show ?thesis
    using of_nat_block_neq [of "1 + k div 4" 0] small_of_nat [of "1 + k div 4"]
    by (simp add: inode_slot_def)
qed

lemma inode_chain_slots:
  assumes "\<And>i. 1 \<le> i \<Longrightarrow> i \<le> 50 \<Longrightarrow> read_block d (of_nat i) = init_inode_block i (stk i)"
    and "\<And>i. length (stk i) = 512" and "k \<le> 200"
  shows "inode_chain d (if k = 200 then (0, 0) else inode_slot k) (map inode_slot [k..<200])"
  using assms(3)
proof (induction rule: inc_induct)
  case base
  then show ?case by simp
next
  case (step k)
  let ?n = "slot_of (init_inode_block (1 + k div 4) (stk (1 + k div 4))) (k mod 4)"
  have rd: "read_inode d (fst (inode_slot k)) (snd (inode_slot k)) = Some ?n"
    by (rule read_inode_slot [OF assms(1)]) (use step in auto)
  have "(next_inode_block_no ?n, next_inode_offset ?n) = slot_next (1 + k div 4) (k mod 4)"
    using init_inode_block_slots(2) [OF assms(2), of "k mod 4" "1 + k div 4"] by simp
  also have "\<dots> = (if Suc k = 200 then (0, 0) else inode_slot (Suc k))"
    using slot_next_inode_slot [of k] step by simp
  finally have nxt: "(next_inode_block_no ?n, next_inode_offset ?n)
      = (if Suc k = 200 then (0, 0) else inode_slot (Suc k))" .
  have "[k..<200] = k # [Suc k..<200]" using step by (simp add: upt_rec)
  then show ?case
    using rd nxt step small_inode_slot [of k] by (simp del: upt_Suc)
qed

section \<open>The super block and the bitmap\<close>

lemma dataBlockBit_nos [simp]:
  "map (\<lambda>i. of_nat (INODE_BLOCK_SIZE + i + 1)) [0..<DataBlockBitSize] = [51, 52, 53, 54, 55 :: u32]"
  by (simp add: upt_rec)

lemma init_superBlock_props:
  assumes "disk_ok d" and "476 \<le> length stk"
  shows "disk_ok (init_superBlock d stk sb0)"
    and "read_superBlock (init_superBlock d stk sb0)
      = sb0\<lparr>free_inode_block_no := 1, free_inode_offset := 0, dataBlockBit_no := [51, 52, 53, 54, 55]\<rparr>"
    and "small_block b \<Longrightarrow> b \<noteq> 0 \<Longrightarrow> read_block (init_superBlock d stk sb0) b = read_block d b"
  using assms unfolding init_superBlock_def dataBlockBit_nos
  by (simp_all add: wf_super_block_def read_write_superBlock read_block_write_superBlock)

definition formatted_bitmap :: "u8 list" where
  "formatted_bitmap = replicate 7 255 @ replicate 505 0"

lemma bitmap_bit_formatted: "k < 4096 \<Longrightarrow> bitmap_bit formatted_bitmap k \<longleftrightarrow> k < 56"
proof -
  assume "k < 4096"
  then have k: "k div 8 < 512" "k div 8 < 7 \<longleftrightarrow> k < 56" by auto
  have "bit (255 :: u8) (k mod 8)" using u8_full [of 255] by simp
  then show ?thesis
    using k by (auto simp: bitmap_bit_def formatted_bitmap_def nth_append)
qed

lemma init_dataBlockBit_props:
  assumes "disk_ok d"
  shows "disk_ok (init_dataBlockBit d)"
    and "read_block (init_dataBlockBit d) first_bitmap = formatted_bitmap"
    and "small_block c \<Longrightarrow> unat c < 51 \<or> 55 < unat c \<Longrightarrow> read_block (init_dataBlockBit d) c = read_block d c"
proof -
  let ?d1 = "foldl (\<lambda>d i. write_block d (replicate 512 0) (of_nat (INODE_BLOCK_SIZE + i))) d
                 [1..<DataBlockBitSize + 1]"
  have d1: "disk_ok ?d1"
    "\<forall>c. small_block c \<longrightarrow> unat c \<notin> (\<lambda>i. 50 + i) ` set [1..<6] \<longrightarrow> read_block ?d1 c = read_block d c"
    using foldl_write_blocks [OF assms, of "[1..<6]" "\<lambda>_. replicate 512 0" "\<lambda>i. 50 + i"]
    by (auto simp del: upt_Suc)
  have eq: "init_dataBlockBit d = write_block ?d1 formatted_bitmap first_bitmap"
    by (simp add: init_dataBlockBit_def formatted_bitmap_def list_update_append Let_def
        list_update_beyond nth_append del: upt_Suc)
  have len: "length formatted_bitmap = 512" by (simp add: formatted_bitmap_def)
  show "disk_ok (init_dataBlockBit d)" using d1(1) len by (simp add: eq)
  show "read_block (init_dataBlockBit d) first_bitmap = formatted_bitmap"
    using d1(1) len by (simp add: eq)
  show "read_block (init_dataBlockBit d) c = read_block d c"
    if "small_block c" "unat c < 51 \<or> 55 < unat c"
  proof -
    from that have "first_bitmap \<noteq> c" "unat c \<notin> (\<lambda>i. 50 + i) ` set [1..<6]" by auto
    with that d1 len show ?thesis
      by (simp add: eq read_write_block small_block_def)
  qed
qed

section \<open>The formatted disk\<close>

text \<open>What the three routines before \<open>create_rootDir\<close> leave on the disk.\<close>

definition formatted :: "disk \<Rightarrow> bool" where
  "formatted d \<longleftrightarrow> bitmap_ok d \<and> free_inodes d (map inode_slot [0..<200]) \<and> busy_blocks d = {..<56}"

lemma formattedI:
  assumes "disk_ok d" and "476 \<le> length stk" and "\<And>i. length (stks i) = 512"
  shows "formatted (init_dataBlockBit (init_inodeList (init_superBlock d stk sb0) stks))"
proof -
  let ?d1 = "init_superBlock d stk sb0"
  let ?d2 = "init_inodeList ?d1 stks"
  let ?d3 = "init_dataBlockBit ?d2"
  note p1 = init_superBlock_props [where ?sb0.0 = sb0, OF assms(1,2)]
  note p2 = init_inodeList_blocks [OF p1(1) assms(3)]
  note p3 = init_dataBlockBit_props [OF p2(1)]
  have "read_block ?d3 0 = read_block ?d1 0" using p2(3) [of 0] p3(3) [of 0] by simp
  then have sb: "read_superBlock ?d3 = read_superBlock ?d1" by (rule read_superBlock_cong)
  have "read_block ?d3 (of_nat i) = init_inode_block i (stks i)" if "1 \<le> i" "i \<le> 50" for i
    using p2(2) [OF that] p3(3) [of "of_nat i"] that by simp
  from inode_chain_slots [where stk = stks and k = 0, OF this assms(3)]
  have "free_inodes ?d3 (map inode_slot [0..<200])"
    by (simp add: free_inodes_def sb p1(2) inode_slot_def)
  moreover have busy: "busy_blocks ?d3 = {..<56}"
    using bitmap_bit_formatted by (auto simp: busy_blocks_def p3(2))
  moreover have "bitmap_ok ?d3"
    using p3(1) busy by (simp add: bitmap_ok_def sb p1(2))
  ultimately show ?thesis by (simp add: formatted_def)
qed

lemma inode_slot_overlap:
  assumes "j < 200" and "k < 200" and "j \<noteq> k"
  shows "fst (inode_slot j) \<noteq> fst (inode_slot k) \<or>
    unat (snd (inode_slot j)) + sizeof_inode \<le> unat (snd (inode_slot k)) \<or>
    unat (snd (inode_slot k)) + sizeof_inode \<le> unat (snd (inode_slot j))"
proof (cases "j div 4 = k div 4")
  case True
  with assms(3) have ne: "j mod 4 \<noteq> k mod 4" by (metis mult_div_mod_eq)
  have off: "unat (snd (inode_slot i)) = i mod 4 * 116" for i
    unfolding inode_slot_def snd_conv using slot_bound [of i] by (intro unat_block) linarith
  from ne show ?thesis unfolding off by linarith
next
  case False
  have "unat (of_nat (1 + i div 4) :: u32) = 1 + i div 4" if "i < 200" for i
    by (rule unat_block) (use that in simp)
  then have "of_nat (1 + j div 4) \<noteq> (of_nat (1 + k div 4) :: u32)"
    using False assms(1,2) by (metis add_left_cancel)
  then show ?thesis by (simp add: inode_slot_def)
qed

text \<open>The list only depends on the super block and the inode blocks.\<close>

lemma free_inodes_frame:
  assumes "free_inodes d (map inode_slot [m..<200])"
    and "read_superBlock d' = read_superBlock d"
    and "\<And>c. small_block c \<Longrightarrow> c \<noteq> 0 \<Longrightarrow> unat c < 51 \<Longrightarrow> read_block d' c = read_block d c"
  shows "free_inodes d' (map inode_slot [m..<200])"
  using assms(1,2)
proof (rule free_inodes_cong)
  fix b off assume "(b, off) \<in> set (map inode_slot [m..<200])"
  then obtain j where j: "(b, off) = inode_slot j" "j < 200" by auto
  then have "b = of_nat (1 + j div 4)" "1 + j div 4 < 51"
    by (auto simp: inode_slot_def less_mult_imp_div_less)
  then have "small_block b" "unat b < 51" by (simp_all add: small_block_def del: of_nat_Suc)
  moreover have "b \<noteq> 0" using small_inode_slot [OF j(2)] j(1) by (metis fst_conv)
  ultimately show "read_inode d' b off = read_inode d b off"
    by (intro read_inode_cong assms(3))
qed

text \<open>Writing an inode that is not on the free list leaves the list alone.\<close>

lemma writeInode_free_inodes:
  assumes "writeInode d n = Some d'" and "wf_inode n" and "disk_ok d"
    and "my_inode_block_no n = fst (inode_slot k)" and "my_inode_offset n = snd (inode_slot k)"
    and "k < m" and "m \<le> 200" and "free_inodes d (map inode_slot [m..<200])"
  shows "free_inodes d' (map inode_slot [m..<200])"
  using assms(8)
proof (rule free_inodes_cong)
  have k: "small_block (my_inode_block_no n)" "my_inode_block_no n \<noteq> 0"
    using small_inode_slot [of k] assms by simp_all
  from writeInode_read_block [OF assms(1-3), of 0] k
  show "read_superBlock d' = read_superBlock d" by (intro read_superBlock_cong) auto
  fix b off assume "(b, off) \<in> set (map inode_slot [m..<200])"
  then obtain j where j: "(b, off) = inode_slot j" "m \<le> j" "j < 200" by auto
  then have "fst (inode_slot j) = b" "snd (inode_slot j) = off" by (metis fst_conv, metis snd_conv)
  with j k assms small_inode_slot [of j] inode_slot_overlap [of j k]
  show "read_inode d' b off = read_inode d b off"
    by (intro writeInode_read_other [OF assms(1-3)]) auto
qed

lemma replicate_update: "(replicate 20 x)[0 := y] = y # replicate 19 x"
  and first_free_replicate: "first_index (\<lambda>b. b = 0) (replicate 20 (0 :: u32)) = Some 0"
  by (simp_all add: numeral_eq_Suc)

lemma format_root:
  assumes "disk_ok d" and "476 \<le> length stk" and "\<And>i. length (stks i) = 512"
    and "476 \<le> length stk1" and "476 \<le> length stk2"
  shows "\<exists>d' root.
    create_rootDir (init_dataBlockBit (init_inodeList (init_superBlock d stk sb0) stks)) stk1 stk2 in0
      = Some d' \<and>
    rootdir_inode_block_no (read_superBlock d') = 1 \<and> rootdir_inode_offset (read_superBlock d') = 0 \<and>
    read_inode d' 1 0 = Some root \<and> i_mode root = DIRECTORY_FILE \<and> i_size root = 0 \<and>
    my_inode_block_no root = 1 \<and> my_inode_offset root = 0 \<and>
    block_no root = 56 # replicate 19 0 \<and> read_block d' 56 = replicate 512 0 \<and>
    bitmap_ok d' \<and> busy_blocks d' = {..<57} \<and> free_inodes d' (map inode_slot [1..<200])"
proof -
  let ?d = "init_dataBlockBit (init_inodeList (init_superBlock d stk sb0) stks)"
  have fm: "bitmap_ok ?d" "free_inodes ?d (map inode_slot [0..<200])" "busy_blocks ?d = {..<56}"
    using formattedI [OF assms(1-3), of sb0] by (simp_all add: formatted_def)
  then have ok: "disk_ok ?d" by (simp add: bitmap_ok_def)
  have s0: "inode_slot 0 = (1, 0)" by (simp add: inode_slot_def)
  have "free_inodes ?d ((1, 0) # map inode_slot [1..<200])"
    using fm(2) by (simp only: s0 [symmetric]) (simp add: upt_rec [of 0] del: upt_Suc)
  from allocInode_pop [OF this ok assms(4), of in0] obtain n0 d1 where
    a1: "allocInode ?d stk1 in0 = Some (0, n0\<lparr>my_inode_block_no := 1, my_inode_offset := 0,
        block_no := replicate MAX_BLOCKS_InFILE 0\<rparr>, d1)"
      "free_inodes d1 (map inode_slot [1..<200])" "disk_ok d1"
      "\<And>c. small_block c \<Longrightarrow> c \<noteq> 0 \<Longrightarrow> read_block d1 c = read_block ?d c"
      "dataBlockBit_no (read_superBlock d1) = dataBlockBit_no (read_superBlock ?d)"
    by auto
  let ?n1 = "n0\<lparr>my_inode_block_no := 1, my_inode_offset := 0,
        block_no := replicate MAX_BLOCKS_InFILE 0\<rparr>"
  have busy1: "busy_blocks d1 = {..<56}"
    using a1(4) [of first_bitmap] fm(3) by (subst busy_blocks_cong [of d1 ?d]) (auto simp: small_block_def)
  have bm1: "bitmap_ok d1" using fm(1) a1(3,5) busy1 by (simp add: bitmap_ok_def)
  have low: "lowest_free d1 56" using busy1 by (simp add: lowest_free_def)
  have "first_index (\<lambda>b. b = 0) (block_no ?n1) = Some 0" by (simp add: first_free_replicate)
  from allocBlock_take [OF bm1 low _ this] obtain d2 where
    a2: "allocBlock d1 ?n1 = Some (0, ?n1\<lparr>block_no := (block_no ?n1)[0 := of_nat 56]\<rparr>, d2)"
      "bitmap_ok d2" "busy_blocks d2 = insert 56 (busy_blocks d1)"
      "read_block d2 (of_nat 56) = replicate 512 0" "read_superBlock d2 = read_superBlock d1"
      "\<And>c. small_block c \<Longrightarrow> c \<noteq> of_nat 56 \<Longrightarrow> c \<noteq> first_bitmap \<Longrightarrow> read_block d2 c = read_block d1 c"
    by auto
  let ?n2 = "?n1\<lparr>block_no := (block_no ?n1)[0 := of_nat 56]\<rparr>"
  let ?n3 = "?n2\<lparr>i_mode := DIRECTORY_FILE, i_size := 0\<rparr>"
  have n3: "wf_inode ?n3" "my_inode_block_no ?n3 = 1" "my_inode_offset ?n3 = 0"
    by (simp_all add: wf_inode_def)
  obtain d3 where w: "writeInode d2 ?n3 = Some d3" by (simp add: writeInode_def)
  have ok2: "disk_ok d2" using a2(2) by (simp add: bitmap_ok_def)
  have ok3: "disk_ok d3" by (rule writeInode_ok [OF w n3(1) ok2])
  have rd3: "read_block d3 c = read_block d2 c" if "small_block c" "c \<noteq> 1" for c
    using writeInode_read_block [OF w n3(1) ok2 that(1)] that(2) n3(2) by simp
  have fi2: "free_inodes d2 (map inode_slot [1..<200])"
    using a1(2) a2(5)
  proof (rule free_inodes_frame)
    show "read_block d2 c = read_block d1 c" if "small_block c" "c \<noteq> 0" "unat c < 51" for c
      using that by (intro a2(6)) auto
  qed
  have fi3: "free_inodes d3 (map inode_slot [1..<200])"
    by (rule writeInode_free_inodes [OF w n3(1) ok2 _ _ _ _ fi2, where k = 0])
       (simp_all add: s0)
  let ?sb = "(read_superBlock d3)\<lparr>rootdir_inode_offset := 0, rootdir_inode_block_no := 1\<rparr>"
  let ?d4 = "write_superBlock d3 stk2 ?sb"
  have wf: "wf_super_block ?sb" using wf_read_superBlock [OF ok3] by (simp add: wf_super_block_def)
  have sb: "read_superBlock ?d4 = ?sb" by (rule read_write_superBlock [OF ok3 wf assms(5)])
  have rd4: "read_block ?d4 c = read_block d3 c" if "small_block c" "c \<noteq> 0" for c
    by (rule read_block_write_superBlock [OF ok3 wf assms(5) that])
  have root: "create_rootDir ?d stk1 stk2 in0 = Some ?d4"
    using a1(1) a2(1) w by (simp add: create_rootDir_def Let_def)
  have sb32: "read_superBlock d3 = read_superBlock d2" by (rule read_superBlock_cong [OF rd3]) simp_all
  have inode4: "read_inode ?d4 1 0 = Some ?n3"
    using writeInode_read [OF w n3(1) ok2] rd4 [of 1] unfolding n3
    by (subst read_inode_cong [of ?d4 1 d3]) simp_all
  have blk56: "read_block ?d4 56 = replicate 512 0"
    using rd4 [of 56] rd3 [of 56] a2(4) by (simp add: small_block_def)
  have busy4: "busy_blocks ?d4 = {..<57}"
    using rd4 [of first_bitmap] rd3 [of first_bitmap] a2(3) busy1
    by (subst busy_blocks_cong [of ?d4 d2]) (auto simp: small_block_def)
  have "dataBlockBit_no (read_superBlock ?d4) = dataBlockBit_no (read_superBlock d2)"
    by (simp only: sb) (simp add: sb32)
  then have bm4: "bitmap_ok ?d4"
    using a2(2) busy4 wf ok3 assms(5) by (simp add: bitmap_ok_def)
  have fi4: "free_inodes ?d4 (map inode_slot [1..<200])"
  proof -
    have "inode_chain ?d4 (free_inode_block_no (read_superBlock d3), free_inode_offset (read_superBlock d3))
        (map inode_slot [1..<200])"
      using fi3 unfolding free_inodes_def
      by (rule inode_chain_cong) (use fi3 rd4 inode_chain_small in
        \<open>unfold free_inodes_def, blast intro: read_inode_cong\<close>)
    then show ?thesis by (simp add: free_inodes_def sb)
  qed
  show ?thesis
    using root inode4 blk56 busy4 bm4 fi4
    by (intro exI [of _ ?d4] exI [of _ ?n3] conjI) (simp_all add: sb replicate_update)
qed

text \<open>
  C11: formatting (the calls of \<open>init_file\<close> up to \<open>create_rootDir\<close>) leaves, on any disk, a
  file system whose root is the directory in inode slot 0 with the zeroed data block 56 and no
  entries, whose free list holds the other 199 inode slots in disk order, and whose busy blocks
  are exactly the 56 blocks of the file system's own structures and the root's data block.
\<close>

theorem format_correct:
  assumes "disk_ok d" and "476 \<le> length stk" and "\<And>i. length (stks i) = 512"
    and "476 \<le> length stk1" and "476 \<le> length stk2"
  shows "\<exists>d' root.
    create_rootDir (init_dataBlockBit (init_inodeList (init_superBlock d stk sb0) stks)) stk1 stk2 in0
      = Some d' \<and>
    rootdir_inode_block_no (read_superBlock d') = 1 \<and> rootdir_inode_offset (read_superBlock d') = 0 \<and>
    read_inode d' 1 0 = Some root \<and> i_mode root = DIRECTORY_FILE \<and> i_size root = 0 \<and>
    my_inode_block_no root = 1 \<and> my_inode_offset root = 0 \<and>
    block_no root = 56 # replicate 19 0 \<and> read_block d' 56 = replicate 512 0 \<and>
    bitmap_ok d' \<and> busy_blocks d' = {..<57} \<and> free_inodes d' (map inode_slot [1..<200])"
  by (rule format_root [OF assms])

theorem format_correct_witness:
  "\<exists>d' root.
    create_rootDir (init_dataBlockBit (init_inodeList
       (init_superBlock (\<lambda>_. replicate 512 7) (replicate 476 1) (super_block_of_bytes [])) (\<lambda>_. replicate 512 2)))
       (replicate 476 3) (replicate 476 4) (inode_of_bytes []) = Some d' \<and>
    read_inode d' 1 0 = Some root \<and> block_no root = 56 # replicate 19 0 \<and>
    busy_blocks d' = {..<57}"
  using format_correct [of "\<lambda>_. replicate 512 7" "replicate 476 1" "\<lambda>_. replicate 512 2"
      "replicate 476 3" "replicate 476 4" "super_block_of_bytes []" "inode_of_bytes []"]
  by (auto simp: disk_ok_def)

lemma distinct_inode_slots: "distinct (map inode_slot [0..<200])"
proof -
  have "inode_slot j \<noteq> inode_slot k" if "j < 200" "k < 200" "j \<noteq> k" for j k
    using inode_slot_overlap [OF that] by auto
  then have "inj_on inode_slot {0..<200}" by (intro inj_onI) (metis atLeastLessThan_iff)
  then show ?thesis by (simp add: distinct_map)
qed

text \<open>
  C16: on a formatted disk, \<open>allocInode\<close> hands out the 199 inode slots after the root's, each
  once and in disk order; the 200th call fails.
\<close>

theorem inode_supply:
  assumes "disk_ok d" and "476 \<le> length stk" and "\<And>i. length (stks i) = 512"
    and "476 \<le> length stk1" and "476 \<le> length stk2" and "476 \<le> length stk3"
  shows "\<exists>d' s'.
    create_rootDir (init_dataBlockBit (init_inodeList (init_superBlock d stk sb0) stks)) stk1 stk2 in0
      = Some d' \<and>
    inode_pool.alloc_many 199 (stk3, d') = Some (map inode_slot [1..<200], s') \<and>
    distinct (map inode_slot [1..<200]) \<and> take_inode s' = None"
proof -
  from format_root [where stks = stks and ?sb0.0 = sb0 and ?in0.0 = in0, OF assms(1-5)] obtain d' where
    d': "create_rootDir (init_dataBlockBit (init_inodeList (init_superBlock d stk sb0) stks)) stk1 stk2 in0
      = Some d'" "bitmap_ok d'" "free_inodes d' (map inode_slot [1..<200])" by auto
  then have r: "inode_pool_repr (stk3, d') (map inode_slot [1..<200])"
    using assms(6) by (simp add: inode_pool_repr_def bitmap_ok_def)
  from inode_pool.alloc_many_take [OF r, of 199] obtain s' where
    s': "inode_pool.alloc_many 199 (stk3, d') = Some (map inode_slot [1..<200], s')" "inode_pool_repr s' []"
    by auto
  have "[0..<200] = 0 # [1..<200]" by (simp add: upt_rec [of 0] del: upt_Suc)
  then have "distinct (map inode_slot [1..<200])"
    using distinct_inode_slots by (metis distinct.simps(2) list.simps(9))
  with d'(1) s' inode_pool.alloc_Nil show ?thesis by blast
qed

theorem inode_supply_witness:
  "\<exists>d' s'.
    create_rootDir (init_dataBlockBit (init_inodeList
       (init_superBlock (\<lambda>_. replicate 512 7) (replicate 476 1) (super_block_of_bytes [])) (\<lambda>_. replicate 512 2)))
       (replicate 476 3) (replicate 476 4) (inode_of_bytes []) = Some d' \<and>
    inode_pool.alloc_many 199 (replicate 476 5, d') = Some (map inode_slot [1..<200], s') \<and>
    take_inode s' = None"
  using inode_supply [of "\<lambda>_. replicate 512 7" "replicate 476 1" "\<lambda>_. replicate 512 2"
      "replicate 476 3" "replicate 476 4" "replicate 476 5" "super_block_of_bytes []" "inode_of_bytes []"]
  by (auto simp: disk_ok_def simp del: upt_Suc)

end
