(* ===== verification/Cstr.thy ===== *)
theory Cstr
  imports Prelude "HOL-Library.Sublist"
begin

text \<open>
  The string routines of \<open>str.c\<close>.  A \<open>char *\<close> into a buffer is the list of the bytes from
  it to the end of the buffer, so that \<open>p++\<close> is the tail of the list and a read at or past
  the end of the buffer is \<open>None\<close>.  \<open>char\<close> is signed on the target (the comparison of
  \<open>strcmpa\<close> is signed).  A separator argument is only ever dereferenced once, so it is the
  byte it points to.  Lengths and positions are far below \<open>2^31\<close>, so the \<open>int\<close> counters are
  natural numbers and an \<open>int\<close> result is an \<open>int\<close>.
\<close>

section \<open>The routines\<close>

fun strsize :: "u8 list \<Rightarrow> nat option" where
  "strsize [] = None"
| "strsize (c # cs) = (if c \<noteq> 0 then map_option Suc (strsize cs) else Some 0)"

text \<open>\<open>strcopy(source, dest, size)\<close> is \<open>rep movsb\<close>: the bytes it stores at \<open>dest\<close>.\<close>

definition strcopy :: "u8 list \<Rightarrow> nat \<Rightarrow> u8 list option" where
  "strcopy source sz = (if sz \<le> length source then Some (take sz source) else None)"

fun findlast_loop :: "u8 list \<Rightarrow> u8 \<Rightarrow> nat \<Rightarrow> nat" where
  "findlast_loop string sep 0 = 0"
| "findlast_loop string sep (Suc k) =
     (if string ! Suc k \<noteq> sep then findlast_loop string sep k else Suc k)"

definition findlastsprt :: "u8 list \<Rightarrow> u8 \<Rightarrow> int option" where
  "findlastsprt string sep = do {
     sz \<leftarrow> strsize string;
     let stringend = findlast_loop string sep sz;
     Some (if stringend = 0 \<and> string ! 0 \<noteq> sep then -1 else int stringend)
   }"

fun findfirst_loop :: "u8 list \<Rightarrow> u8 \<Rightarrow> nat \<Rightarrow> (u8 \<times> nat) option" where
  "findfirst_loop [] sep i = None"
| "findfirst_loop (c # cs) sep i =
     (if c \<noteq> sep \<and> c \<noteq> 0 then findfirst_loop cs sep (Suc i) else Some (c, i))"

definition findfirstsprt :: "u8 list \<Rightarrow> u8 \<Rightarrow> int option" where
  "findfirstsprt string sep = do {
     (c, i) \<leftarrow> findfirst_loop string sep 0;
     Some (if c = 0 then -1 else int i)
   }"

text \<open>\<open>strcut\<close>: the bytes it stores in \<open>result\<close>.\<close>

definition strcut :: "u8 list \<Rightarrow> u8 \<Rightarrow> u8 list option" where
  "strcut string sep = do {
     (c, i) \<leftarrow> findfirst_loop string sep 0;
     strcopy string (i + 1)
   }"

fun strcmpa :: "u8 list \<Rightarrow> u8 list \<Rightarrow> nat \<Rightarrow> int option" where
  "strcmpa a b 0 = Some 0"
| "strcmpa (x # a) (y # b) (Suc n) =
     (if x \<noteq> y then Some (if y <s x then 1 else -1) else strcmpa a b n)"
| "strcmpa _ _ (Suc n) = None"

text \<open>
  The inner loop of \<open>strmatch\<close> advances to the next byte equal to the first byte of
  \<open>source\<close>.  The C condition reads \<open>*string\<close> before it tests \<open>offset < size\<close>; the value
  read does not matter when the test fails, so the test comes first here.
\<close>

fun skip_to :: "u8 \<Rightarrow> nat \<Rightarrow> nat \<Rightarrow> u8 list \<Rightarrow> (nat \<times> u8 list) option" where
  "skip_to c sz offset string =
     (if offset < sz
      then (case string of
              [] \<Rightarrow> None
            | x # xs \<Rightarrow> if x \<noteq> c then skip_to c sz (Suc offset) xs else Some (offset, string))
      else Some (offset, string))"

declare skip_to.simps [simp del]

lemma skip_to_shorter: "skip_to c sz off xs = Some (off', xs') \<Longrightarrow> length xs' \<le> length xs"
proof (induction c sz off xs rule: skip_to.induct)
  case (1 c sz offset string)
  then show ?case
    by (subst (asm) (2) skip_to.simps) (fastforce split: if_splits list.splits)
qed

lemma skip_to_nonempty:
  "skip_to c sz off xs = Some (off', xs') \<Longrightarrow> off' < sz \<Longrightarrow> xs' \<noteq> []"
proof (induction c sz off xs rule: skip_to.induct)
  case (1 c sz offset string)
  then show ?case
    by (subst (asm) (2) skip_to.simps) (auto split: if_splits list.splits)
qed

text \<open>
  The outer loop.  Leaving it by its condition falls off the end of the function, whose
  result is then undefined (\<open>None\<close>).  The first byte of \<open>source\<close> is \<open>c\<close>.
\<close>

function strmatch_loop :: "u8 list \<Rightarrow> u8 \<Rightarrow> nat \<Rightarrow> nat \<Rightarrow> nat \<Rightarrow> u8 list \<Rightarrow> int option" where
  "strmatch_loop source c n sz offset string =
     (if offset < sz
      then (case skip_to c sz offset string of
              None \<Rightarrow> None
            | Some (offset', string') \<Rightarrow>
                if \<not> offset' < sz then Some (-1)
                else (case strcmpa source string' n of
                        None \<Rightarrow> None
                      | Some r \<Rightarrow>
                          if r = 0 then Some (int offset')
                          else strmatch_loop source c n sz
                                 (Suc offset') (tl string')))
      else None)"
  by pat_completeness auto
termination
proof (relation "measure (\<lambda>(source, c, n, sz, offset, string). length string)", goal_cases)
  case 1
  then show ?case by simp
next
  case (2 source c n sz offset string a offset' string' r)
  then have "length string' \<le> length string" "string' \<noteq> []"
    using skip_to_shorter skip_to_nonempty by fastforce+
  then show ?case by (cases string') auto
qed

declare strmatch_loop.simps [simp del]

definition strmatch :: "u8 list \<Rightarrow> u8 list \<Rightarrow> nat \<Rightarrow> int option" where
  "strmatch source dest sz = do {
     n \<leftarrow> strsize source;
     strmatch_loop source (source ! 0) n sz 0 dest
   }"

fun strcount :: "u8 list \<Rightarrow> u8 \<Rightarrow> nat option" where
  "strcount [] a = None"
| "strcount (c # cs) a =
     (if c \<noteq> 0 then map_option (\<lambda>n. if c = a then Suc n else n) (strcount cs a) else Some 0)"

section \<open>Lengths and separators\<close>

lemma strsize_append [simp]: "0 \<notin> set s \<Longrightarrow> strsize (s @ 0 # r) = Some (length s)"
  by (induction s) auto

lemma strsize_SomeD:
  "strsize xs = Some n \<Longrightarrow> \<exists>s r. xs = s @ 0 # r \<and> 0 \<notin> set s \<and> length s = n"
proof (induction xs arbitrary: n)
  case Nil
  then show ?case by simp
next
  case (Cons c cs)
  show ?case
  proof (cases "c = 0")
    case True
    with Cons.prems show ?thesis by (intro exI [of _ "[]"] exI [of _ cs]) auto
  next
    case False
    with Cons.prems obtain k where "strsize cs = Some k" "n = Suc k" by auto
    with Cons.IH obtain s r where "cs = s @ 0 # r" "0 \<notin> set s" "length s = k" by blast
    then have "c # cs = (c # s) @ 0 # r" by simp
    with False \<open>n = Suc k\<close> \<open>0 \<notin> set s\<close> \<open>length s = k\<close> show ?thesis
      by (metis length_Cons set_ConsD)
  qed
qed

lemma strsize_None: "strsize xs = None \<longleftrightarrow> 0 \<notin> set xs"
  by (induction xs) auto

lemma findfirst_loop_prefix:
  "sep \<notin> set s \<Longrightarrow> 0 \<notin> set s \<Longrightarrow>
   findfirst_loop (s @ xs) sep i = findfirst_loop xs sep (i + length s)"
  by (induction s arbitrary: i) auto

lemma findfirstsprt_found [simp]:
  assumes "sep \<notin> set s" and "0 \<notin> set s" and "sep \<noteq> 0"
  shows "findfirstsprt (s @ sep # r) sep = Some (int (length s))"
  using assms by (simp add: findfirstsprt_def findfirst_loop_prefix)

lemma findfirstsprt_none [simp]:
  assumes "sep \<notin> set s" and "0 \<notin> set s"
  shows "findfirstsprt (s @ 0 # r) sep = Some (-1)"
  using assms by (simp add: findfirstsprt_def findfirst_loop_prefix)

lemma findlast_loop_skip:
  "\<lbrakk> sep \<notin> set t; k < length s; k + length t < length (s @ t) \<rbrakk> \<Longrightarrow> length s = Suc k \<Longrightarrow>
   findlast_loop (s @ t @ r) sep (k + length t) = findlast_loop (s @ t @ r) sep k"
proof (induction t arbitrary: r rule: rev_induct)
  case Nil
  then show ?case by simp
next
  case (snoc x t)
  have "(s @ (t @ [x]) @ r) ! Suc (k + length t) = x"
    using snoc.prems by (simp add: nth_append)
  with snoc.prems snoc.IH [of "x # r"] show ?case by auto
qed

lemma findlastsprt_found:
  assumes "sep \<notin> set t" and "0 \<notin> set s" and "0 \<notin> set t" and "sep \<noteq> 0"
  shows "findlastsprt (s @ sep # t @ 0 # r) sep = Some (int (length s))"
proof -
  have "strsize ((s @ sep # t) @ 0 # r) = Some (length (s @ sep # t))"
    using assms by (intro strsize_append) auto
  then have sz: "strsize (s @ sep # t @ 0 # r) = Some (Suc (length s + length t))"
    by simp
  have "findlast_loop ((s @ [sep]) @ (t @ [0]) @ r) sep (length s + length (t @ [0]))
      = findlast_loop ((s @ [sep]) @ (t @ [0]) @ r) sep (length s)"
    using assms by (intro findlast_loop_skip) auto
  moreover have "findlast_loop (s @ sep # q) sep (length s) = length s" for q
    by (cases "length s") (auto simp: nth_append)
  ultimately have "findlast_loop (s @ sep # t @ 0 # r) sep (Suc (length s + length t)) = length s"
    using assms(4) by simp
  then show ?thesis by (simp add: findlastsprt_def sz nth_append Let_def)
qed

lemma strcut_at_separator:
  assumes "sep \<notin> set s" and "0 \<notin> set s" and "sep \<noteq> 0"
  shows "strcut (s @ sep # r) sep = Some (s @ [sep])"
  using assms by (simp add: strcut_def findfirst_loop_prefix strcopy_def)

lemma strcut_no_separator [simp]:
  assumes "sep \<notin> set s" and "0 \<notin> set s"
  shows "strcut (s @ 0 # r) sep = Some (s @ [0])"
  using assms by (simp add: strcut_def findfirst_loop_prefix strcopy_def)

section \<open>Comparison and search\<close>

lemma strcmpa_Some_0:
  "strcmpa a b n = Some 0 \<longleftrightarrow> n \<le> length a \<and> n \<le> length b \<and> take n a = take n b"
  by (induction a b n rule: strcmpa.induct) auto

lemma strcmpa_None:
  "strcmpa a b n = None \<longleftrightarrow>
   (length a < n \<or> length b < n) \<and>
   take (min (length a) (length b)) a = take (min (length a) (length b)) b"
  by (induction a b n rule: strcmpa.induct) auto

lemma strcmpa_sign:
  "strcmpa a b n = Some r \<Longrightarrow> r \<noteq> 0 \<Longrightarrow>
   \<exists>i < n. take i a = take i b \<and> a ! i \<noteq> b ! i \<and> (r = 1 \<longleftrightarrow> b ! i <s a ! i) \<and> r \<in> {1, -1}"
proof (induction a b n rule: strcmpa.induct)
  case (2 x a y b n)
  show ?case
  proof (cases "x = y")
    case True
    with 2 obtain i where "i < n" "take i a = take i b" "a ! i \<noteq> b ! i"
      "r = 1 \<longleftrightarrow> b ! i <s a ! i" "r \<in> {1, -1}" by auto
    with True show ?thesis by (intro exI [of _ "Suc i"]) auto
  next
    case False
    with 2 show ?thesis by (intro exI [of _ 0]) (auto split: if_splits)
  qed
qed auto

text \<open>One step of the two nested loops of \<open>strmatch\<close> on the bytes that are left.\<close>

lemma strmatch_loop_Cons:
  assumes "offset + Suc (length xs) = sz"
  shows "strmatch_loop src c n sz offset (x # xs) =
    (if x \<noteq> c then if xs = [] then Some (-1) else strmatch_loop src c n sz (Suc offset) xs
     else (case strcmpa src (x # xs) n of
             None \<Rightarrow> None
           | Some r \<Rightarrow> if r = 0 then Some (int offset)
                       else strmatch_loop src c n sz (Suc offset) xs))"
proof (cases "x = c")
  case True
  then show ?thesis
    using assms skip_to.simps [of c sz offset "x # xs"]
    by (subst strmatch_loop.simps) (auto split: option.splits)
next
  case False
  note skip = skip_to.simps [of c sz offset "x # xs"] skip_to.simps [of c sz sz "[]"]
  show ?thesis
  proof (cases "xs = []")
    case True
    with False assms skip show ?thesis
      by (simp add: strmatch_loop.simps [of src c n sz offset "[x]"])
  next
    case nonempty: False
    then have "Suc offset < sz" using assms by (cases xs) auto
    with False assms skip nonempty show ?thesis
      by (simp add: strmatch_loop.simps [of src c n sz offset "x # xs"]
          strmatch_loop.simps [of src c n sz "Suc offset" xs])
  qed
qed

lemma first_index_upt_Suc:
  "first_index P [0..<Suc n] =
   (if P 0 then Some 0 else map_option Suc (first_index (\<lambda>k. P (Suc k)) [0..<n]))"
proof -
  have "first_index P (map Suc ks) = first_index (\<lambda>k. P (Suc k)) ks" for ks
    by (induction ks) auto
  then show ?thesis
    by (simp add: upt_conv_Cons map_Suc_upt [symmetric] del: upt_Suc)
qed

lemma prefix_iff_take: "prefix s t \<longleftrightarrow> length s \<le> length t \<and> take (length s) t = s"
  by (auto simp: prefix_def) (metis append_take_drop_id)

lemma strcmpa_prefix:
  "strcmpa (s @ q) t (length s) = Some 0 \<longleftrightarrow> prefix s t"
  by (auto simp: strcmpa_Some_0 prefix_iff_take)

lemma strcmpa_overrun:
  "strcmpa (s @ q) t (length s) = None \<longleftrightarrow> \<not> prefix s t \<and> prefix t s"
  by (auto simp: strcmpa_None prefix_iff_take min_def)
     (metis le_neq_implies_less order_refl take_all)

lemma strmatch_loop_first:
  assumes "s \<noteq> []" and "offset + length str = sz" and "str \<noteq> []"
  shows "strmatch_loop (s @ 0 # r) (hd s) (length s) sz offset str =
    (case first_index (\<lambda>k. prefix s (drop k str) \<or> prefix (drop k str) s) [0..<length str] of
       None \<Rightarrow> Some (-1)
     | Some k \<Rightarrow> if prefix s (drop k str) then Some (int (offset + k)) else None)"
  using assms(2,3)
proof (induction str arbitrary: offset)
  case Nil
  then show ?case by simp
next
  case (Cons x xs)
  obtain c s' where s: "s = c # s'" using assms(1) by (cases s) auto
  define P where "P k \<longleftrightarrow> prefix s (drop k (x # xs)) \<or> prefix (drop k (x # xs)) s" for k
  note step = strmatch_loop_Cons [OF Cons.prems(1) [unfolded length_Cons],
      of "s @ 0 # r" "hd s" "length s" x, unfolded strcmpa_prefix]
  have fi: "first_index P [0..<length (x # xs)] =
      (if P 0 then Some 0 else map_option Suc (first_index (\<lambda>k. P (Suc k)) [0..<length xs]))"
    by (simp only: length_Cons first_index_upt_Suc)
  have rest: "(if xs = [] then Some (-1)
        else strmatch_loop (s @ 0 # r) (hd s) (length s) sz (Suc offset) xs) =
      (case map_option Suc (first_index (\<lambda>k. P (Suc k)) [0..<length xs]) of
         None \<Rightarrow> Some (-1)
       | Some k \<Rightarrow> if prefix s (drop k (x # xs)) then Some (int (offset + k)) else None)"
  proof (cases "xs = []")
    case False
    with Cons.IH [of "Suc offset"] Cons.prems
    have "strmatch_loop (s @ 0 # r) (hd s) (length s) sz (Suc offset) xs =
      (case first_index (\<lambda>k. P (Suc k)) [0..<length xs] of
         None \<Rightarrow> Some (-1)
       | Some k \<Rightarrow> if prefix s (drop k xs) then Some (int (Suc offset + k)) else None)"
      by (simp add: P_def)
    with False show ?thesis
      by (cases "first_index (\<lambda>k. P (Suc k)) [0..<length xs]") simp_all
  qed simp
  show ?case
  proof (cases "P 0")
    case True
    then have "x = hd s" by (auto simp: P_def s)
    with True show ?thesis
      using strcmpa_prefix [of s "0 # r" "x # xs"] strcmpa_overrun [of s "0 # r" "x # xs"]
      unfolding P_def [symmetric] fi step by (auto simp: P_def split: option.splits)
  next
    case False
    then have "x = hd s \<Longrightarrow> xs \<noteq> []" by (auto simp: P_def s)
    with False rest show ?thesis
      using strcmpa_prefix [of s "0 # r" "x # xs"] strcmpa_overrun [of s "0 # r" "x # xs"]
      unfolding P_def [symmetric] fi step by (auto simp: P_def split: option.splits)
  qed
qed

lemma strmatch_eq:
  assumes "s \<noteq> []" and "0 \<notin> set s" and "dest \<noteq> []"
  shows "strmatch (s @ 0 # r) dest (length dest) =
    (case first_index (\<lambda>k. prefix s (drop k dest) \<or> prefix (drop k dest) s) [0..<length dest] of
       None \<Rightarrow> Some (-1)
     | Some k \<Rightarrow> if prefix s (drop k dest) then Some (int k) else None)"
proof -
  have "(s @ 0 # r) ! 0 = hd s" using assms(1) by (cases s) auto
  then show ?thesis
    using assms strmatch_loop_first [of s 0 dest "length dest" r] by (simp add: strmatch_def split: option.split)
qed

lemma strmatch_hit:
  assumes "s \<noteq> []" and "0 \<notin> set s" and "prefix s (drop k dest)"
    and "\<And>j. j < k \<Longrightarrow> \<not> prefix s (drop j dest)"
  shows "strmatch (s @ 0 # r) dest (length dest) = Some (int k)"
proof -
  from assms(1,3) have k: "k < length dest" by (cases "k < length dest") auto
  have "\<not> prefix (drop j dest) s" if "j < k" for j
  proof
    assume "prefix (drop j dest) s"
    then have "length dest - j \<le> length s" using prefix_length_le by fastforce
    moreover have "length s \<le> length dest - k" using prefix_length_le [OF assms(3)] by simp
    ultimately show False using that k by simp
  qed
  then have "first_index (\<lambda>k. prefix s (drop k dest) \<or> prefix (drop k dest) s) [0..<length dest]
      = Some k"
    using assms k by (intro first_index_eqI) auto
  with assms k show ?thesis by (subst strmatch_eq) auto
qed

lemma strmatch_miss:
  assumes "s \<noteq> []" and "0 \<notin> set s" and "dest \<noteq> []"
    and "\<And>j. j < length dest \<Longrightarrow> \<not> prefix s (drop j dest) \<and> \<not> prefix (drop j dest) s"
  shows "strmatch (s @ 0 # r) dest (length dest) = Some (-1)"
proof -
  have "first_index (\<lambda>k. prefix s (drop k dest) \<or> prefix (drop k dest) s) [0..<length dest] = None"
    using assms by (auto simp: first_index_None)
  with assms show ?thesis by (simp add: strmatch_eq)
qed

section \<open>Properties\<close>

text \<open>C17: \<open>strmatch\<close> returns a non-negative offset exactly when the NUL-terminated source occurs
  in the buffer, and then it is the offset of the first occurrence; it returns \<open>-1\<close> exactly
  when the source occurs nowhere and no tail of the buffer is a proper prefix of it (in that
  last case the comparison runs past the buffer and the result is undefined).\<close>

theorem strmatch_first_occurrence:
  assumes "s \<noteq> []" and "0 \<notin> set s" and "dest \<noteq> []"
  shows "(strmatch (s @ 0 # r) dest (length dest) = Some (int k) \<longleftrightarrow>
            prefix s (drop k dest) \<and> (\<forall>j. j < k \<longrightarrow> \<not> prefix s (drop j dest))) \<and>
         (strmatch (s @ 0 # r) dest (length dest) = Some (-1) \<longleftrightarrow>
            (\<forall>j. j < length dest \<longrightarrow> \<not> prefix s (drop j dest) \<and> \<not> prefix (drop j dest) s))"
proof (intro conjI iffI)
  assume hit: "strmatch (s @ 0 # r) dest (length dest) = Some (int k)"
  then have "first_index (\<lambda>k. prefix s (drop k dest) \<or> prefix (drop k dest) s) [0..<length dest]
      = Some k" and "prefix s (drop k dest)"
    using assms by (auto simp: strmatch_eq split: option.splits if_splits)
  with first_index_SomeD [OF this(1)]
  show "prefix s (drop k dest)" and "\<forall>j. j < k \<longrightarrow> \<not> prefix s (drop j dest)"
    by auto
next
  assume "prefix s (drop k dest) \<and> (\<forall>j. j < k \<longrightarrow> \<not> prefix s (drop j dest))"
  with assms show "strmatch (s @ 0 # r) dest (length dest) = Some (int k)"
    by (intro strmatch_hit) auto
next
  assume "strmatch (s @ 0 # r) dest (length dest) = Some (-1)"
  then have "first_index (\<lambda>k. prefix s (drop k dest) \<or> prefix (drop k dest) s) [0..<length dest]
      = None"
    using assms by (auto simp: strmatch_eq split: option.splits if_splits)
  then show "\<forall>j. j < length dest \<longrightarrow> \<not> prefix s (drop j dest) \<and> \<not> prefix (drop j dest) s"
    by (auto simp: first_index_None)
next
  assume "\<forall>j. j < length dest \<longrightarrow> \<not> prefix s (drop j dest) \<and> \<not> prefix (drop j dest) s"
  with assms show "strmatch (s @ 0 # r) dest (length dest) = Some (-1)"
    by (intro strmatch_miss) auto
qed

theorem strmatch_first_occurrence_witness:
  "strmatch ([97, 98] @ 0 # []) [97, 99, 97, 98, 5] (length [97, 99, 97, 98, 5 :: u8]) = Some (int 2)"
proof -
  have "prefix [97, 98] (drop 2 [97, 99, 97, 98, 5 :: u8]) \<and>
      (\<forall>j. j < 2 \<longrightarrow> \<not> prefix [97, 98] (drop j [97, 99, 97, 98, 5 :: u8]))"
    by (simp add: numeral_2_eq_2 All_less_Suc)
  then show ?thesis
    using strmatch_first_occurrence [of "[97, 98]" "[97, 99, 97, 98, 5]" "[]" 2, THEN conjunct1]
    by fastforce
qed

text \<open>\<open>strcut\<close> at a separator copies the separator and stores no terminator, so a later
  \<open>strsize\<close> of the result runs off what was stored; without a separator it copies the whole
  string with its terminator.\<close>

theorem strcut_termination:
  assumes "sep \<notin> set s" and "0 \<notin> set s" and "sep \<noteq> 0"
  shows "strcut (s @ sep # r) sep = Some (s @ [sep]) \<and> strsize (s @ [sep]) = None \<and>
         strcut (s @ 0 # r) sep = Some (s @ [0]) \<and> strsize (s @ [0]) = Some (length s)"
  using assms by (auto simp: strcut_at_separator strsize_None)

theorem strcut_termination_witness:
  "strcut [100, 105, 114, 47, 102, 0] 47 = Some [100, 105, 114, 47] \<and>
   strsize [100, 105, 114, 47] = None"
  using strcut_termination [of 47 "[100, 105, 114]" "[102, 0]"] by simp

end
