(* ===== verification/FsDir.thy ===== *)
theory FsDir
  imports FsInit Cstr
begin

text \<open>
  Directories (\<open>file.c\<close>): resolving a path, entering a name in a directory, and the two
  programs that \<open>init_userpro\<close> enters in the root directory.  A path is the byte list from the
  pointer on; its string ends at the first 0.  Local arrays that the C code leaves
  uninitialised are parameters (\<open>fn\<close> for \<open>file_name\<close>).
\<close>

abbreviation slash :: u8 where "slash \<equiv> 47"
abbreviation ROOT_DIR :: "u8 list" where "ROOT_DIR \<equiv> [47, 0]"
abbreviation SHELL_SECTOR :: u32 where "SHELL_SECTOR \<equiv> 357"
abbreviation MYPRO_SECTOR :: u32 where "MYPRO_SECTOR \<equiv> 372"
abbreviation SHELL_BLOCKS :: nat where "SHELL_BLOCKS \<equiv> 15"
abbreviation MYPRO_BLOCKS :: nat where "MYPRO_BLOCKS \<equiv> 15"

section \<open>Resolving a path\<close>

definition getRootDirInode :: "disk \<Rightarrow> inode option" where
  "getRootDirInode d =
     (let sb = read_superBlock d
      in read_inode d (rootdir_inode_block_no sb) (rootdir_inode_offset sb))"

text \<open>The search through the directory's blocks: \<open>i\<close> is the index of the next one, \<open>n\<close> the
  number of blocks left.\<close>

fun seek_blocks :: "disk \<Rightarrow> u8 list \<Rightarrow> u32 list \<Rightarrow> nat \<Rightarrow> nat \<Rightarrow> (int \<times> u8 list) option" where
  "seek_blocks d file_name bnos i 0 = Some (-1, [])"
| "seek_blocks d file_name bnos i (Suc n) =
     (if i < length bnos then do {
        let target_block = k_readsector d (bnos ! i + SUPER_BLOCK_SECTOR);
        offset \<leftarrow> strmatch file_name target_block 512;
        if offset \<noteq> -1 then Some (offset, target_block)
        else seek_blocks d file_name bnos (Suc i) n
      } else None)"

definition dir_blocks :: "inode \<Rightarrow> nat" where
  "dir_blocks iptr = (let blocks = unat (i_size iptr) div BLOCK_SIZE in
     if unat (i_size iptr) mod BLOCK_SIZE > 0 then blocks + 1 else blocks)"

text \<open>
  The first component of the result is the returned value; on success the function ends
  without a \<open>return\<close>, which is \<open>None\<close>.
\<close>

definition seekNextInode :: "disk \<Rightarrow> u8 list \<Rightarrow> inode \<Rightarrow> u8 list \<Rightarrow> (int option \<times> inode) option" where
  "seekNextInode d fn iptr path = do {
     cut \<leftarrow> strcut path slash;
     if FILE_NAME_MAX < length cut then None
     else do {
       let file_name = cut @ drop (length cut) fn;
       (offset, target_block) \<leftarrow> seek_blocks d file_name (block_no iptr) 0 (dir_blocks iptr);
       if offset = -1 then Some (Some (-1), iptr)
       else if nat offset + sizeof_dir_item \<le> length target_block then do {
         let dptr = dir_item_of_bytes (slice target_block (nat offset) sizeof_dir_item);
         iptr' \<leftarrow> read_inode d (d_inode_block_no dptr) (d_inode_offset dptr);
         Some (None, iptr')
       } else None
     }
   }"

text \<open>Copying a path of at most 100 bytes, its 0 included, to the array on the stack.\<close>

definition copy_path :: "u8 list \<Rightarrow> u8 list option" where
  "copy_path path = do {
     n \<leftarrow> strsize path;
     if n + 1 \<le> 100 then Some (take (n + 1) path) else None
   }"

lemma findfirst_loop_ge: "findfirst_loop s sep i = Some (c, k) \<Longrightarrow> i \<le> k"
  by (induction s sep i rule: findfirst_loop.induct) (auto split: if_splits)

lemma findfirstsprt_ge: "findfirstsprt s sep = Some a \<Longrightarrow> a \<noteq> -1 \<Longrightarrow> 0 \<le> a"
  by (auto simp: findfirstsprt_def split: if_splits bind_splits)

text \<open>The loop of \<open>seekFileInode\<close>; \<open>k\<close> counts the iterations.  What \<open>seekNextInode\<close> returns
  is ignored, and the address of \<open>*iptr\<close> is never null.\<close>

function seek_path :: "disk \<Rightarrow> (nat \<Rightarrow> u8 list) \<Rightarrow> nat \<Rightarrow> inode \<Rightarrow> u8 list \<Rightarrow> (int \<times> inode) option" where
  "seek_path d fn k iptr path0 =
     (case path0 of
        [] \<Rightarrow> None
      | c # _ \<Rightarrow>
          if c = 0 then Some (0, iptr)
          else (case seekNextInode d (fn k) iptr path0 of
                  None \<Rightarrow> None
                | Some (_, iptr') \<Rightarrow>
                    (case findfirstsprt path0 slash of
                       None \<Rightarrow> None
                     | Some a \<Rightarrow>
                         if a \<noteq> -1 then seek_path d fn (Suc k) iptr' (drop (nat (a + 1)) path0)
                         else Some (0, iptr'))))"
  by pat_completeness auto
termination
  by (relation "measure (\<lambda>(d, fn, k, iptr, path0). length path0)") (auto dest!: findfirstsprt_ge)

declare seek_path.simps [simp del]

definition seekFileInode :: "disk \<Rightarrow> (nat \<Rightarrow> u8 list) \<Rightarrow> u8 list \<Rightarrow> (int \<times> inode) option" where
  "seekFileInode d fn path = do {
     iptr \<leftarrow> getRootDirInode d;
     path0 \<leftarrow> copy_path path;
     n \<leftarrow> strsize path0;
     r \<leftarrow> strcmpa path0 ROOT_DIR n;
     if r = 0 then Some (0, iptr)
     else do {
       a \<leftarrow> findfirstsprt path0 slash;
       seek_path d fn 0 iptr (drop (nat (a + 1)) path0)
     }
   }"

definition seekBaseDirectory :: "disk \<Rightarrow> (nat \<Rightarrow> u8 list) \<Rightarrow> u8 list \<Rightarrow> (int \<times> inode) option" where
  "seekBaseDirectory d fn path = do {
     path0 \<leftarrow> copy_path path;
     lastsprt \<leftarrow> findlastsprt path0 slash;
     let path1 = (if lastsprt \<noteq> -1 then path0[nat lastsprt := 0] else path0);
     if path1 ! 0 = 0 then do {
       base \<leftarrow> getRootDirInode d;
       Some (0, base)
     } else do {
       (r, base) \<leftarrow> seekFileInode d fn path1;
       Some (if r = -1 then -1 else 0, base)
     }
   }"

section \<open>Entering a name\<close>

text \<open>The loop that skips the directories of a path.\<close>

fun strip_dirs :: "nat \<Rightarrow> u8 list \<Rightarrow> u8 list option" where
  "strip_dirs 0 path0 = Some path0"
| "strip_dirs (Suc n) path0 = do {
     a \<leftarrow> findfirstsprt path0 slash;
     if a \<noteq> -1 then strip_dirs n (drop (nat (a + 1)) path0) else Some path0
   }"

text \<open>The result code, \<open>*base_inode\<close> and the disk after the call.\<close>

definition writeDirectory :: "disk \<Rightarrow> inode \<Rightarrow> u8 list \<Rightarrow> inode \<Rightarrow> (int \<times> inode \<times> disk) option" where
  "writeDirectory d base path iptr = do {
     arr \<leftarrow> copy_path path;
     count \<leftarrow> strcount arr slash;
     path0 \<leftarrow> strip_dirs count arr;
     let index = unat (i_size base) div BLOCK_SIZE;
     let offset = unat (i_size base) mod BLOCK_SIZE;
     (index, offset, base, d) \<leftarrow>
       (if offset + sizeof_dir_item > BLOCK_SIZE then
          let index = index + 1 in
          if index < length (block_no base) then
            (if block_no base ! index = 0
             then do { (_, base', d') \<leftarrow> allocBlock d base; Some (index, 0, base', d') }
             else Some (index, 0, base, d))
          else None
        else Some (index, offset, base, d));
     if index < length (block_no base) then do {
       let dir_block = k_readsector d (block_no base ! index + SUPER_BLOCK_SECTOR);
       let dir_block = splice dir_block (offset + 24) (le32 (my_inode_offset iptr));
       let dir_block = splice dir_block (offset + 20) (le32 (my_inode_block_no iptr));
       n \<leftarrow> strsize path0;
       if offset + n + 1 \<le> BLOCK_SIZE
       then Some (0, base, write_block d (splice dir_block offset (take (n + 1) path0)) (block_no base ! index))
       else None
     } else None
   }"

text \<open>
  A search for free bytes of a block, which nothing calls; \<open>None\<close> is a read outside the block, or the end of \<open>isFree\<close>,
  which has no \<open>return\<close> there.
\<close>

definition isFree :: "u8 list \<Rightarrow> nat \<Rightarrow> int \<Rightarrow> int option" where
  "isFree block start sz =
     (case first_index (\<lambda>b. b \<noteq> 0) (take (nat sz) (drop start block)) of Some _ \<Rightarrow> Some 0 | None \<Rightarrow> None)"

function free_offset_loop :: "u8 list \<Rightarrow> int \<Rightarrow> nat \<Rightarrow> int option" where
  "free_offset_loop block sz offset =
     (if offset < BLOCK_SIZE then do {
        r \<leftarrow> isFree block offset sz;
        if r \<noteq> 0 then Some (int offset) else free_offset_loop block sz (offset + 1)
      } else Some (-1))"
  by pat_completeness auto
termination by (relation "measure (\<lambda>(b, n, i). BLOCK_SIZE - i)") auto

declare free_offset_loop.simps [simp del]

definition getFreeOffsetInBlock :: "u8 list \<Rightarrow> int \<Rightarrow> int option" where
  "getFreeOffsetInBlock blockhead sz = free_offset_loop blockhead sz 0"

section \<open>The two user programs\<close>

text \<open>The loops that fill in a program's blocks and mark them busy; the results are ignored.\<close>

fun fill_blocks :: "u32 \<Rightarrow> nat \<Rightarrow> nat \<Rightarrow> inode \<Rightarrow> disk \<Rightarrow> inode \<times> disk" where
  "fill_blocks first i 0 n d = (n, d)"
| "fill_blocks first i (Suc k) n d =
     (let n' = n\<lparr>block_no := (block_no n)[i := first - SUPER_BLOCK_SECTOR + of_nat i]\<rparr>;
          (_, d') = update_dataBlockBit d (block_no n' ! i) BLOCK_BUSY
      in fill_blocks first (Suc i) k n' d')"

text \<open>\<open>in1\<close>, \<open>in2\<close>: the uninitialised inodes; \<open>stk\<close>: stack bytes.\<close>

definition init_userpro :: "disk \<Rightarrow> u8 list \<Rightarrow> inode \<Rightarrow> inode \<Rightarrow> disk option" where
  "init_userpro d stk in1 in2 = do {
     (_, in_mypro, d) \<leftarrow> allocInode d stk in1;
     (_, in_shell, d) \<leftarrow> allocInode d stk in2;
     let (in_shell, d) = fill_blocks SHELL_SECTOR 0 SHELL_BLOCKS in_shell d;
     let (in_mypro, d) = fill_blocks MYPRO_SECTOR 0 MYPRO_BLOCKS in_mypro d;
     let in_mypro = in_mypro\<lparr>i_mode := REGULAR_FILE\<rparr>;
     let in_shell = in_shell\<lparr>i_mode := i_mode in_mypro\<rparr>;
     d \<leftarrow> writeInode d in_shell;
     d \<leftarrow> writeInode d in_mypro;
     root \<leftarrow> getRootDirInode d;
     (_, root, d) \<leftarrow> writeDirectory d root [47, 115, 104, 101, 108, 108, 0] in_shell;
     let root = root\<lparr>i_size := i_size root + of_nat sizeof_dir_item\<rparr>;
     d \<leftarrow> writeInode d root;
     (_, root, d) \<leftarrow> writeDirectory d root [47, 109, 121, 112, 114, 111, 0] in_mypro;
     let root = root\<lparr>i_size := i_size root + of_nat sizeof_dir_item\<rparr>;
     writeInode d root
   }"

section \<open>Paths\<close>

lemma copy_path_ok [simp]:
  "0 \<notin> set s \<Longrightarrow> length s < 100 \<Longrightarrow> copy_path (s @ 0 # r) = Some (s @ [0])"
  by (simp add: copy_path_def)

text \<open>A file of the root directory: the path is a slash and a name.\<close>

definition plain_name :: "u8 list \<Rightarrow> bool" where
  "plain_name s \<longleftrightarrow> s \<noteq> [] \<and> 0 \<notin> set s \<and> slash \<notin> set s \<and> length s < FILE_NAME_MAX"

lemma copy_path_root: "plain_name s \<Longrightarrow> copy_path (slash # s @ 0 # r) = Some (slash # s @ [0])"
  using copy_path_ok [of "slash # s" r] by (simp add: plain_name_def)

lemma strsize_root: "plain_name s \<Longrightarrow> strsize (slash # s @ 0 # r) = Some (Suc (length s))"
  by (simp add: plain_name_def)

lemma strcount_none: "0 \<notin> set s \<Longrightarrow> c \<notin> set s \<Longrightarrow> strcount (s @ 0 # r) c = Some 0"
  by (induction s) auto

lemma strip_dirs_root:
  "plain_name s \<Longrightarrow> strcount (slash # s @ [0]) slash = Some 1 \<and> strip_dirs 1 (slash # s @ [0]) = Some (s @ [0])"
  using findfirstsprt_found [of slash "[]" "s @ [0]"] strcount_none [of s slash "[]"]
  by (simp add: plain_name_def)

lemma findfirst_root: "plain_name s \<Longrightarrow> findfirstsprt (slash # s @ r) slash = Some 0"
  using findfirstsprt_found [of slash "[]" "s @ r"] by simp

lemma strcmpa_root: "plain_name s \<Longrightarrow> \<exists>r. strcmpa (slash # s @ [0]) ROOT_DIR (Suc (length s)) = Some r \<and> r \<noteq> 0"
proof -
  assume "plain_name s"
  then obtain c cs where "s = c # cs" "c \<noteq> 0" by (cases s) (auto simp: plain_name_def)
  then show ?thesis by simp
qed

text \<open>Resolving it is one step from the root directory; the base directory is the root.\<close>

lemma seekFileInode_root:
  assumes "plain_name s" and "getRootDirInode d = Some root"
  shows "seekFileInode d fn (slash # s @ 0 # r)
    = map_option (\<lambda>(_, n). (0, n)) (seekNextInode d (fn 0) root (s @ [0]))"
proof -
  obtain c cs where c: "s = c # cs" "c \<noteq> 0" using assms(1) by (cases s) (auto simp: plain_name_def)
  have ff: "findfirstsprt (s @ [0]) slash = Some (-1)"
    using assms(1) by (simp add: plain_name_def)
  have path: "seek_path d fn 0 root (s @ [0])
      = map_option (\<lambda>(_, n). (0, n)) (seekNextInode d (fn 0) root (s @ [0]))"
    using c ff by (subst seek_path.simps) (auto split: option.split)
  obtain r where "strcmpa (slash # s @ [0]) ROOT_DIR (Suc (length s)) = Some r" "r \<noteq> 0"
    using strcmpa_root [OF assms(1)] by blast
  then show ?thesis
    using assms findfirst_root [OF assms(1), of "[0]"] path strsize_root [OF assms(1), of "[]"]
    by (simp add: seekFileInode_def copy_path_root del: strsize.simps strcmpa.simps)
qed

lemma seekFileInode_slash: "seekFileInode d fn (slash # 0 # r) = map_option (Pair 0) (getRootDirInode d)"
  using copy_path_ok [of "[slash]" r]
  by (cases "getRootDirInode d") (simp_all add: seekFileInode_def)

lemma seekBaseDirectory_root:
  assumes "plain_name s"
  shows "seekBaseDirectory d fn (slash # s @ 0 # r) = map_option (Pair 0) (getRootDirInode d)"
proof -
  have "findlastsprt ([] @ slash # s @ 0 # []) slash = Some (int (length ([] :: u8 list)))"
    using assms by (intro findlastsprt_found) (auto simp: plain_name_def)
  then show ?thesis
    using assms by (cases "getRootDirInode d") (simp_all add: seekBaseDirectory_def copy_path_root)
qed

section \<open>One directory entry\<close>

lemma splice_entry:
  assumes "off + 28 \<le> length b" and "length x = 4" and "length y = 4" and "length z \<le> 20"
  shows "splice (splice (splice b (off + 24) x) (off + 20) y) off z
    = splice b off (z @ slice b (off + length z) (20 - length z) @ y @ x)"
  using assms by (intro nth_equalityI) (auto simp: nth_splice nth_slice nth_append add.commute)

text \<open>The entry that \<open>writeDirectory\<close> makes for a plain name, over the bytes \<open>old\<close>.\<close>

definition new_entry :: "u8 list \<Rightarrow> inode \<Rightarrow> u8 list \<Rightarrow> dir_item" where
  "new_entry name n old = \<lparr>d_name = name @ 0 # slice old (length name + 1) (19 - length name),
     d_inode_block_no = my_inode_block_no n, d_inode_offset = my_inode_offset n\<rparr>"

lemma wf_new_entry [simp]: "length name < 20 \<Longrightarrow> 20 \<le> length old \<Longrightarrow> wf_dir_item (new_entry name n old)"
  by (simp add: wf_dir_item_def new_entry_def)

lemma writeDirectory_root:
  assumes "plain_name s" and "disk_ok d"
    and "unat (i_size base) mod BLOCK_SIZE + sizeof_dir_item \<le> BLOCK_SIZE"
    and "unat (i_size base) div BLOCK_SIZE < length (block_no base)"
  shows "writeDirectory d base (slash # s @ 0 # r) n = Some (0, base,
     (let b = block_no base ! (unat (i_size base) div BLOCK_SIZE); off = unat (i_size base) mod BLOCK_SIZE
      in blocks.patch d b off
           (dir_item_bytes (new_entry s n (drop off (read_block d b))))))"
proof -
  let ?b = "block_no base ! (unat (i_size base) div BLOCK_SIZE)"
  let ?off = "unat (i_size base) mod BLOCK_SIZE"
  have s: "length s < 20" "0 \<notin> set s" using assms(1) by (simp_all add: plain_name_def)
  have e: "splice (splice (splice (read_block d ?b) (?off + 24) (le32 (my_inode_offset n))) (?off + 20)
      (le32 (my_inode_block_no n))) ?off (s @ [0])
    = splice (read_block d ?b) ?off (dir_item_bytes (new_entry s n (drop ?off (read_block d ?b))))"
    using assms(2,3) s
    by (subst splice_entry)
       (auto simp: dir_item_bytes_def new_entry_def slice_def add.commute add.left_commute)
  show ?thesis
    using assms s e strip_dirs_root [OF assms(1)]
    by (simp add: writeDirectory_def copy_path_root blocks.patch_def Let_def)
qed

section \<open>Looking a name up\<close>

lemma seek_blocks_hit:
  "\<lbrakk> i \<le> idx; idx < i + n; idx < length bnos;
     \<And>j. i \<le> j \<Longrightarrow> j < idx \<Longrightarrow> strmatch f (read_block d (bnos ! j)) 512 = Some (-1);
     strmatch f (read_block d (bnos ! idx)) 512 = Some (int k) \<rbrakk> \<Longrightarrow>
   seek_blocks d f bnos i n = Some (int k, read_block d (bnos ! idx))"
proof (induction n arbitrary: i)
  case 0
  then show ?case by simp
next
  case (Suc n)
  show ?case
  proof (cases "i = idx")
    case True
    with Suc.prems show ?thesis by simp
  next
    case False
    with Suc.prems have "strmatch f (read_block d (bnos ! i)) 512 = Some (-1)" by simp
    with False Suc show ?thesis by simp
  qed
qed

lemma seek_blocks_miss:
  "\<lbrakk> i + n \<le> length bnos;
     \<And>j. i \<le> j \<Longrightarrow> j < i + n \<Longrightarrow> strmatch f (read_block d (bnos ! j)) 512 = Some (-1) \<rbrakk> \<Longrightarrow>
   \<exists>blk. seek_blocks d f bnos i n = Some (-1, blk)"
  by (induction n arbitrary: i) auto

lemma file_name_cut:
  "plain_name s \<Longrightarrow> strcut (s @ 0 # r) slash = Some (s @ [0]) \<and> length (s @ [0]) \<le> FILE_NAME_MAX"
  by (simp add: plain_name_def)

lemma seekNextInode_hit:
  assumes "plain_name s" and "disk_ok d" and "idx < length (block_no base)" and "idx < dir_blocks base"
    and "\<And>j. j < idx \<Longrightarrow> strmatch (s @ 0 # drop (length s + 1) fn) (read_block d (block_no base ! j)) 512 = Some (-1)"
    and "strmatch (s @ 0 # drop (length s + 1) fn) (read_block d (block_no base ! idx)) 512 = Some (int off)"
    and "off + sizeof_dir_item \<le> 512"
    and "dir_item_of_bytes (slice (read_block d (block_no base ! idx)) off sizeof_dir_item) = e"
  shows "seekNextInode d fn base (s @ 0 # r)
    = map_option (Pair None) (read_inode d (d_inode_block_no e) (d_inode_offset e))"
proof -
  have "seek_blocks d (s @ 0 # drop (length s + 1) fn) (block_no base) 0 (dir_blocks base)
      = Some (int off, read_block d (block_no base ! idx))"
    using assms by (intro seek_blocks_hit) auto
  then show ?thesis
    using assms file_name_cut [OF assms(1), of r]
    by (cases "read_inode d (d_inode_block_no e) (d_inode_offset e)") (simp_all add: seekNextInode_def)
qed

lemma seekNextInode_miss:
  assumes "plain_name s" and "dir_blocks base \<le> length (block_no base)"
    and "\<And>j. j < dir_blocks base \<Longrightarrow>
      strmatch (s @ 0 # drop (length s + 1) fn) (read_block d (block_no base ! j)) 512 = Some (-1)"
  shows "seekNextInode d fn base (s @ 0 # r) = Some (Some (-1), base)"
proof -
  obtain blk where "seek_blocks d (s @ 0 # drop (length s + 1) fn) (block_no base) 0 (dir_blocks base)
      = Some (-1, blk)"
    using seek_blocks_miss [of 0 "dir_blocks base" "block_no base" "s @ 0 # drop (length s + 1) fn" d] assms(2,3)
    by auto
  then show ?thesis
    using file_name_cut [OF assms(1), of r] by (simp add: seekNextInode_def)
qed

lemma dir_blocks_grow:
  assumes "unat (i_size base) mod BLOCK_SIZE + sizeof_dir_item \<le> BLOCK_SIZE"
    and "unat (i_size base) + sizeof_dir_item < 2 ^ 32"
  shows "dir_blocks (base\<lparr>i_size := i_size base + of_nat sizeof_dir_item\<rparr>)
    = unat (i_size base) div BLOCK_SIZE + 1"
proof -
  have "unat (i_size base + 28) = unat (i_size base) + 28"
    using assms(2) by (subst unat_add_small) simp_all
  moreover have "(if (m + 28) mod 512 > 0 then (m + 28) div 512 + 1 else (m + 28) div 512) = m div 512 + 1"
    if "m mod 512 + 28 \<le> 512" for m :: nat
  proof (cases "m mod 512 + 28 = 512")
    case True
    then obtain q where q: "m + 28 = 512 * q" "m div 512 + 1 = q" by (metis add.assoc mult_div_mod_eq mult.right_neutral distrib_left)
    then have "(m + 28) mod 512 = 0" "(m + 28) div 512 = q" by simp_all
    with q(2) show ?thesis by simp
  next
    case False
    with that have "m + 28 = 512 * (m div 512) + (m mod 512 + 28)" "m mod 512 + 28 < 512" by simp_all
    then have "(m + 28) mod 512 = m mod 512 + 28" "(m + 28) div 512 = m div 512"
      by (metis mod_mult_self4 mod_less, metis div_mult_self4 div_less add_0_right zero_neq_numeral)
    then show ?thesis by simp
  qed
  ultimately show ?thesis using assms(1) by (simp add: dir_blocks_def Let_def)
qed

text \<open>The entry that was written can be looked up.\<close>

lemma seek_after_write:
  assumes "plain_name s" and "disk_ok d" and "wf_inode base"
    and "i_size base = of_nat (idx * 512 + off)" and "off + sizeof_dir_item \<le> 512" and "idx < 20"
    and "small_block (block_no base ! idx)"
    and "\<And>j. j < idx \<Longrightarrow> small_block (block_no base ! j) \<and> block_no base ! j \<noteq> block_no base ! idx \<and>
      strmatch (s @ 0 # drop (length s + 1) fn) (read_block d (block_no base ! j)) 512 = Some (-1)"
    and "writeDirectory d base (slash # s @ 0 # r) n = Some (0, base, d')"
    and "\<And>j. j < off \<Longrightarrow> \<not> prefix s (drop j (read_block d' (block_no base ! idx)))"
  shows "seekNextInode d' fn (base\<lparr>i_size := i_size base + of_nat sizeof_dir_item\<rparr>) (s @ 0 # r')
    = map_option (Pair None) (read_inode d' (my_inode_block_no n) (my_inode_offset n)) \<and>
    disk_ok d' \<and>
    slice (read_block d' (block_no base ! idx)) off sizeof_dir_item
      = dir_item_bytes (new_entry s n (drop off (read_block d (block_no base ! idx)))) \<and>
    (\<forall>o2 m. o2 + m \<le> 512 \<longrightarrow> o2 + m \<le> off \<or> off + 28 \<le> o2 \<longrightarrow>
       slice (read_block d' (block_no base ! idx)) o2 m = slice (read_block d (block_no base ! idx)) o2 m) \<and>
    (\<forall>c. small_block c \<longrightarrow> c \<noteq> block_no base ! idx \<longrightarrow> read_block d' c = read_block d c)"
proof -
  let ?b = "block_no base ! idx"
  let ?e = "new_entry s n (drop off (read_block d ?b))"
  let ?base = "base\<lparr>i_size := i_size base + of_nat sizeof_dir_item\<rparr>"
  have "idx * 512 + off < 2 ^ 32" using assms(5,6) by simp
  then have u: "unat (i_size base) = idx * 512 + off"
    unfolding assms(4) by (rule unat_of_nat32)
  have dm: "unat (i_size base) div 512 = idx" "unat (i_size base) mod 512 = off"
    using assms(5) by (simp_all add: u)
  have len: "length (block_no base) = 20" using assms(3) by (simp add: wf_inode_def)
  have s: "length s < 20" "0 \<notin> set s" "s \<noteq> []" using assms(1) by (simp_all add: plain_name_def)
  have wf: "wf_dir_item ?e" using s assms(2,5) by simp
  have d': "d' = blocks.patch d ?b off (dir_item_bytes ?e)"
    using writeDirectory_root [OF assms(1,2), of base r n] assms(5,6,9) dm len by (simp add: Let_def)
  have le: "length (dir_item_bytes ?e) = 28" by (rule dir_codec.enc_len [OF wf])
  have rd: "slice (read_block d' ?b) off 28 = dir_item_bytes ?e"
    using blocks.rd_patch [of d off "dir_item_bytes ?e" ?b ?b] assms(2,5) le by (simp add: d')
  have ok: "disk_ok d'" using assms(2,5) le by (simp add: d' blocks.ok_patch)
  have other: "read_block d' c = read_block d c" if "small_block c" "c \<noteq> ?b" for c
    using blocks.rd_patch_other [OF assms(2)] assms(5,7) le that by (simp add: d')
  have elsewhere: "slice (read_block d' ?b) o2 m = slice (read_block d ?b) o2 m"
    if "o2 + m \<le> 512" "o2 + m \<le> off \<or> off + 28 \<le> o2" for o2 m
    using blocks.rd_patch_elsewhere [OF assms(2)] assms(5) le that by (simp add: d')
  have pre: "prefix s (drop off (read_block d' ?b))"
  proof -
    have "prefix s (dir_item_bytes ?e)" by (simp add: dir_item_bytes_def new_entry_def)
    with rd show ?thesis by (metis prefix_order.trans slice_def take_is_prefix)
  qed
  have hit: "strmatch (s @ 0 # drop (length s + 1) fn) (read_block d' ?b) 512 = Some (int off)"
    using strmatch_hit [OF s(3,2) pre] assms(10) ok by simp
  have "seekNextInode d' fn ?base (s @ 0 # r')
      = map_option (Pair None) (read_inode d' (d_inode_block_no ?e) (d_inode_offset ?e))"
  proof (rule seekNextInode_hit [OF assms(1) ok, where idx = idx])
    show "idx < length (block_no ?base)" using len assms(6) by simp
    have "unat (i_size base) + 28 < 2 ^ 32" using u assms(5,6) by simp
    then show "idx < dir_blocks ?base" using dir_blocks_grow [of base] assms(5) dm by simp
    show "strmatch (s @ 0 # drop (length s + 1) fn) (read_block d' (block_no ?base ! j)) 512 = Some (-1)"
      if "j < idx" for j
      using assms(8) [OF that] other by simp
    show "strmatch (s @ 0 # drop (length s + 1) fn) (read_block d' (block_no ?base ! idx)) 512 = Some (int off)"
      using hit by simp
    show "off + 28 \<le> 512" by (rule assms(5))
    show "dir_item_of_bytes (slice (read_block d' (block_no ?base ! idx)) off 28) = ?e"
      using rd dir_codec.dec_enc [OF wf] by simp
  qed
  then show ?thesis
    using ok rd other elsewhere by (simp add: new_entry_def)
qed

text \<open>
  C14: a name that \<open>writeDirectory\<close> enters at the end of a directory (in a data block that has
  room for it), and that occurs nowhere before that place, is found by \<open>seekNextInode\<close> once the
  directory's size counts the entry: it yields the inode the entry was made for.  The other
  blocks of the disk are unchanged.
\<close>

theorem writeDirectory_seekNextInode:
  assumes "plain_name s" and "disk_ok d" and "wf_inode base"
    and "i_size base = of_nat (idx * 512 + off)" and "off + sizeof_dir_item \<le> 512" and "idx < 20"
    and "small_block (block_no base ! idx)"
    and "\<And>j. j < idx \<Longrightarrow> small_block (block_no base ! j) \<and> block_no base ! j \<noteq> block_no base ! idx \<and>
      strmatch (s @ 0 # drop (length s + 1) fn) (read_block d (block_no base ! j)) 512 = Some (-1)"
    and "writeDirectory d base (slash # s @ 0 # r) n = Some (0, base, d')"
    and "\<And>j. j < off \<Longrightarrow> \<not> prefix s (drop j (read_block d' (block_no base ! idx)))"
    and "my_inode_block_no n \<noteq> block_no base ! idx" and "small_block (my_inode_block_no n)"
    and "read_inode d (my_inode_block_no n) (my_inode_offset n) = Some m"
  shows "seekNextInode d' fn (base\<lparr>i_size := i_size base + of_nat sizeof_dir_item\<rparr>) (s @ 0 # r')
      = Some (None, m) \<and>
    (\<forall>c. small_block c \<longrightarrow> c \<noteq> block_no base ! idx \<longrightarrow> read_block d' c = read_block d c)"
proof -
  note w = seek_after_write [where r' = r', OF assms(1-10)]
  have "read_inode d' (my_inode_block_no n) (my_inode_offset n) = Some m"
    using w assms(11-13) read_inode_cong by metis
  with w show ?thesis by simp
qed

theorem writeDirectory_seekNextInode_witness:
  "\<exists>d'. writeDirectory (sample_disk 7) ((inode_of_bytes [])\<lparr>block_no := 56 # replicate 19 0, i_size := 0\<rparr>)
      (slash # [97] @ 0 # []) ((inode_of_bytes [])\<lparr>my_inode_block_no := 1, my_inode_offset := 116\<rparr>)
      = Some (0, (inode_of_bytes [])\<lparr>block_no := 56 # replicate 19 0, i_size := 0\<rparr>, d') \<and>
    seekNextInode d' (replicate 20 9) ((inode_of_bytes [])\<lparr>block_no := 56 # replicate 19 0, i_size := 28\<rparr>)
      ([97] @ 0 # []) = Some (None, inode_of_bytes (replicate 116 0))"
proof -
  let ?base = "(inode_of_bytes [])\<lparr>block_no := 56 # replicate 19 0, i_size := 0\<rparr>"
  let ?n = "(inode_of_bytes [])\<lparr>my_inode_block_no := 1, my_inode_offset := 116\<rparr>"
  have nm: "plain_name [97]" by (simp add: plain_name_def)
  have ok: "disk_ok (sample_disk 7)" by (simp add: sample_disk_ok)
  obtain d' where w: "writeDirectory (sample_disk 7) ?base (slash # [97] @ 0 # []) ?n = Some (0, ?base, d')"
    using writeDirectory_root [OF nm ok, of ?base "[]" ?n] by simp
  have "read_inode (sample_disk 7) 1 116 = Some (inode_of_bytes (replicate 116 0))"
    by (simp add: read_inode_block sample_disk_block) (simp add: sample_disk_def slice_def)
  then show ?thesis
    using writeDirectory_seekNextInode [OF nm ok, of ?base 0 0 "replicate 20 9" "[]" ?n d'
        "inode_of_bytes (replicate 116 0)" "[]"] w
    by (simp add: wf_inode_def small_block_def)
qed

text \<open>
  C18: a name that no block of the root directory contains is not reported as missing:
  \<open>seekFileInode\<close> ignores what \<open>seekNextInode\<close> returns and answers 0 with the inode of the
  directory itself, so \<open>open\<close> of a missing file opens the root directory.
\<close>

theorem seekFileInode_missing:
  assumes "plain_name s" and "getRootDirInode d = Some root"
    and "dir_blocks root \<le> length (block_no root)"
    and "\<And>j. j < dir_blocks root \<Longrightarrow>
      strmatch (s @ 0 # drop (length s + 1) (fn 0)) (read_block d (block_no root ! j)) 512 = Some (-1)"
  shows "seekNextInode d (fn 0) root (s @ [0]) = Some (Some (-1), root) \<and>
    seekFileInode d fn (slash # s @ 0 # r) = Some (0, root)"
  using seekNextInode_miss [OF assms(1,3,4), of "[]"] seekFileInode_root [OF assms(1,2), of fn r]
  by simp

theorem seekFileInode_missing_witness:
  "seekFileInode (sample_disk 7) (\<lambda>_. replicate 20 9) (slash # [97, 98] @ 0 # [])
    = Some (0, inode_of_bytes (replicate 116 0))"
proof -
  have "getRootDirInode (sample_disk 7) = Some (inode_of_bytes (replicate 116 0))"
    by (simp add: getRootDirInode_def sample_disk_sb read_inode_block sample_disk_block)
       (simp add: sample_disk_def slice_def)
  moreover have "i_size (inode_of_bytes (replicate 116 0)) = 0"
    by (simp add: inode_of_bytes_def numeral_eq_Suc rd32.simps)
  ultimately show ?thesis
    using seekFileInode_missing [of "[97, 98]" "sample_disk 7" "inode_of_bytes (replicate 116 0)"
        "\<lambda>_. replicate 20 9" "[]"]
    by (simp add: plain_name_def dir_blocks_def)
qed

section \<open>The second block of a directory\<close>

lemma writeDirectory_next_block:
  assumes "plain_name s" and "disk_ok d"
    and "BLOCK_SIZE < unat (i_size base) mod BLOCK_SIZE + sizeof_dir_item"
    and "unat (i_size base) div BLOCK_SIZE + 1 < length (block_no base)"
    and "block_no base ! (unat (i_size base) div BLOCK_SIZE + 1) \<noteq> 0"
  shows "writeDirectory d base (slash # s @ 0 # r) n = Some (0, base,
     (let b = block_no base ! (unat (i_size base) div BLOCK_SIZE + 1)
      in blocks.patch d b 0 (dir_item_bytes (new_entry s n (read_block d b)))))"
proof -
  let ?b = "block_no base ! (unat (i_size base) div BLOCK_SIZE + 1)"
  have s: "length s < 20" "0 \<notin> set s" using assms(1) by (simp_all add: plain_name_def)
  have e: "splice (splice (splice (read_block d ?b) (0 + 24) (le32 (my_inode_offset n))) (0 + 20)
      (le32 (my_inode_block_no n))) 0 (s @ [0])
    = splice (read_block d ?b) 0 (dir_item_bytes (new_entry s n (read_block d ?b)))"
    using assms(2) s
    by (subst splice_entry) (auto simp: dir_item_bytes_def new_entry_def)
  show ?thesis
    using assms s e strip_dirs_root [OF assms(1)]
    by (simp add: writeDirectory_def copy_path_root blocks.patch_def Let_def)
qed

lemma rd32_prefix: "4 \<le> length t \<Longrightarrow> rd32 (t @ r) = rd32 t"
  by (cases t rule: rd32.cases) (auto simp: rd32.simps)

text \<open>
  C19: a block holds 18 entries and leaves 8 bytes over, which the size of the directory does not
  count.  So the entry after the 19th is not placed behind it but 8 bytes too early: its name
  overwrites the inode number of the 19th, which then reads as eight characters of that name.
\<close>

theorem writeDirectory_entry_20_clobbers_19:
  assumes "plain_name s" and "plain_name t" and "8 \<le> length t" and "disk_ok d" and "wf_inode base"
    and "i_size base = of_nat (18 * sizeof_dir_item)" and "block_no base ! 1 = b" and "b \<noteq> 0"
  shows "\<exists>d1 d2. writeDirectory d base (slash # s @ 0 # r) n = Some (0, base, d1) \<and>
    dir_item_of_bytes (slice (read_block d1 b) 0 sizeof_dir_item) = new_entry s n (read_block d b) \<and>
    writeDirectory d1 (base\<lparr>i_size := i_size base + of_nat sizeof_dir_item\<rparr>) (slash # t @ 0 # r) m
      = Some (0, base\<lparr>i_size := i_size base + of_nat sizeof_dir_item\<rparr>, d2) \<and>
    (let e = dir_item_of_bytes (slice (read_block d2 b) 0 sizeof_dir_item)
     in d_name e = d_name (new_entry s n (read_block d b)) \<and>
        d_inode_block_no e = rd32 (take 4 t) \<and> d_inode_offset e = rd32 (take 4 (drop 4 t)))"
proof -
  let ?base = "base\<lparr>i_size := i_size base + of_nat sizeof_dir_item\<rparr>"
  let ?e = "new_entry s n (read_block d b)"
  let ?d1 = "blocks.patch d b 0 (dir_item_bytes ?e)"
  have len: "length (block_no base) = 20" using assms(5) by (simp add: wf_inode_def)
  have w1: "writeDirectory d base (slash # s @ 0 # r) n = Some (0, base, ?d1)"
    using writeDirectory_next_block [OF assms(1,4), of base r n] len assms(6-8) by simp
  have wf: "wf_dir_item ?e" using assms(1,4) by (simp add: plain_name_def)
  have le: "length (dir_item_bytes ?e) = 28" by (rule dir_codec.enc_len [OF wf])
  have ok: "disk_ok ?d1" using assms(4) le by (simp add: blocks.ok_patch)
  have rd1: "slice (read_block ?d1 b) 0 28 = dir_item_bytes ?e"
    using blocks.rd_patch [of d 0 "dir_item_bytes ?e" b b] assms(4) le by simp
  let ?f = "new_entry t m (drop 20 (read_block ?d1 b))"
  let ?d2 = "blocks.patch ?d1 b 20 (dir_item_bytes ?f)"
  have w2: "writeDirectory ?d1 ?base (slash # t @ 0 # r) m = Some (0, ?base, ?d2)"
    using writeDirectory_root [OF assms(2) ok, of ?base r m] len assms(6,7) by simp
  have wf2: "wf_dir_item ?f" using assms(2) ok by (simp add: plain_name_def)
  have le2: "length (dir_item_bytes ?f) = 28" by (rule dir_codec.enc_len [OF wf2])
  have pre: "slice (read_block ?d2 b) 0 20 = slice (read_block ?d1 b) 0 20"
    using blocks.rd_patch_elsewhere [OF ok] le2 by simp
  have new: "slice (read_block ?d2 b) 20 28 = dir_item_bytes ?f"
    using blocks.rd_patch [of ?d1 20 "dir_item_bytes ?f" b b] ok le2 by simp
  obtain u where u: "dir_item_bytes ?f = t @ u" by (simp add: dir_item_bytes_def new_entry_def)
  have t8: "take 8 (dir_item_bytes ?f) = take 8 t" using assms(3) u by simp
  have "slice (read_block ?d2 b) 20 8 = take 8 (slice (read_block ?d2 b) 20 28)"
    by (rule slice_shorter) simp
  also have "\<dots> = take 8 t" by (simp only: new t8)
  finally have mid: "slice (read_block ?d2 b) 20 8 = take 8 t" .
  have wfl: "length (d_name ?e) = 20" using wf by (simp add: wf_dir_item_def)
  have "slice (read_block ?d1 b) 0 20 = take 20 (slice (read_block ?d1 b) 0 28)"
    by (rule slice_shorter) simp
  also have "\<dots> = d_name ?e" unfolding rd1 using wfl by (simp add: dir_item_bytes_def)
  finally have nm: "slice (read_block ?d1 b) 0 20 = d_name ?e" .
  have "slice (read_block ?d2 b) 0 28 = d_name ?e @ take 8 t"
    using slice_add [of "read_block ?d2 b" 0 20 8] 
    by (simp only: pre nm mid add_0_left) simp
  then have "dir_item_of_bytes (slice (read_block ?d2 b) 0 28)
      = \<lparr>d_name = d_name ?e, d_inode_block_no = rd32 (take 4 t), d_inode_offset = rd32 (take 4 (drop 4 t))\<rparr>"
    using wfl assms(3) by (simp add: dir_item_of_bytes_def rd32_take drop_take)
  moreover have "dir_item_of_bytes (slice (read_block ?d1 b) 0 28) = ?e"
    using rd1 dir_codec.dec_enc [OF wf] by simp
  ultimately show ?thesis
    using w1 w2 by (intro exI [of _ ?d1] exI [of _ ?d2]) (simp add: Let_def)
qed

theorem writeDirectory_clobbers_witness:
  "\<exists>d2. writeDirectory d2 ((inode_of_bytes [])\<lparr>block_no := 56 # 57 # replicate 18 0, i_size := 532\<rparr>)
      (slash # [98, 98, 98, 98, 98, 98, 98, 98] @ 0 # []) (inode_of_bytes []) \<noteq> None"
  using writeDirectory_entry_20_clobbers_19 [of "[97]" "[98, 98, 98, 98, 98, 98, 98, 98]" "sample_disk 7"
      "(inode_of_bytes [])\<lparr>block_no := 56 # 57 # replicate 18 0, i_size := 504\<rparr>" 57 "[]" "inode_of_bytes []" "inode_of_bytes []"]
  by (auto simp: plain_name_def sample_disk_ok wf_inode_def)

section \<open>The user programs on the formatted disk\<close>

lemma fill_blocks_props:
  assumes "disk_ok d" and "unat (first - SUPER_BLOCK_SECTOR) = c" and "c + i + k \<le> 701"
    and "i + k \<le> length (block_no n)"
    and "\<And>j. i \<le> j \<Longrightarrow> j < i + k \<Longrightarrow> c + j \<notin> busy_blocks d"
  shows "\<exists>d'. fill_blocks first i k n d =
      (n\<lparr>block_no := take i (block_no n) @ map (\<lambda>j. of_nat (c + j)) [i..<i + k] @ drop (i + k) (block_no n)\<rparr>, d') \<and>
    disk_ok d' \<and> busy_blocks d' = busy_blocks d \<union> (\<lambda>j. c + j) ` {i..<i + k} \<and>
    (\<forall>b. small_block b \<longrightarrow> b \<noteq> first_bitmap \<longrightarrow> read_block d' b = read_block d b)"
  using assms
proof (induction k arbitrary: i n d)
  case 0
  then show ?case by simp
next
  case (Suc k)
  let ?n = "n\<lparr>block_no := (block_no n)[i := of_nat (c + i)]\<rparr>"
  have "first - SUPER_BLOCK_SECTOR = of_nat c" by (simp flip: Suc.prems(2))
  then have b: "first - SUPER_BLOCK_SECTOR + of_nat i = of_nat (c + i)" by simp
  have "c + i \<le> 700" "c + i \<notin> busy_blocks d" using Suc.prems(3,5) by simp_all
  from update_dataBlockBit_busy [OF Suc.prems(1) this] obtain d1 where
    d1: "update_dataBlockBit d (of_nat (c + i)) BLOCK_BUSY = (0, d1)" "disk_ok d1"
      "busy_blocks d1 = insert (c + i) (busy_blocks d)"
      "\<And>b. small_block b \<Longrightarrow> b \<noteq> first_bitmap \<Longrightarrow> read_block d1 b = read_block d b" by blast
  have step: "fill_blocks first i (Suc k) n d = fill_blocks first (Suc i) k ?n d1"
    using d1(1) Suc.prems(4) unfolding fill_blocks.simps b by simp
  have "c + j \<notin> busy_blocks d1" if "Suc i \<le> j" "j < Suc i + k" for j
    using Suc.prems(5) [of j] that d1(3) by simp
  from Suc.IH [OF d1(2) Suc.prems(2) _ _ this, of "Suc i" ?n] Suc.prems(3,4) obtain d2 where
    d2: "fill_blocks first (Suc i) k ?n d1 =
      (?n\<lparr>block_no := take (Suc i) (block_no ?n) @ map (\<lambda>j. of_nat (c + j)) [Suc i..<Suc i + k] @
         drop (Suc i + k) (block_no ?n)\<rparr>, d2)" "disk_ok d2"
      "busy_blocks d2 = busy_blocks d1 \<union> (\<lambda>j. c + j) ` {Suc i..<Suc i + k}"
      "\<And>b. small_block b \<Longrightarrow> b \<noteq> first_bitmap \<Longrightarrow> read_block d2 b = read_block d1 b" by auto
  have "take (Suc i) (block_no ?n) @ map (\<lambda>j. of_nat (c + j)) [Suc i..<Suc i + k] @ drop (Suc i + k) (block_no ?n)
      = take i (block_no n) @ map (\<lambda>j. of_nat (c + j)) [i..<i + Suc k] @ drop (i + Suc k) (block_no n)"
    using Suc.prems(4) by (simp add: take_Suc_conv_app_nth upt_conv_Cons del: upt_Suc)
  moreover have "{i..<i + Suc k} = insert i {Suc i..<Suc i + k}" by auto
  ultimately show ?case
    using step d2 d1(3,4) by (simp del: upt_Suc of_nat_add)
qed

text \<open>Slots 0 to 2 of inode block 1 hold the inodes of the root, of \<open>mypro\<close> and of \<open>shell\<close>.\<close>

abbreviation low_slots :: "u32 set" where "low_slots \<equiv> {0, 116, 232}"

lemma writeInode_low:
  assumes "disk_ok d" and "wf_inode n" and "my_inode_block_no n = 1" and "my_inode_offset n \<in> low_slots"
  obtains d' where "writeInode d n = Some d'" and "disk_ok d'"
    and "\<And>o2. o2 \<in> low_slots \<Longrightarrow> read_inode d' 1 o2 = (if o2 = my_inode_offset n then Some n else read_inode d 1 o2)"
    and "\<And>c. small_block c \<Longrightarrow> c \<noteq> 1 \<Longrightarrow> read_block d' c = read_block d c"
proof -
  obtain d' where w: "writeInode d n = Some d'" using assms(4) by (auto simp: writeInode_def)
  have "read_inode d' 1 o2 = (if o2 = my_inode_offset n then Some n else read_inode d 1 o2)"
    if "o2 \<in> low_slots" for o2
    using writeInode_read [OF w assms(2,1)] writeInode_read_other [OF w assms(2,1), of 1 o2] assms(3,4) that
    by auto
  moreover have "read_block d' c = read_block d c" if "small_block c" "c \<noteq> 1" for c
    using writeInode_read_block [OF w assms(2,1)] that assms(3) by simp
  ultimately show ?thesis using w writeInode_ok [OF w assms(2,1)] that by blast
qed

lemma patch_entry:
  assumes "disk_ok d" and "small_block b" and "wf_dir_item e" and "off + sizeof_dir_item \<le> BLOCK_SIZE"
  shows "disk_ok (blocks.patch d b off (dir_item_bytes e))"
    and "slice (read_block (blocks.patch d b off (dir_item_bytes e)) b) off sizeof_dir_item = dir_item_bytes e"
    and "o2 + m \<le> BLOCK_SIZE \<Longrightarrow> o2 + m \<le> off \<or> off + sizeof_dir_item \<le> o2 \<Longrightarrow>
      slice (read_block (blocks.patch d b off (dir_item_bytes e)) b) o2 m = slice (read_block d b) o2 m"
    and "small_block c \<Longrightarrow> c \<noteq> b \<Longrightarrow> read_block (blocks.patch d b off (dir_item_bytes e)) c = read_block d c"
  using assms dir_codec.enc_len [OF assms(3)] blocks.rd_patch [of d off "dir_item_bytes e" b b]
  by (simp_all add: blocks.ok_patch blocks.rd_patch_elsewhere blocks.rd_patch_other)

abbreviation shell_name :: "u8 list" where "shell_name \<equiv> [115, 104, 101, 108, 108]"
abbreviation mypro_name :: "u8 list" where "mypro_name \<equiv> [109, 121, 112, 114, 111]"

lemma plain_names [simp]: "plain_name shell_name" "plain_name mypro_name"
  by (simp_all add: plain_name_def)

text \<open>The inode part of \<open>init_userpro\<close>: both inodes are on the disk, with their blocks busy.\<close>

lemma init_userpro_inodes:
  assumes "bitmap_ok d" and "busy_blocks d = {..<57}" and "free_inodes d (map inode_slot [1..<200])"
    and "476 \<le> length stk"
  obtains d1 d2 d3 d4 d5 d6 m1 s1 where
    "allocInode d stk in1 = Some (0, m1, d1)" and "allocInode d1 stk in2 = Some (0, s1, d2)"
    and "fill_blocks SHELL_SECTOR 0 SHELL_BLOCKS s1 d2
      = (s1\<lparr>block_no := map of_nat [57..<72] @ replicate 5 0\<rparr>, d3)"
    and "fill_blocks MYPRO_SECTOR 0 MYPRO_BLOCKS m1 d3
      = (m1\<lparr>block_no := map of_nat [72..<87] @ replicate 5 0\<rparr>, d4)"
    and "writeInode d4 (s1\<lparr>block_no := map of_nat [57..<72] @ replicate 5 0, i_mode := REGULAR_FILE\<rparr>) = Some d5"
    and "writeInode d5 (m1\<lparr>block_no := map of_nat [72..<87] @ replicate 5 0, i_mode := REGULAR_FILE\<rparr>) = Some d6"
    and "my_inode_block_no s1 = 1" and "my_inode_offset s1 = 232"
    and "my_inode_block_no m1 = 1" and "my_inode_offset m1 = 116"
    and "disk_ok d6" and "busy_blocks d6 = {..<87}"
    and "dataBlockBit_no (read_superBlock d6) = dataBlockBit_no (read_superBlock d)"
    and "rootdir_inode_block_no (read_superBlock d6) = rootdir_inode_block_no (read_superBlock d)"
    and "rootdir_inode_offset (read_superBlock d6) = rootdir_inode_offset (read_superBlock d)"
    and "read_inode d6 1 0 = read_inode d 1 0"
    and "read_inode d6 1 232 = Some (s1\<lparr>block_no := map of_nat [57..<72] @ replicate 5 0, i_mode := REGULAR_FILE\<rparr>)"
    and "read_inode d6 1 116 = Some (m1\<lparr>block_no := map of_nat [72..<87] @ replicate 5 0, i_mode := REGULAR_FILE\<rparr>)"
    and "read_block d6 56 = read_block d 56"
    and "free_inodes d6 (map inode_slot [3..<200])"
proof -
  have ok: "disk_ok d" using assms(1) by (simp add: bitmap_ok_def)
  have slots: "map inode_slot [1..<200] = (1, 116) # (1, 232) # map inode_slot [3..<200]"
  proof -
    have "[1..<200] = 1 # [Suc 1..<200]" by (rule upt_conv_Cons) simp
    also have "[Suc 1..<200] = Suc 1 # [Suc (Suc 1)..<200]" by (rule upt_conv_Cons) simp
    finally have "[1..<200] = 1 # 2 # [3..<200]" by (simp only: Suc_1 Suc_numeral add_num_simps)
    moreover have "inode_slot 1 = (1, 116)" "inode_slot 2 = (1, 232)" by (simp_all add: inode_slot_def)
    ultimately show ?thesis by (simp only: list.map)
  qed
  from allocInode_pop [OF assms(3) [unfolded slots] ok assms(4), of in1] obtain n1 d1 where
    a1: "allocInode d stk in1 = Some (0, n1\<lparr>my_inode_block_no := 1, my_inode_offset := 116,
        block_no := replicate MAX_BLOCKS_InFILE 0\<rparr>, d1)"
      "free_inodes d1 ((1, 232) # map inode_slot [3..<200])" "disk_ok d1"
      "\<And>c. small_block c \<Longrightarrow> c \<noteq> 0 \<Longrightarrow> read_block d1 c = read_block d c"
      "read_superBlock d1 = (read_superBlock d)\<lparr>free_inode_offset := next_inode_offset n1,
        free_inode_block_no := next_inode_block_no n1\<rparr>" by auto
  from allocInode_pop [OF a1(2,3) assms(4), of in2] obtain n2 d2 where
    a2: "allocInode d1 stk in2 = Some (0, n2\<lparr>my_inode_block_no := 1, my_inode_offset := 232,
        block_no := replicate MAX_BLOCKS_InFILE 0\<rparr>, d2)"
      "free_inodes d2 (map inode_slot [3..<200])" "disk_ok d2"
      "\<And>c. small_block c \<Longrightarrow> c \<noteq> 0 \<Longrightarrow> read_block d2 c = read_block d1 c"
      "read_superBlock d2 = (read_superBlock d1)\<lparr>free_inode_offset := next_inode_offset n2,
        free_inode_block_no := next_inode_block_no n2\<rparr>" by auto
  let ?m1 = "n1\<lparr>my_inode_block_no := 1, my_inode_offset := 116, block_no := replicate MAX_BLOCKS_InFILE 0\<rparr>"
  let ?s1 = "n2\<lparr>my_inode_block_no := 1, my_inode_offset := 232, block_no := replicate MAX_BLOCKS_InFILE 0\<rparr>"
  have busy2: "busy_blocks d2 = {..<57}"
    using a1(4) [of first_bitmap] a2(4) [of first_bitmap] assms(2)
    by (subst busy_blocks_cong [of d2 d]) (auto simp: small_block_def)
  have "\<exists>d3. fill_blocks SHELL_SECTOR 0 SHELL_BLOCKS ?s1 d2 = (?s1\<lparr>block_no := map of_nat [57..<72] @ replicate 5 0\<rparr>, d3) \<and>
      disk_ok d3 \<and> busy_blocks d3 = {..<72} \<and>
      (\<forall>b. small_block b \<longrightarrow> b \<noteq> first_bitmap \<longrightarrow> read_block d3 b = read_block d2 b)"
  proof -
    have "{..<57} \<union> (\<lambda>j. 57 + j) ` {0..<0 + 15} = {..<72::nat}"
      by (auto simp: image_iff)
    then show ?thesis
      using fill_blocks_props [OF a2(3), of SHELL_SECTOR 57 0 15 ?s1] busy2
      by (simp add: upt_rec)
  qed
  then obtain d3 where
    f1: "fill_blocks SHELL_SECTOR 0 SHELL_BLOCKS ?s1 d2 = (?s1\<lparr>block_no := map of_nat [57..<72] @ replicate 5 0\<rparr>, d3)"
      "disk_ok d3" "busy_blocks d3 = {..<72}"
      "\<And>b. small_block b \<Longrightarrow> b \<noteq> first_bitmap \<Longrightarrow> read_block d3 b = read_block d2 b" by blast
  have "\<exists>d4. fill_blocks MYPRO_SECTOR 0 MYPRO_BLOCKS ?m1 d3 = (?m1\<lparr>block_no := map of_nat [72..<87] @ replicate 5 0\<rparr>, d4) \<and>
      disk_ok d4 \<and> busy_blocks d4 = {..<87} \<and>
      (\<forall>b. small_block b \<longrightarrow> b \<noteq> first_bitmap \<longrightarrow> read_block d4 b = read_block d3 b)"
  proof -
    have "{..<72} \<union> (\<lambda>j. 72 + j) ` {0..<0 + 15} = {..<87::nat}"
      by (auto simp: image_iff)
    then show ?thesis
      using fill_blocks_props [OF f1(2), of MYPRO_SECTOR 72 0 15 ?m1] f1(3)
      by (simp add: upt_rec)
  qed
  then obtain d4 where
    f2: "fill_blocks MYPRO_SECTOR 0 MYPRO_BLOCKS ?m1 d3 = (?m1\<lparr>block_no := map of_nat [72..<87] @ replicate 5 0\<rparr>, d4)"
      "disk_ok d4" "busy_blocks d4 = {..<87}"
      "\<And>b. small_block b \<Longrightarrow> b \<noteq> first_bitmap \<Longrightarrow> read_block d4 b = read_block d3 b" by blast
  let ?s = "?s1\<lparr>block_no := map of_nat [57..<72] @ replicate 5 0, i_mode := REGULAR_FILE\<rparr>"
  let ?m = "?m1\<lparr>block_no := map of_nat [72..<87] @ replicate 5 0, i_mode := REGULAR_FILE\<rparr>"
  obtain d5 where w1: "writeInode d4 ?s = Some d5" "disk_ok d5"
    "\<And>o2. o2 \<in> low_slots \<Longrightarrow> read_inode d5 1 o2 = (if o2 = my_inode_offset ?s then Some ?s else read_inode d4 1 o2)"
    "\<And>c. small_block c \<Longrightarrow> c \<noteq> 1 \<Longrightarrow> read_block d5 c = read_block d4 c"
    by (rule writeInode_low [OF f2(2), of ?s]) (simp_all add: wf_inode_def del: upt_Suc)
  obtain d6 where w2: "writeInode d5 ?m = Some d6" "disk_ok d6"
    "\<And>o2. o2 \<in> low_slots \<Longrightarrow> read_inode d6 1 o2 = (if o2 = my_inode_offset ?m then Some ?m else read_inode d5 1 o2)"
    "\<And>c. small_block c \<Longrightarrow> c \<noteq> 1 \<Longrightarrow> read_block d6 c = read_block d5 c"
    by (rule writeInode_low [OF w1(2), of ?m]) (simp_all add: wf_inode_def del: upt_Suc)
  have blk42: "read_block d4 c = read_block d2 c" if "small_block c" "c \<noteq> first_bitmap" for c
    using f1(4) f2(4) that by simp
  have sb42: "read_superBlock d4 = read_superBlock d2" by (rule read_superBlock_cong [OF blk42]) simp_all
  have sb6: "read_superBlock d6 = read_superBlock d2"
    using w1(4) [of 0] w2(4) [of 0] sb42 by (subst read_superBlock_cong [of d6 d4]) simp_all
  have root: "read_inode d6 1 0 = read_inode d 1 0"
    using w1(3) [of 0] w2(3) [of 0] read_inode_cong [OF blk42 [of 1]]
      read_inode_cong [OF a1(4) [of 1]] read_inode_cong [OF a2(4) [of 1]] by simp
  have busy6: "busy_blocks d6 = {..<87}"
    using w1(4) [of first_bitmap] w2(4) [of first_bitmap] f2(3)
    by (subst busy_blocks_cong [of d6 d4]) (simp_all add: small_block_def)
  have b56: "read_block d6 56 = read_block d 56"
    using w1(4) [of 56] w2(4) [of 56] blk42 [of 56] a1(4) [of 56] a2(4) [of 56]
    by (simp add: small_block_def)
  have "free_inodes d4 (map inode_slot [3..<200])"
    by (rule free_inodes_frame [OF a2(2) sb42 blk42]) auto
  then have "free_inodes d5 (map inode_slot [3..<200])"
    using writeInode_free_inodes [OF w1(1) _ f2(2), of 2 3] by (simp add: wf_inode_def inode_slot_def del: upt_Suc)
  then have fi6: "free_inodes d6 (map inode_slot [3..<200])"
    using writeInode_free_inodes [OF w2(1) _ w1(2), of 1 3] by (simp add: wf_inode_def inode_slot_def del: upt_Suc)
  show ?thesis
    by (rule that [OF a1(1) a2(1) f1(1) f2(1) w1(1) w2(1)])
       (use w1(3) w2(2,3) root busy6 b56 fi6 in \<open>simp_all add: sb6 a1(5) a2(5) del: upt_Suc\<close>)
qed

lemma no_prefix_before:
  assumes "s \<noteq> []" and "hd s \<notin> set (slice b 0 n)" and "j < n" and "n \<le> length b"
  shows "\<not> prefix s (drop j b)"
proof
  assume "prefix s (drop j b)"
  then have "b ! j = hd s" using assms(1,3,4) by (auto simp: prefix_def hd_append hd_drop_conv_nth dest!: arg_cong [of _ _ hd])
  moreover have "b ! j \<in> set (slice b 0 n)"
    using assms(3,4) nth_slice [of 0 n b j] length_slice [of 0 n b] by (metis add_0 nth_mem)
  ultimately show False using assms(2) by simp
qed

lemma entry_prefix:
  assumes "slice b off 28 = dir_item_bytes (new_entry s n old)"
  shows "prefix s (drop off b)"
proof -
  have "prefix s (dir_item_bytes (new_entry s n old))" by (simp add: dir_item_bytes_def new_entry_def)
  moreover have "prefix (slice b off 28) (drop off b)" by (simp add: slice_def take_is_prefix)
  ultimately show ?thesis using assms prefix_order.trans by metis
qed

lemma init_userpro_props:
  assumes "bitmap_ok d" and "busy_blocks d = {..<57}" and "free_inodes d (map inode_slot [1..<200])"
    and "476 \<le> length stk"
    and "rootdir_inode_block_no (read_superBlock d) = 1" and "rootdir_inode_offset (read_superBlock d) = 0"
    and "read_inode d 1 0 = Some root" and "my_inode_block_no root = 1" and "my_inode_offset root = 0"
    and "i_size root = 0" and "block_no root = 56 # replicate 19 0" and "read_block d 56 = replicate 512 0"
  shows "\<exists>d' shell mypro. init_userpro d stk in1 in2 = Some d' \<and>
    (\<forall>fn r. seekFileInode d' fn (slash # shell_name @ 0 # r) = Some (0, shell) \<and>
            seekFileInode d' fn (slash # mypro_name @ 0 # r) = Some (0, mypro)) \<and>
    i_mode shell = REGULAR_FILE \<and> block_no shell = map of_nat [57..<72] @ replicate 5 0 \<and>
    i_mode mypro = REGULAR_FILE \<and> block_no mypro = map of_nat [72..<87] @ replicate 5 0 \<and>
    bitmap_ok d' \<and> busy_blocks d' = {..<87} \<and> free_inodes d' (map inode_slot [3..<200])"
proof -
  obtain d1 d2 d3 d4 d5 d6 m1 s1 where
    i: "allocInode d stk in1 = Some (0, m1, d1)" "allocInode d1 stk in2 = Some (0, s1, d2)"
    "fill_blocks SHELL_SECTOR 0 SHELL_BLOCKS s1 d2 = (s1\<lparr>block_no := map of_nat [57..<72] @ replicate 5 0\<rparr>, d3)"
    "fill_blocks MYPRO_SECTOR 0 MYPRO_BLOCKS m1 d3 = (m1\<lparr>block_no := map of_nat [72..<87] @ replicate 5 0\<rparr>, d4)"
    "writeInode d4 (s1\<lparr>block_no := map of_nat [57..<72] @ replicate 5 0, i_mode := REGULAR_FILE\<rparr>) = Some d5"
    "writeInode d5 (m1\<lparr>block_no := map of_nat [72..<87] @ replicate 5 0, i_mode := REGULAR_FILE\<rparr>) = Some d6"
    and my: "my_inode_block_no s1 = 1" "my_inode_offset s1 = 232" "my_inode_block_no m1 = 1" "my_inode_offset m1 = 116"
    and d6: "disk_ok d6" "busy_blocks d6 = {..<87}"
    "dataBlockBit_no (read_superBlock d6) = dataBlockBit_no (read_superBlock d)"
    "rootdir_inode_block_no (read_superBlock d6) = rootdir_inode_block_no (read_superBlock d)"
    "rootdir_inode_offset (read_superBlock d6) = rootdir_inode_offset (read_superBlock d)"
    "read_inode d6 1 0 = read_inode d 1 0"
    "read_inode d6 1 232 = Some (s1\<lparr>block_no := map of_nat [57..<72] @ replicate 5 0, i_mode := REGULAR_FILE\<rparr>)"
    "read_inode d6 1 116 = Some (m1\<lparr>block_no := map of_nat [72..<87] @ replicate 5 0, i_mode := REGULAR_FILE\<rparr>)"
    "read_block d6 56 = read_block d 56" "free_inodes d6 (map inode_slot [3..<200])"
    by (rule init_userpro_inodes [OF assms(1-4), of in1 in2])
  let ?s = "s1\<lparr>block_no := map of_nat [57..<72] @ replicate 5 0, i_mode := REGULAR_FILE\<rparr>"
  let ?m = "m1\<lparr>block_no := map of_nat [72..<87] @ replicate 5 0, i_mode := REGULAR_FILE\<rparr>"
  let ?e1 = "new_entry shell_name ?s (read_block d6 56)"
  let ?r1 = "root\<lparr>i_size := 28\<rparr>"
  let ?r2 = "root\<lparr>i_size := 56\<rparr>"
  have sm: "small_block 56" by (simp add: small_block_def)
  have wfr: "wf_inode root" using assms(11) by (simp add: wf_inode_def)
  text \<open>The entry for the shell, and the root's new size.\<close>
  let ?d7 = "blocks.patch d6 56 0 (dir_item_bytes ?e1)"
  have w7: "writeDirectory d6 root (slash # shell_name @ 0 # []) ?s = Some (0, root, ?d7)"
    using writeDirectory_root [OF plain_names(1) d6(1), of root "[]" ?s] assms(10,11) by simp
  have wf1: "wf_dir_item ?e1" using d6(1) by simp
  have l0: "(0::nat) + sizeof_dir_item \<le> BLOCK_SIZE" "(28::nat) + sizeof_dir_item \<le> BLOCK_SIZE" by simp_all
  note p7 = patch_entry [OF d6(1) sm wf1 l0(1)]
  obtain d8 where w8: "writeInode ?d7 ?r1 = Some d8" "disk_ok d8"
    "\<And>o2. o2 \<in> low_slots \<Longrightarrow> read_inode d8 1 o2 = (if o2 = my_inode_offset ?r1 then Some ?r1 else read_inode ?d7 1 o2)"
    "\<And>c. small_block c \<Longrightarrow> c \<noteq> 1 \<Longrightarrow> read_block d8 c = read_block ?d7 c"
    by (rule writeInode_low [OF p7(1), of ?r1]) (use wfr assms(8,9) in \<open>simp_all add: wf_inode_def\<close>)
  have b8: "read_block d8 56 = read_block ?d7 56" using w8(4) [OF sm] by simp
  text \<open>The entry for the other program.\<close>
  let ?e2 = "new_entry mypro_name ?m (drop 28 (read_block d8 56))"
  let ?d9 = "blocks.patch d8 56 28 (dir_item_bytes ?e2)"
  have w9: "writeDirectory d8 ?r1 (slash # mypro_name @ 0 # []) ?m = Some (0, ?r1, ?d9)"
    using writeDirectory_root [OF plain_names(2) w8(2), of ?r1 "[]" ?m] assms(11) by simp
  have wf2: "wf_dir_item ?e2" using w8(2) by simp
  note p9 = patch_entry [OF w8(2) sm wf2 l0(2)]
  obtain d10 where w10: "writeInode ?d9 ?r2 = Some d10" "disk_ok d10"
    "\<And>o2. o2 \<in> low_slots \<Longrightarrow> read_inode d10 1 o2 = (if o2 = my_inode_offset ?r2 then Some ?r2 else read_inode ?d9 1 o2)"
    "\<And>c. small_block c \<Longrightarrow> c \<noteq> 1 \<Longrightarrow> read_block d10 c = read_block ?d9 c"
    by (rule writeInode_low [OF p9(1), of ?r2]) (use wfr assms(8,9) in \<open>simp_all add: wf_inode_def\<close>)
  have root6: "getRootDirInode d6 = Some root"
    using d6(4-6) assms(5-7) by (simp add: getRootDirInode_def)
  have run: "init_userpro d stk in1 in2 = Some d10"
    using i w7 w8(1) w9 w10(1) root6 assms(10) by (simp add: init_userpro_def my del: upt_Suc)
  let ?b = "read_block d10 56"
  have b10: "?b = read_block ?d9 56" using w10(4) [OF sm] by simp
  have lenb: "length ?b = 512" using w10(2) by simp
  have sl2: "slice ?b 28 28 = dir_item_bytes ?e2" using p9(2) by (simp only: b10)
  have sl1: "slice ?b 0 28 = dir_item_bytes ?e1"
    using p9(3) [of 0 28] p7(2) by (simp add: b10 b8)
  have rd10: "read_block d10 c = read_block d6 c" if "small_block c" "c \<noteq> 1" "c \<noteq> 56" for c
    using w10(4) p9(4) w8(4) p7(4) that by simp
  have in7: "read_inode ?d7 1 o2 = read_inode d6 1 o2" for o2
    by (rule read_inode_cong [OF p7(4)]) simp_all
  have in9: "read_inode ?d9 1 o2 = read_inode d8 1 o2" for o2
    by (rule read_inode_cong [OF p9(4)]) simp_all
  have ino: "read_inode d10 1 0 = Some ?r2" "read_inode d10 1 116 = Some ?m" "read_inode d10 1 232 = Some ?s"
    using w10(3) w8(3) in7 in9 d6(7,8) assms(9) by simp_all
  have sb: "read_superBlock d10 = read_superBlock d6" by (rule read_superBlock_cong [OF rd10]) simp_all
  have root10: "getRootDirInode d10 = Some ?r2"
    using ino(1) d6(4,5) assms(5,6) by (simp add: getRootDirInode_def sb)
  have dirb: "0 < dir_blocks ?r2" by (simp add: dir_blocks_def)
  have ids: "d_inode_block_no ?e1 = 1" "d_inode_offset ?e1 = 232" "d_inode_block_no ?e2 = 1" "d_inode_offset ?e2 = 116"
    by (simp_all add: new_entry_def my)
  have pre1: "prefix shell_name (drop 0 ?b)"
    by (rule entry_prefix [OF sl1])
  have pre2: "prefix mypro_name (drop 28 ?b)"
    by (rule entry_prefix [OF sl2])
  have "109 \<notin> set (dir_item_bytes ?e1)"
    using d6(9) assms(12) by (simp add: dir_item_bytes_def new_entry_def slice_def le32_def my)
  then have before: "\<not> prefix mypro_name (drop j ?b)" if "j < 28" for j
    using no_prefix_before [of mypro_name ?b 28 j] that lenb sl1 by simp
  have m1: "strmatch (shell_name @ 0 # q) ?b 512 = Some (int 0)" for q
    using strmatch_hit [OF _ _ pre1] lenb by simp
  have m2: "strmatch (mypro_name @ 0 # q) ?b 512 = Some (int 28)" for q
    using strmatch_hit [OF _ _ pre2 before] lenb by simp
  have "seekNextInode d10 fn ?r2 (shell_name @ 0 # r) = Some (None, ?s)" for fn r
    using seekNextInode_hit [OF plain_names(1) w10(2), of 0 ?r2 fn 0 ?e1 r] dirb m1 sl1 ids ino
      dir_codec.dec_enc [OF wf1] assms(11) by simp
  moreover have "seekNextInode d10 fn ?r2 (mypro_name @ 0 # r) = Some (None, ?m)" for fn r
    using seekNextInode_hit [OF plain_names(2) w10(2), of 0 ?r2 fn 28 ?e2 r] dirb m2 sl2 ids ino
      dir_codec.dec_enc [OF wf2] assms(11) by simp
  ultimately have "seekFileInode d10 fn (slash # shell_name @ 0 # r) = Some (0, ?s)"
    "seekFileInode d10 fn (slash # mypro_name @ 0 # r) = Some (0, ?m)" for fn r
    using seekFileInode_root [OF plain_names(1) root10] seekFileInode_root [OF plain_names(2) root10] by simp_all
  moreover have busy: "busy_blocks d10 = {..<87}"
    using rd10 [of first_bitmap] d6(2) by (subst busy_blocks_cong [of d10 d6]) (simp_all add: small_block_def)
  moreover have "bitmap_ok d10"
    using assms(1) w10(2) busy d6(3) by (simp add: bitmap_ok_def sb)
  moreover have "free_inodes d10 (map inode_slot [3..<200])"
  proof -
    have ne: "c \<noteq> 56" if "unat c < 51" for c :: u32 using that by auto
    have "free_inodes ?d7 (map inode_slot [3..<200])"
      by (rule free_inodes_frame [OF d6(10) read_superBlock_cong]) (simp_all add: p7(4) ne del: upt_Suc upt_rec_numeral)
    then have "free_inodes d8 (map inode_slot [3..<200])"
      using writeInode_free_inodes [OF w8(1) _ p7(1), of 0 3] wfr assms(8,9)
      by (simp add: wf_inode_def inode_slot_def del: upt_Suc)
    then have "free_inodes ?d9 (map inode_slot [3..<200])"
      by (rule free_inodes_frame [OF _ read_superBlock_cong]) (simp_all add: p9(4) ne del: upt_Suc upt_rec_numeral)
    then show ?thesis
      using writeInode_free_inodes [OF w10(1) _ p9(1), of 0 3] wfr assms(8,9)
      by (simp add: wf_inode_def inode_slot_def del: upt_Suc)
  qed
  ultimately show ?thesis
    using run by (intro exI [of _ d10] exI [of _ ?s] exI [of _ ?m]) (simp del: upt_Suc)
qed

text \<open>The disk part of \<open>init_file\<close>; \<open>stk\<close>, \<open>stks\<close>: stack bytes of the calls.\<close>

definition init_file_disk ::
  "disk \<Rightarrow> (nat \<Rightarrow> u8 list) \<Rightarrow> (nat \<Rightarrow> u8 list) \<Rightarrow> super_block \<Rightarrow> (nat \<Rightarrow> inode) \<Rightarrow> disk option" where
  "init_file_disk d stk stks sb0 ins =
     (let d = init_superBlock d (stk 0) sb0;
          d = init_inodeList d stks;
          d = init_dataBlockBit d
      in do {
        d \<leftarrow> create_rootDir d (stk 1) (stk 2) (ins 0);
        init_userpro d (stk 3) (ins 1) (ins 2)
      })"

lemma init_file_disk_programs:
  assumes "disk_ok d" and "\<And>i. length (stk i) = 476" and "\<And>i. length (stks i) = 512"
  shows "\<exists>d' shell mypro. init_file_disk d stk stks sb0 ins = Some d' \<and>
    (\<forall>fn r. seekFileInode d' fn (slash # shell_name @ 0 # r) = Some (0, shell) \<and>
            seekFileInode d' fn (slash # mypro_name @ 0 # r) = Some (0, mypro)) \<and>
    i_mode shell = REGULAR_FILE \<and> block_no shell = map of_nat [57..<72] @ replicate 5 0 \<and>
    i_mode mypro = REGULAR_FILE \<and> block_no mypro = map of_nat [72..<87] @ replicate 5 0 \<and>
    bitmap_ok d' \<and> busy_blocks d' = {..<87} \<and> free_inodes d' (map inode_slot [3..<200])"
proof -
  have stk: "476 \<le> length (stk i)" for i by (simp add: assms(2))
  obtain d1 root where
    c: "create_rootDir (init_dataBlockBit (init_inodeList (init_superBlock d (stk 0) sb0) stks)) (stk 1) (stk 2) (ins 0) = Some d1"
      "rootdir_inode_block_no (read_superBlock d1) = 1" "rootdir_inode_offset (read_superBlock d1) = 0"
      "read_inode d1 1 0 = Some root" "i_size root = 0" "my_inode_block_no root = 1" "my_inode_offset root = 0"
      "block_no root = 56 # replicate 19 0" "read_block d1 56 = replicate 512 0"
      "bitmap_ok d1" "busy_blocks d1 = {..<57}" "free_inodes d1 (map inode_slot [1..<200])"
    using format_root [where stks = stks and ?sb0.0 = sb0 and ?in0.0 = "ins 0", OF assms(1) stk assms(3) stk stk]
    by blast
  show ?thesis
    using init_userpro_props [OF c(10-12) stk c(2-4) c(6,7) c(5) c(8,9), of 3 "ins 1" "ins 2"] c(1)
    by (simp add: init_file_disk_def del: upt_Suc upt_rec_numeral)
qed

text \<open>
  C4: after \<open>init_file\<close>, whatever the disk held before, the paths \<open>/shell\<close> and \<open>/mypro\<close> resolve
  to regular files whose block tables name exactly the sectors at which the two programs are
  linked into the disk image (357 to 371 and 372 to 386, as block numbers 57 to 71 and 72 to
  86); the busy blocks are the first 87 and 197 inodes are free.
\<close>

theorem init_file_programs:
  assumes "disk_ok d" and "\<And>i. length (stk i) = 476" and "\<And>i. length (stks i) = 512"
  shows "\<exists>d' shell mypro. init_file_disk d stk stks sb0 ins = Some d' \<and>
    (\<forall>fn r. seekFileInode d' fn (slash # shell_name @ 0 # r) = Some (0, shell) \<and>
            seekFileInode d' fn (slash # mypro_name @ 0 # r) = Some (0, mypro)) \<and>
    i_mode shell = REGULAR_FILE \<and> block_no shell = map of_nat [57..<72] @ replicate 5 0 \<and>
    i_mode mypro = REGULAR_FILE \<and> block_no mypro = map of_nat [72..<87] @ replicate 5 0 \<and>
    bitmap_ok d' \<and> busy_blocks d' = {..<87} \<and> free_inodes d' (map inode_slot [3..<200])"
  using init_file_disk_programs [OF assms] .

theorem init_file_programs_witness:
  "\<exists>d' shell. init_file_disk (\<lambda>_. replicate 512 7) (\<lambda>_. replicate 476 1) (\<lambda>_. replicate 512 2)
      (super_block_of_bytes []) (\<lambda>_. inode_of_bytes []) = Some d' \<and>
    seekFileInode d' (\<lambda>_. replicate 20 9) (slash # shell_name @ 0 # [1, 2]) = Some (0, shell) \<and>
    block_no shell = map of_nat [57..<72] @ replicate 5 0"
  using init_file_programs [of "\<lambda>_. replicate 512 7" "\<lambda>_. replicate 476 1" "\<lambda>_. replicate 512 2"
      "super_block_of_bytes []" "\<lambda>_. inode_of_bytes []"]
  by (auto simp: disk_ok_def simp del: upt_Suc upt_rec_numeral)

end
