(* ===== verification/FileTable.thy ===== *)
theory FileTable
  imports FsDir
begin

text \<open>
  Open files (\<open>file.c\<close>, structures from \<open>kernel.h\<close>): the kernel's table \<open>fileList\<close> of open files
  and the table of file descriptors of a process, whose \<open>ofptr\<close> points into \<open>fileList\<close>: an
  index, or \<open>None\<close> for \<open>NULL\<close>.  The free entries of \<open>fileList\<close> form a \<open>checked_pool\<close>.
\<close>

abbreviation OPEN :: int where "OPEN \<equiv> 1"
abbreviation CLOSE :: int where "CLOSE \<equiv> 0"
abbreviation FILE_MAX_InPROCESS :: nat where "FILE_MAX_InPROCESS \<equiv> 20"
abbreviation FILE_MAX_INSYS :: nat where "FILE_MAX_INSYS \<equiv> 100"
abbreviation STDIN_FILENO :: nat where "STDIN_FILENO \<equiv> 0"
abbreviation STDOUT_FILENO :: nat where "STDOUT_FILENO \<equiv> 1"
abbreviation STDERR_FILENO :: nat where "STDERR_FILENO \<equiv> 2"
abbreviation O_RDONLY :: int where "O_RDONLY \<equiv> 0"
abbreviation O_WRONLY :: int where "O_WRONLY \<equiv> 1"
abbreviation O_RDWR :: int where "O_RDWR \<equiv> 2"

record open_file =
  oflags :: int
  of_offset :: int
  f_inode_block_no :: u32
  f_inode_offset :: u32
  of_isopen :: int

record fd =
  open_flag :: int
  ofptr :: "nat option"

definition init_openFileList :: "open_file list \<Rightarrow> open_file list" where
  "init_openFileList fileList =
     (let fl = map (\<lambda>f. f\<lparr>f_inode_block_no := 0, f_inode_offset := 0, of_offset := 0,
                           of_isopen := CLOSE\<rparr>) fileList;
          fl = fl[STDOUT_FILENO := (fl ! STDOUT_FILENO)\<lparr>oflags := O_RDWR, of_isopen := OPEN\<rparr>];
          fl = fl[STDERR_FILENO := (fl ! STDERR_FILENO)\<lparr>oflags := O_RDWR, of_isopen := OPEN\<rparr>]
      in fl[STDIN_FILENO := (fl ! STDIN_FILENO)\<lparr>oflags := O_RDONLY, of_isopen := OPEN\<rparr>])"

definition isOpen :: "nat \<Rightarrow> fd list \<Rightarrow> int" where
  "isOpen i fdlist = open_flag (fdlist ! i)"

definition haveAccess :: "open_file \<Rightarrow> int \<Rightarrow> int" where
  "haveAccess file flag = (if oflags file = flag then 1 else 0)"

function minfd_loop :: "fd list \<Rightarrow> nat \<Rightarrow> int" where
  "minfd_loop fdlist fdindex =
     (if fdindex < FILE_MAX_InPROCESS
      then if isOpen fdindex fdlist = 0 then int fdindex else minfd_loop fdlist (fdindex + 1)
      else -1)"
  by pat_completeness auto
termination
  by (relation "measure (\<lambda>(l, i). FILE_MAX_InPROCESS - i)") auto

declare minfd_loop.simps [simp del]

definition getMinfd :: "fd list \<Rightarrow> int" where
  "getMinfd fdlist = minfd_loop fdlist (STDERR_FILENO + 1)"

text \<open>The search has no \<open>break\<close>: the last closed entry wins.\<close>

definition setOpenFileList ::
  "int \<Rightarrow> inode \<Rightarrow> open_file list \<Rightarrow> (nat \<times> open_file list) option" where
  "setOpenFileList oflag iptr fileList =
     (case last_index (\<lambda>f. of_isopen f = CLOSE) fileList of
        None \<Rightarrow> None
      | Some index \<Rightarrow>
          Some (index, fileList[index := (fileList ! index)
            \<lparr>oflags := oflag, of_isopen := OPEN, f_inode_block_no := my_inode_block_no iptr,
             f_inode_offset := my_inode_offset iptr\<rparr>]))"

definition delFile :: "nat option \<Rightarrow> open_file list \<Rightarrow> open_file list" where
  "delFile ptr fileList =
     (case ptr of None \<Rightarrow> fileList
      | Some i \<Rightarrow> fileList[i := (fileList ! i)\<lparr>of_isopen := CLOSE, of_offset := 0, oflags := 0,
                                  f_inode_offset := 0, f_inode_block_no := 0\<rparr>])"

section \<open>The free entries as a pool\<close>

abbreviation closed_entry :: "open_file list \<Rightarrow> nat \<Rightarrow> bool" where
  "closed_entry fl i \<equiv> of_isopen (fl ! i) = CLOSE"

definition free_entries :: "open_file list \<Rightarrow> nat list" where
  "free_entries fl = rev (filter (closed_entry fl) [0..<length fl])"

lemma rev_filter_upt_head:
  assumes "rev (filter P [0..<n]) = x # xs"
  shows "x < n \<and> P x \<and> (\<forall>j. x < j \<longrightarrow> j < n \<longrightarrow> \<not> P j) \<and> rev (filter (\<lambda>k. k \<noteq> x \<and> P k) [0..<n]) = xs"
  using assms
proof (induction n arbitrary: xs)
  case (Suc n)
  show ?case
  proof (cases "P n")
    case True
    with Suc.prems have "x = n" "xs = rev (filter P [0..<n])" by auto
    moreover from this have "filter (\<lambda>k. k \<noteq> x \<and> P k) [0..<n] = filter P [0..<n]"
      by (intro filter_cong) auto
    ultimately show ?thesis using True by auto
  next
    case False
    with Suc.prems have "rev (filter P [0..<n]) = x # xs" by simp
    from Suc.IH [OF this] False show ?thesis by (auto simp: less_Suc_eq)
  qed
qed simp

lemma setOpenFileList_free:
  "free_entries fl = [] \<Longrightarrow> setOpenFileList oflag iptr fl = None"
  by (auto simp: free_entries_def setOpenFileList_def filter_empty_conv last_index_None in_set_conv_nth
      split: option.splits dest!: last_index_SomeD)

lemma setOpenFileList_head:
  assumes "free_entries fl = i # is"
  shows "\<exists>fl'. setOpenFileList oflag iptr fl = Some (i, fl') \<and> free_entries fl' = is \<and>
    length fl' = length fl \<and> oflags (fl' ! i) = oflag \<and> of_isopen (fl' ! i) = OPEN \<and>
    of_offset (fl' ! i) = of_offset (fl ! i) \<and>
    f_inode_block_no (fl' ! i) = my_inode_block_no iptr \<and>
    f_inode_offset (fl' ! i) = my_inode_offset iptr \<and> (\<forall>j. j \<noteq> i \<longrightarrow> fl' ! j = fl ! j)"
proof -
  note h = rev_filter_upt_head [OF assms [unfolded free_entries_def]]
  have "last_index (\<lambda>f. of_isopen f = CLOSE) fl = Some i"
  proof (cases "last_index (\<lambda>f. of_isopen f = CLOSE) fl")
    case None
    with h show ?thesis by (auto simp: last_index_None)
  next
    case (Some k)
    from last_index_SomeD [OF this] h Some show ?thesis by (metis linorder_neqE_nat)
  qed
  then have "setOpenFileList oflag iptr fl = Some (i, fl[i := (fl ! i)
            \<lparr>oflags := oflag, of_isopen := OPEN, f_inode_block_no := my_inode_block_no iptr,
             f_inode_offset := my_inode_offset iptr\<rparr>])" (is "_ = Some (i, ?fl)")
    by (simp add: setOpenFileList_def)
  moreover have "filter (closed_entry ?fl) [0..<length fl] = filter (\<lambda>k. k \<noteq> i \<and> closed_entry fl k) [0..<length fl]"
    using h by (intro filter_cong) (auto simp: nth_list_update)
  ultimately show ?thesis using h by (auto simp: free_entries_def)
qed

definition open_entry :: "open_file list \<Rightarrow> (nat \<times> open_file list) option" where
  "open_entry fl = setOpenFileList O_RDWR (inode_of_bytes []) fl"

interpretation file_entries: checked_pool open_entry "\<lambda>fl is. free_entries fl = is"
proof
  show "free_entries fl = i # is \<Longrightarrow> \<exists>fl'. open_entry fl = Some (i, fl') \<and> free_entries fl' = is"
    for fl i "is"
    using setOpenFileList_head unfolding open_entry_def by blast
  show "free_entries fl = [] \<Longrightarrow> open_entry fl = None" for fl
    by (simp add: open_entry_def setOpenFileList_free)
qed

lemma length_init_openFileList: "length (init_openFileList fl) = length fl"
  by (simp add: init_openFileList_def Let_def)

lemma init_entries:
  assumes "length fl = FILE_MAX_INSYS"
  shows "free_entries (init_openFileList fl) = rev [3..<100]"
proof -
  have split: "[0..<100] = [0..<3] @ [3..<100::nat]"
    by (rule nth_equalityI) (auto simp: nth_append simp del: upt_Suc upt_rec_numeral)
  have "filter (closed_entry (init_openFileList fl)) [0..<100] = filter (\<lambda>i. 3 \<le> i) [0..<100]"
    using assms by (intro filter_cong) (auto simp: init_openFileList_def Let_def nth_list_update)
  also have "\<dots> = filter (\<lambda>i. 3 \<le> i) ([0..<3] @ [3..<100::nat])" by (simp only: split)
  also have "\<dots> = [3..<100]"
    by (simp only: filter_append) (auto simp: filter_empty_conv filter_id_conv simp del: upt_Suc)
  finally show ?thesis
    unfolding free_entries_def length_init_openFileList assms by (simp only:)
qed

section \<open>Properties\<close>

text \<open>
  After \<open>init_openFileList\<close> the three standard files are open and the other 97 entries are
  free; any \<open>n \<le> 97\<close> successive openings get \<open>n\<close> distinct entries, from the highest number down,
  none of them 0, 1 or 2, and the 98th gets \<open>NULL\<close>.
\<close>

theorem open_files_limit:
  assumes "length fl = FILE_MAX_INSYS"
  shows "(n \<le> 97 \<longrightarrow> (\<exists>is fl'. file_entries.alloc_many n (init_openFileList fl) = Some (is, fl') \<and>
            is = take n (rev [3..<100]) \<and> distinct is \<and> (\<forall>i \<in> set is. 3 \<le> i))) \<and>
         (97 < n \<longrightarrow> file_entries.alloc_many n (init_openFileList fl) = None)"
proof (intro conjI impI)
  note init = init_entries [OF assms]
  have len: "length (rev [3..<100::nat]) = 97" by simp
  assume "n \<le> 97"
  with file_entries.alloc_many_take [OF init] len obtain fl' where
    "file_entries.alloc_many n (init_openFileList fl) = Some (take n (rev [3..<100]), fl')" by metis
  moreover have "distinct (take n (rev [3..<100::nat]))" by (simp del: upt_Suc upt_rec_numeral)
  moreover have "3 \<le> i" if "i \<in> set (take n (rev [3..<100::nat]))" for i
    using in_set_takeD [OF that] by (simp del: upt_Suc upt_rec_numeral)
  ultimately show "\<exists>is fl'. file_entries.alloc_many n (init_openFileList fl) = Some (is, fl') \<and>
            is = take n (rev [3..<100]) \<and> distinct is \<and> (\<forall>i \<in> set is. 3 \<le> i)" by blast
next
  assume "97 < n"
  then show "file_entries.alloc_many n (init_openFileList fl) = None"
    using file_entries.alloc_many_exhausted [OF init_entries [OF assms]] by simp
qed

theorem open_files_limit_witness:
  "file_entries.alloc_many 98 (init_openFileList (replicate 100
     \<lparr>oflags = 0, of_offset = 0, f_inode_block_no = 0, f_inode_offset = 0, of_isopen = 0\<rparr>)) = None"
  by (rule open_files_limit [THEN conjunct2, rule_format]) simp_all

end
