(* ===== verification/Elf.thy ===== *)
theory Elf
  imports Prelude
begin

text \<open>
  The ELF structures of \<open>elf.h\<close>, as the loaders read them from memory: \<open>elf_header\<close> (52 bytes)
  and \<open>program_header\<close> (32 bytes), decoded from the bytes at their address.
\<close>

record elf_header =
  magic :: u32
  e_ident :: "u8 list"
  e_type :: u16
  e_machine :: u16
  e_version :: u32
  e_entry :: u32
  e_phoff :: u32
  e_shoff :: u32
  e_flags :: u32
  e_ehsize :: u16
  e_phentsize :: u16
  e_phnum :: u16
  e_shentsize :: u16
  e_shnum :: u16
  e_shstmdx :: u16

record program_header =
  p_type :: u32
  p_offset :: u32
  p_vaddr :: u32
  p_paddr :: u32
  p_filesize :: u32
  p_memsize :: u32
  p_flags :: u32
  p_align :: u32

abbreviation ELF_MAGIC :: u32 where "ELF_MAGIC \<equiv> 0x464c457f"
abbreviation LOAD_SEG :: u32 where "LOAD_SEG \<equiv> 1"
abbreviation sizeof_elf_header :: nat where "sizeof_elf_header \<equiv> 52"
abbreviation sizeof_program_header :: nat where "sizeof_program_header \<equiv> 32"

definition elf_header_of_bytes :: "u8 list \<Rightarrow> elf_header" where
  "elf_header_of_bytes bs =
     \<lparr>magic = rd32 bs, e_ident = take 12 (drop 4 bs), e_type = rd16 (drop 16 bs),
      e_machine = rd16 (drop 18 bs), e_version = rd32 (drop 20 bs), e_entry = rd32 (drop 24 bs),
      e_phoff = rd32 (drop 28 bs), e_shoff = rd32 (drop 32 bs), e_flags = rd32 (drop 36 bs),
      e_ehsize = rd16 (drop 40 bs), e_phentsize = rd16 (drop 42 bs), e_phnum = rd16 (drop 44 bs),
      e_shentsize = rd16 (drop 46 bs), e_shnum = rd16 (drop 48 bs), e_shstmdx = rd16 (drop 50 bs)\<rparr>"

definition program_header_of_bytes :: "u8 list \<Rightarrow> program_header" where
  "program_header_of_bytes bs =
     \<lparr>p_type = rd32 bs, p_offset = rd32 (drop 4 bs), p_vaddr = rd32 (drop 8 bs),
      p_paddr = rd32 (drop 12 bs), p_filesize = rd32 (drop 16 bs), p_memsize = rd32 (drop 20 bs),
      p_flags = rd32 (drop 24 bs), p_align = rd32 (drop 28 bs)\<rparr>"

definition elf_at :: "mem \<Rightarrow> u32 \<Rightarrow> elf_header" where
  "elf_at m p = elf_header_of_bytes (mem_read m p sizeof_elf_header)"

definition ph_at :: "mem \<Rightarrow> u32 \<Rightarrow> program_header" where
  "ph_at m p = program_header_of_bytes (mem_read m p sizeof_program_header)"

end
