(* ===== verification/PhysMem.thy ===== *)
theory PhysMem
  imports Elf
begin

text \<open>
  Physical memory (\<open>memory.c\<close>): the list of free pages that \<open>init_memory\<close> threads through the
  pages themselves, \<open>alloc_page\<close> and \<open>free_page\<close>, filling and copying, and the bitmap allocator
  \<open>palloc\<close>/\<open>free\<close> that precedes them in the file.

  Memory is byte-addressed by kernel virtual address: physical byte \<open>a\<close> is at
  \<open>PHY_2_VIR a\<close>.  Between the pages of the free list runs the contract \<open>returning_pool\<close> of the
  prelude: the list predicate \<open>page_list\<close> is what \<open>init_memory\<close> establishes and what
  \<open>alloc_page\<close> and \<open>free_page\<close> keep.
\<close>

abbreviation PAGESIZE :: nat where "PAGESIZE \<equiv> 4096"
abbreviation KERNEL_VIR_BASE :: u32 where "KERNEL_VIR_BASE \<equiv> 0xc0000000"
abbreviation PHY_SIZE :: u32 where "PHY_SIZE \<equiv> 0x2000000"
abbreviation KFREE_START :: u32 where "KFREE_START \<equiv> 0x140000"
abbreviation UFREE_START :: u32 where "UFREE_START \<equiv> 0x10000000"
abbreviation UMEM :: int where "UMEM \<equiv> 1"

definition VIR_2_PHY :: "u32 \<Rightarrow> u32" where "VIR_2_PHY x = x - KERNEL_VIR_BASE"
definition PHY_2_VIR :: "u32 \<Rightarrow> u32" where "PHY_2_VIR x = x + KERNEL_VIR_BASE"
definition ALIGN_UP :: "u32 \<Rightarrow> u32" where "ALIGN_UP x = (x + 0xfff) AND 0xfffff000"

definition load32 :: "mem \<Rightarrow> u32 \<Rightarrow> u32" where "load32 m p = rd32 (mem_read m p 4)"
definition store32 :: "mem \<Rightarrow> u32 \<Rightarrow> u32 \<Rightarrow> mem" where "store32 m p w = mem_write m p (le32 w)"

section \<open>The free list\<close>

text \<open>The loop over the program headers, from the last one back; \<open>n\<close> headers are left.\<close>

fun find_end :: "mem \<Rightarrow> u32 \<Rightarrow> nat \<Rightarrow> u32 option" where
  "find_end m ph 0 = None"
| "find_end m ph (Suc n) =
     (if p_type (ph_at m ph) = LOAD_SEG
      then Some (p_vaddr (ph_at m ph) + p_memsize (ph_at m ph))
      else find_end m (ph - of_nat sizeof_program_header) n)"

lemma link_pages_measure:
  "freePage < PHY_2_VIR PHY_SIZE \<Longrightarrow> unat (freePage + of_nat PAGESIZE) = unat freePage + PAGESIZE"
  by (subst unat_add_small) (simp_all add: PHY_2_VIR_def word_less_nat_alt)

text \<open>The loop that links the pages; \<open>prePage\<close> is \<open>None\<close> for the null pointer.\<close>

function link_pages :: "mem \<Rightarrow> u32 option \<Rightarrow> u32 \<Rightarrow> u32 \<Rightarrow> mem \<times> u32" where
  "link_pages m prePage freePage free_list =
     (if freePage < PHY_2_VIR PHY_SIZE then
        (case prePage of
           None \<Rightarrow> link_pages m (Some freePage) (freePage + of_nat PAGESIZE) freePage
         | Some pre \<Rightarrow> link_pages (store32 m pre freePage) (Some freePage) (freePage + of_nat PAGESIZE) free_list)
      else (m, free_list))"
  by pat_completeness auto

termination
  by (relation "measure (\<lambda>(m, pre, p, f). unat (PHY_2_VIR PHY_SIZE) - unat p)")
     (use link_pages_measure in \<open>auto simp: word_less_nat_alt\<close>)

declare link_pages.simps [simp del]

text \<open>The boot loader left the kernel's ELF header at \<open>0x9000\<close>; \<open>free_list\<close> is 0 before.\<close>

definition init_memory :: "mem \<Rightarrow> (mem \<times> u32) option" where
  "init_memory m =
     (let eh = 0x9000;
          phnum = unat (e_phnum (elf_at m eh));
          ph = eh + e_phoff (elf_at m eh) + of_nat phnum * of_nat sizeof_program_header
                 - of_nat sizeof_program_header
      in do {
        end \<leftarrow> find_end m ph phnum;
        Some (link_pages m None (ALIGN_UP end) 0)
      })"

text \<open>The state of the allocator is memory and \<open>free_list\<close>.\<close>

definition alloc_page :: "mem \<times> u32 \<Rightarrow> u32 \<times> (mem \<times> u32)" where
  "alloc_page s = (snd s, (fst s, load32 (fst s) (snd s)))"

definition free_page :: "u32 \<Rightarrow> mem \<times> u32 \<Rightarrow> mem \<times> u32" where
  "free_page page s = (store32 (fst s) page (snd s), page)"

section \<open>Filling and copying\<close>

text \<open>\<open>n\<close> iterations from \<open>i\<close> on.\<close>

fun fill_loop :: "mem \<Rightarrow> u32 \<Rightarrow> u8 \<Rightarrow> nat \<Rightarrow> nat \<Rightarrow> mem" where
  "fill_loop m ptr data i 0 = m"
| "fill_loop m ptr data i (Suc n) = fill_loop (m(ptr + of_nat i := data)) ptr data (Suc i) n"

definition fill :: "mem \<Rightarrow> u32 \<Rightarrow> nat \<Rightarrow> u8 \<Rightarrow> mem" where
  "fill m ptr sz data = fill_loop m ptr data 0 sz"

fun copy_loop :: "mem \<Rightarrow> u32 \<Rightarrow> u32 \<Rightarrow> nat \<Rightarrow> nat \<Rightarrow> mem" where
  "copy_loop m source dest i 0 = m"
| "copy_loop m source dest i (Suc n) =
     copy_loop (m(dest + of_nat i := m (source + of_nat i))) source dest (Suc i) n"

definition memcopy :: "mem \<Rightarrow> u32 \<Rightarrow> u32 \<Rightarrow> nat \<Rightarrow> mem" where
  "memcopy m source dest sz = copy_loop m source dest 0 sz"

text \<open>\<open>rep movsb\<close> with the direction flag clear copies the same way.\<close>

definition memmov :: "mem \<Rightarrow> u32 \<Rightarrow> u32 \<Rightarrow> nat \<Rightarrow> mem" where
  "memmov m source dest sz = copy_loop m source dest 0 sz"

section \<open>The bitmap allocator\<close>

text \<open>
  \<open>status\<close> is \<open>kpage_status\<close> or \<open>upage_status\<close>, arrays of signed \<open>char\<close>; \<open>None\<close> is a read
  outside of it or a shift by 32 places.
\<close>

function skip_full :: "u8 list \<Rightarrow> nat \<Rightarrow> nat option" where
  "skip_full status free_byte =
     (if free_byte < length status
      then (if sint (status ! free_byte) = 0xff then skip_full status (free_byte + 1) else Some free_byte)
      else None)"
  by pat_completeness auto
termination
  by (relation "measure (\<lambda>(st, i). length st - i)") auto

declare skip_full.simps [simp del]

function free_bit_loop :: "u8 \<Rightarrow> nat \<Rightarrow> nat option" where
  "free_bit_loop free_pages free_bit =
     (if free_bit < 32
      then (if bit (sint free_pages) free_bit then free_bit_loop free_pages (free_bit + 1) else Some free_bit)
      else None)"
  by pat_completeness auto
termination
  by (relation "measure (\<lambda>(p, i). 32 - i)") auto

declare free_bit_loop.simps [simp del]

definition palloc_in :: "u8 list \<Rightarrow> u32 \<Rightarrow> (u32 \<times> u8 list) option" where
  "palloc_in status base = do {
     free_byte \<leftarrow> skip_full status 0;
     free_bit \<leftarrow> free_bit_loop (status ! free_byte) 0;
     Some (of_nat (free_byte * 8 + free_bit) * 0x1000 + base,
           status[free_byte := status ! free_byte + word_of_int (2 ^ free_bit)])
   }"

text \<open>State: \<open>kpage_status\<close> and \<open>upage_status\<close>.\<close>

definition palloc :: "int \<Rightarrow> u8 list \<times> u8 list \<Rightarrow> (u32 \<times> (u8 list \<times> u8 list)) option" where
  "palloc type s =
     (if type = UMEM
      then map_option (\<lambda>(a, u). (a, (fst s, u))) (palloc_in (snd s) UFREE_START)
      else map_option (\<lambda>(a, k). (a, (k, snd s))) (palloc_in (fst s) KFREE_START))"

definition free_in :: "u8 list \<Rightarrow> u32 \<Rightarrow> u32 \<Rightarrow> u8 list option" where
  "free_in status base addr =
     (let index = unat ((addr - base) div 0x1000); byte = index div 8; b = index mod 8
      in if byte < length status
         then Some (status[byte := status ! byte AND NOT (push_bit b 1)]) else None)"

definition free :: "int \<Rightarrow> u32 \<Rightarrow> u8 list \<times> u8 list \<Rightarrow> (u8 list \<times> u8 list) option" where
  "free type addr s =
     (if type = UMEM then map_option (Pair (fst s)) (free_in (snd s) UFREE_START addr)
      else map_option (\<lambda>k. (k, snd s)) (free_in (fst s) KFREE_START addr))"

section \<open>Loads and stores\<close>

abbreviation page_aligned :: "u32 \<Rightarrow> bool" where "page_aligned p \<equiv> 4096 dvd unat p"
abbreviation word_aligned :: "u32 \<Rightarrow> bool" where "word_aligned p \<equiv> 4 dvd unat p"

lemma page_word_aligned [intro]: "page_aligned p \<Longrightarrow> word_aligned p"
  by (rule dvd_trans [of 4 4096]) simp_all

lemma load32_store32_same [simp, mem_simps]: "load32 (store32 m p w) p = w"
  using mem_read_write_same [of "le32 w" m p] by (simp add: load32_def store32_def)

lemma dvd_unat_diff:
  assumes "k dvd unat p" and "k dvd unat q" and "k dvd 2 ^ 32"
  shows "k dvd unat (q - p :: u32)"
proof (cases "unat p \<le> unat q")
  case True
  with assms show ?thesis by (simp add: unat_sub word_le_nat_alt dvd_diff_nat)
next
  case False
  then have "unat (q - p) = unat q + 2 ^ 32 - unat p"
    using unsigned_less [of p, where 'a = nat] by (simp add: unat_sub_if' word_le_nat_alt)
  with assms show ?thesis by (simp add: dvd_diff_nat)
qed

text \<open>Bytes of two aligned blocks of the same size are apart, or the blocks are the same.\<close>

lemma aligned_apart:
  assumes "k dvd unat p" and "k dvd unat q" and "k dvd 2 ^ 32" and "p \<noteq> q" and "i < k"
  shows "k \<le> unat (q + of_nat i - p :: u32)"
proof -
  from assms(3) have k32: "k \<le> 2 ^ 32" by (rule dvd_imp_le) simp
  from assms(1-3) have d: "k dvd unat (q - p)" by (rule dvd_unat_diff)
  moreover from assms(4) have "q - p \<noteq> 0" by simp
  then have "0 < unat (q - p)" by (simp only: unat_gt_0 not_False_eq_True)
  ultimately have k: "k \<le> unat (q - p)" by (simp add: dvd_imp_le)
  from d assms(3) have "k dvd 2 ^ 32 - unat (q - p)" by (simp add: dvd_diff_nat)
  then have "k \<le> 2 ^ 32 - unat (q - p)"
    using unsigned_less [of "q - p", where 'a = nat] by (intro dvd_imp_le) simp_all
  with assms(5) k32 have "unat (q - p) + i < 2 ^ 32" by simp
  then have "unat (q - p + of_nat i) = unat (q - p) + i"
    using assms(5) k32 by (subst unat_add_small) (simp_all add: unat_of_nat32)
  with k show ?thesis by (simp add: algebra_simps)
qed

lemma load32_store32_other [mem_simps]:
  assumes "word_aligned p" and "word_aligned q" and "p \<noteq> q"
  shows "load32 (store32 m p w) q = load32 m q"
proof -
  have "store32 m p w (q + of_nat i) = m (q + of_nat i)" if "i < 4" for i
    using aligned_apart [OF assms(1,2) _ assms(3) that]
    by (simp add: store32_def mem_write_apply)
  then show ?thesis unfolding load32_def by (intro arg_cong [where f = rd32] mem_read_cong)
qed

lemma load32_cong:
  "(\<And>i. i < 4 \<Longrightarrow> m (p + of_nat i) = m' (p + of_nat i)) \<Longrightarrow> load32 m p = load32 m' p"
  unfolding load32_def by (intro arg_cong [where f = rd32] mem_read_cong)

lemma store32_outside: "4 \<le> unat (q - p) \<Longrightarrow> store32 m p w q = m q"
  by (simp add: store32_def mem_write_apply)

section \<open>Lemmas: the list of free pages\<close>

fun chained :: "mem \<Rightarrow> u32 \<Rightarrow> u32 list \<Rightarrow> bool" where
  "chained m p [] \<longleftrightarrow> True"
| "chained m p (x # xs) \<longleftrightarrow> p = x \<and> chained m (load32 m x) xs"

lemma chained_store:
  "chained m p xs \<Longrightarrow> word_aligned a \<Longrightarrow> \<forall>x \<in> set xs. page_aligned x \<Longrightarrow> a \<notin> set xs \<Longrightarrow>
   chained (store32 m a w) p xs"
  by (induction xs arbitrary: p) (auto simp: load32_store32_other page_word_aligned)

definition page_list :: "mem \<times> u32 \<Rightarrow> u32 list \<Rightarrow> bool" where
  "page_list s xs \<longleftrightarrow>
     chained (fst s) (snd s) xs \<and> distinct xs \<and> (\<forall>x \<in> set xs. page_aligned x)"

interpretation page_pool: returning_pool "\<lambda>s. Some (alloc_page s)" page_list free_page page_aligned
  by unfold_locales
    (auto simp: page_list_def alloc_page_def free_page_def chained_store page_word_aligned)

text \<open>The pages from \<open>p\<close> up to the end of physical memory.\<close>

definition pages_from :: "u32 \<Rightarrow> u32 list" where
  "pages_from p = map (\<lambda>i. p + of_nat (4096 * i)) [0..<(unat (PHY_2_VIR PHY_SIZE) - unat p) div 4096]"

lemma unat_PHY_END [simp]: "unat (PHY_2_VIR PHY_SIZE) = 0xc2000000"
  by (simp add: PHY_2_VIR_def)

lemma less_PHY_END: "p < PHY_2_VIR PHY_SIZE \<longleftrightarrow> unat p < 0xc2000000"
  by (simp only: word_less_nat_alt unat_PHY_END)

lemma pages_from_end: "\<not> p < PHY_2_VIR PHY_SIZE \<Longrightarrow> pages_from p = []"
  by (simp add: pages_from_def less_PHY_END del: upt_Suc)

lemma page_aligned_next:
  assumes "page_aligned p" and "p < PHY_2_VIR PHY_SIZE"
  shows "unat (p + 4096) = unat p + 4096" and "page_aligned (p + 4096)"
    and "unat p + 4096 \<le> 0xc2000000"
proof -
  show 1: "unat (p + 4096) = unat p + 4096"
    using link_pages_measure [OF assms(2)] by simp
  with assms(1) show "page_aligned (p + 4096)" by simp
  from assms obtain k where k: "unat p = 4096 * k" by (auto simp: dvd_def)
  with assms(2) have "4096 * k < 4096 * 0xc2000" by (simp add: less_PHY_END)
  then have "k < 0xc2000" by simp
  then have "4096 * (k + 1) \<le> 4096 * 0xc2000" by (intro mult_le_mono2) simp
  with k show "unat p + 4096 \<le> 0xc2000000" by simp
qed

lemma pages_from_next:
  assumes "page_aligned p" and "p < PHY_2_VIR PHY_SIZE"
  shows "pages_from p = p # pages_from (p + 4096)"
proof -
  let ?n = "(0xc2000000 - unat (p + 4096)) div 4096"
  have "0xc2000000 - unat p = (0xc2000000 - unat (p + 4096)) + 4096 * 1"
    using page_aligned_next [OF assms] by simp
  then have "(0xc2000000 - unat p) div 4096 = Suc ?n"
    by (simp only: div_mult_self2 Suc_eq_plus1)
  then show ?thesis
    by (simp add: pages_from_def upt_conv_Cons map_Suc_upt [symmetric] algebra_simps del: upt_Suc map_Suc_upt)
qed

lemma set_pages_from:
  assumes "page_aligned p" and "x \<in> set (pages_from p)"
  shows "page_aligned x \<and> unat p \<le> unat x \<and> unat x < 0xc2000000"
proof -
  from assms(2) obtain i where i: "i < (0xc2000000 - unat p) div 4096" "x = p + of_nat (4096 * i)"
    by (auto simp: pages_from_def)
  then have "4096 * i + 4096 \<le> 0xc2000000 - unat p"
    using times_div_less_eq_dividend [of 4096 "0xc2000000 - unat p"] by linarith
  then have le: "unat p + 4096 * i + 4096 \<le> 0xc2000000" by linarith
  then have "unat (of_nat (4096 * i) :: u32) = 4096 * i" by (intro unat_of_nat32) simp
  with le have "unat x = unat p + 4096 * i"
    unfolding i(2) by (subst unat_add_small) simp_all
  moreover note le
  ultimately show ?thesis using assms(1) by simp
qed

lemma distinct_pages_from:
  assumes "page_aligned p"
  shows "distinct (pages_from p)"
proof -
  have "i = j" if "p + of_nat (4096 * i) = p + of_nat (4096 * j)"
    and "i < (0xc2000000 - unat p) div 4096" and "j < (0xc2000000 - unat p) div 4096" for i j
  proof -
    from that(2,3) have "4096 * i < 2 ^ 32" "4096 * j < 2 ^ 32"
      using times_div_less_eq_dividend [of 4096 "0xc2000000 - unat p"] by simp_all
    moreover from that(1) have "(of_nat (4096 * i) :: u32) = of_nat (4096 * j)"
      by (simp only: add_left_cancel)
    ultimately have "4096 * i = 4096 * j" by (metis unat_of_nat32)
    then show "i = j" by simp
  qed
  then show ?thesis
    by (auto simp: pages_from_def distinct_map inj_on_def simp del: upt_Suc of_nat_mult)
qed

text \<open>
  The linking loop with a predecessor: it links the predecessor and the rest of the pages, and
  leaves the last page's first word alone, as any other word.
\<close>

lemma link_pages_chained:
  "page_aligned p \<Longrightarrow> page_aligned pre \<Longrightarrow> unat pre < unat p \<Longrightarrow>
   link_pages m (Some pre) p f = (m', f') \<Longrightarrow>
   f' = f \<and> chained m' pre (pre # pages_from p) \<and>
   (\<forall>q. word_aligned q \<longrightarrow> q \<notin> set (butlast (pre # pages_from p)) \<longrightarrow> load32 m' q = load32 m q)"
proof (induction "unat (PHY_2_VIR PHY_SIZE) - unat p" arbitrary: m pre p rule: less_induct)
  case less
  show ?case
  proof (cases "p < PHY_2_VIR PHY_SIZE")
    case False
    with less.prems show ?thesis by (simp add: link_pages.simps pages_from_end)
  next
    case True
    note nx = page_aligned_next [OF less.prems(1) True]
    note wpre = page_word_aligned [OF less.prems(2)]
    note pages = pages_from_next [OF less.prems(1) True]
    let ?m = "store32 m pre p" and ?bl = "butlast (p # pages_from (p + 4096))"
    from True less.prems(4) have l: "link_pages ?m (Some p) (p + 4096) f = (m', f')"
      by (subst (asm) link_pages.simps) simp
    have dec: "unat (PHY_2_VIR PHY_SIZE) - unat (p + 4096) < unat (PHY_2_VIR PHY_SIZE) - unat p"
      using True nx(1) by (simp add: less_PHY_END)
    have IH: "f' = f" "chained m' p (p # pages_from (p + 4096))"
      "\<forall>q. word_aligned q \<longrightarrow> q \<notin> set ?bl \<longrightarrow> load32 m' q = load32 ?m q"
      using less.hyps [OF dec nx(2) less.prems(1) _ l] nx(1) by auto
    have "unat p \<le> unat x" if "x \<in> set ?bl" for x
      using in_set_butlastD [OF that] set_pages_from [OF nx(2)] nx(1) by fastforce
    with less.prems(3) have "pre \<notin> set ?bl" by fastforce
    with IH(3) wpre have "load32 m' pre = p" by simp
    with IH(2) have "chained m' pre (pre # pages_from p)" by (simp add: pages)
    moreover have "load32 m' q = load32 m q"
      if "word_aligned q" "q \<notin> set (butlast (pre # pages_from p))" for q
    proof -
      from that(2) have "pre \<noteq> q" "q \<notin> set ?bl" by (auto simp: pages)
      with IH(3) that(1) load32_store32_other [OF wpre that(1)] show ?thesis by simp
    qed
    ultimately show ?thesis using IH(1) by blast
  qed
qed

lemma link_pages_list:
  assumes "page_aligned p" and "p < PHY_2_VIR PHY_SIZE" and "link_pages m None p 0 = s"
  shows "page_list s (pages_from p)"
    and "load32 (fst s) (last (pages_from p)) = load32 m (last (pages_from p))"
proof -
  obtain m' f' where l: "link_pages m (Some p) (p + 4096) p = (m', f')" by fastforce
  note nx = page_aligned_next [OF assms(1,2)] and pages = pages_from_next [OF assms(1,2)]
  note set = set_pages_from [OF assms(1)] and dist = distinct_pages_from [OF assms(1)]
  from link_pages_chained [OF nx(2) assms(1) _ l] nx(1)
  have f: "f' = p" "chained m' p (pages_from p)"
    and other: "\<forall>q. word_aligned q \<longrightarrow> q \<notin> set (butlast (pages_from p)) \<longrightarrow> load32 m' q = load32 m q"
    by (auto simp: pages)
  from assms(2) have "link_pages m None p 0 = link_pages m (Some p) (p + 4096) p"
    by (subst link_pages.simps) simp
  with assms(3) l have s: "s = (m', f')" by simp
  with f set dist show "page_list s (pages_from p)" by (auto simp: page_list_def)
  let ?l = "last (pages_from p)"
  have ne: "pages_from p \<noteq> []" by (simp add: pages)
  with dist have "?l \<notin> set (butlast (pages_from p))"
    by (metis append_butlast_last_id distinct_append disjoint_iff list.set_intros(1))
  moreover from ne set have "word_aligned ?l" by (metis last_in_set page_word_aligned)
  ultimately show "load32 (fst s) ?l = load32 m ?l" using other s by simp
qed

lemma page_mask: "(0xfffff000 :: u32) = NOT (mask 12)"
  by (simp add: mask_eq_exp_minus_1)

lemma page_aligned_take_bit: "page_aligned p \<longleftrightarrow> take_bit 12 p = 0"
proof -
  have "page_aligned p \<longleftrightarrow> take_bit 12 (unat p) = 0"
    by (simp add: take_bit_eq_mod dvd_eq_mod_eq_0)
  also have "\<dots> \<longleftrightarrow> unat (take_bit 12 p) = 0"
    by (simp only: unsigned_take_bit_eq)
  also have "\<dots> \<longleftrightarrow> take_bit 12 p = 0"
    by (metis unat_0 unat_eq_zero)
  finally show ?thesis .
qed

lemma page_aligned_ALIGN_UP [simp]: "page_aligned (ALIGN_UP e)"
  unfolding page_aligned_take_bit ALIGN_UP_def page_mask
  by (rule bit_word_eqI) (auto simp: bit_simps)

section \<open>Lemmas: the program headers\<close>

text \<open>The loop reads the headers of the table at \<open>base\<close> from the last one down.\<close>

definition headers :: "mem \<Rightarrow> u32 \<Rightarrow> nat \<Rightarrow> program_header list" where
  "headers m base n = map (\<lambda>i. ph_at m (base + of_nat i * 32)) [0..<n]"

lemma last_index_snoc:
  "last_index P (xs @ [x]) = (if P x then Some (length xs) else last_index P xs)"
  by (induction xs) (auto split: option.splits)

lemma find_end_last_index:
  "find_end m (base + of_nat n * 32 - 32) n =
     map_option (\<lambda>i. p_vaddr (headers m base n ! i) + p_memsize (headers m base n ! i))
       (last_index (\<lambda>h. p_type h = LOAD_SEG) (headers m base n))"
proof (induction n)
  case 0
  show ?case by (simp add: headers_def)
next
  case (Suc n)
  have here: "base + of_nat (Suc n) * 32 - 32 = base + of_nat n * 32" by (simp add: algebra_simps)
  have down: "base + of_nat n * 32 - of_nat sizeof_program_header = base + of_nat n * 32 - 32" by simp
  have hs: "headers m base (Suc n) = headers m base n @ [ph_at m (base + of_nat n * 32)]"
    by (simp add: headers_def)
  have len: "length (headers m base n) = n" by (simp add: headers_def)
  show ?case
    unfolding here find_end.simps down Suc.IH
    by (cases "last_index (\<lambda>h. p_type h = LOAD_SEG) (headers m base n)")
      (auto simp: hs last_index_snoc len nth_append dest: last_index_SomeD)
qed

section \<open>Lemmas: filling, copying, the bitmap\<close>

lemma offset_eq:
  "i < 2 ^ 32 \<Longrightarrow> q = p + of_nat i \<longleftrightarrow> unat (q - p :: u32) = i"
  by (metis add_diff_cancel_left' diff_add_cancel add.commute unat_of_nat32 word_unat_eq_iff)

lemma fill_loop_apply:
  "i + n \<le> 2 ^ 32 \<Longrightarrow>
   fill_loop m p d i n q = (if i \<le> unat (q - p) \<and> unat (q - p) < i + n then d else m q)"
proof (induction n arbitrary: m i)
  case (Suc n)
  then have "(q = p + of_nat i) = (unat (q - p) = i)" by (intro offset_eq) simp
  with Suc show ?case by auto
qed auto

lemma fill_apply [mem_simps]:
  "n \<le> 2 ^ 32 \<Longrightarrow> fill m p n d q = (if unat (q - p) < n then d else m q)"
  by (simp add: fill_def fill_loop_apply)

lemma copy_loop_apply:
  assumes "\<forall>j < k. k \<le> unat (s + of_nat j - d)" and "k \<le> 2 ^ 32"
  shows "i + n = k \<Longrightarrow> \<forall>j < k. m (s + of_nat j) = m0 (s + of_nat j) \<Longrightarrow>
   copy_loop m s d i n q =
     (if i \<le> unat (q - d) \<and> unat (q - d) < k then m0 (s + (q - d)) else m q)"
proof (induction n arbitrary: m i)
  case (Suc n)
  define m' where "m' = m(d + of_nat i := m (s + of_nat i))"
  from Suc.prems assms(2) have i: "i < k" "i < 2 ^ 32" by simp_all
  have "s + of_nat j \<noteq> d + of_nat i" if "j < k" for j
    using assms(1) that i by (simp add: offset_eq) fastforce
  with Suc.prems(2) have "\<forall>j < k. m' (s + of_nat j) = m0 (s + of_nat j)"
    by (simp add: m'_def)
  moreover from Suc.prems(1) have "Suc i + n = k" by simp
  ultimately have "copy_loop m' s d (Suc i) n q =
      (if Suc i \<le> unat (q - d) \<and> unat (q - d) < k then m0 (s + (q - d)) else m' q)"
    by (intro Suc.IH)
  moreover have "m' q = (if unat (q - d) = i then m0 (s + (q - d)) else m q)"
    using Suc.prems(2) i offset_eq [OF i(2), of q d] by (auto simp: m'_def)
  ultimately show ?case using i by (auto simp flip: m'_def)
qed auto

lemma memcopy_apply [mem_simps]:
  assumes "\<forall>j < n. n \<le> unat (s + of_nat j - d)" and "n \<le> 2 ^ 32"
  shows "memcopy m s d n q = (if unat (q - d) < n then m (s + (q - d)) else m q)"
  using copy_loop_apply [OF assms(1), of 0 n m m] assms(2) by (simp add: memcopy_def)

lemma sint_u8: "- 128 \<le> sint (b :: u8)" "sint b < 128"
  using sint_greater_eq [of b] sint_less [of b] by simp_all

lemma skip_full_first: "status \<noteq> [] \<Longrightarrow> skip_full status 0 = Some 0"
  using sint_u8 (2) [of "hd status"] by (subst skip_full.simps) (simp add: hd_conv_nth)

lemma bit_sint_u8: "bit (sint (b :: u8)) n = bit b (min n 7)"
  by (auto simp: sint_uint bit_signed_take_bit_iff bit_uint_iff min_def)

lemma free_bit_loop_full: "7 \<le> i \<Longrightarrow> bit b 7 \<Longrightarrow> free_bit_loop b i = None"
  by (induction "32 - i" arbitrary: i) (subst free_bit_loop.simps, simp add: bit_sint_u8)+

text \<open>Within a byte the scan finds the lowest clear bit, and no bit at all in a full byte.\<close>

lemma free_bit_loop_lowest:
  "i < 8 \<Longrightarrow>
   free_bit_loop b i = map_option (\<lambda>k. i + k) (first_index (\<lambda>n. \<not> bit b n) [i..<8])"
proof (induction "8 - i" arbitrary: i)
  case (Suc n)
  from Suc.prems have up: "[i..<8] = i # [Suc i..<8]" by (simp add: upt_conv_Cons)
  show ?case
  proof (cases "bit b i")
    case False
    with Suc.prems show ?thesis
      by (subst free_bit_loop.simps) (simp add: bit_sint_u8 up min_def)
  next
    case True
    with Suc.prems have step: "free_bit_loop b i = free_bit_loop b (Suc i)"
      by (subst free_bit_loop.simps) (simp add: bit_sint_u8 min_def)
    show ?thesis
    proof (cases "i = 7")
      case True
      with \<open>bit b i\<close> show ?thesis
        using free_bit_loop_full [of 7 b] by (simp add: up)
    next
      case False
      with Suc.hyps(2) Suc.prems have "free_bit_loop b (Suc i)
          = map_option (\<lambda>k. Suc i + k) (first_index (\<lambda>n. \<not> bit b n) [Suc i..<8])"
        by (intro Suc.hyps(1)) simp_all
      with \<open>bit b i\<close> show ?thesis
        by (cases "first_index (\<lambda>n. \<not> bit b n) [Suc i..<8]") (simp_all add: step up)
    qed
  qed
qed simp

lemma palloc_in_first_byte:
  assumes "status \<noteq> []"
  shows "palloc_in status base =
    map_option (\<lambda>n. (of_nat n * 0x1000 + base, status[0 := status ! 0 + push_bit n 1]))
      (first_index (\<lambda>n. \<not> bit (status ! 0) n) [0..<8])"
proof -
  have "(word_of_int (2 ^ n) :: u8) = push_bit n 1" for n
    by (simp add: push_bit_eq_mult)
  then show ?thesis
    using assms free_bit_loop_lowest [of 0 "status ! 0"]
    by (cases "first_index (\<lambda>n. \<not> bit (status ! 0) n) [0..<8]")
      (simp_all add: palloc_in_def skip_full_first del: upt_Suc)
qed

lemma set_clear_bit:
  "n < 8 \<Longrightarrow> \<not> bit (b :: u8) n \<Longrightarrow> (b + push_bit n 1) AND NOT (push_bit n 1) = b"
  by (subst disjunctive_add_eq_or) (auto intro!: bit_word_eqI simp: bit_simps)

lemma free_palloc_in:
  assumes "palloc_in status base = Some (a, status')" and "status \<noteq> []"
  shows "free_in status' base a = Some status"
proof -
  from assms(1) obtain n where n: "first_index (\<lambda>n. \<not> bit (status ! 0) n) [0..<8] = Some n"
    and a: "a = of_nat n * 0x1000 + base" "status' = status[0 := status ! 0 + push_bit n 1]"
    by (auto simp: palloc_in_first_byte [OF assms(2)])
  from first_index_SomeD [OF n] have "n < 8" "\<not> bit (status ! 0) ([0..<8] ! n)" by auto
  moreover from this have "[0..<8] ! n = n" using nth_upt [of 0 n 8] by simp
  ultimately have n8: "n < 8" "\<not> bit (status ! 0) n" by simp_all
  have "unat (of_nat n * 0x1000 :: u32) = n * 4096"
    using n8(1) unat_of_nat32 [of "n * 4096"] by simp
  then have "unat ((a - base) div 0x1000) = n" by (simp add: a(1) unat_div)
  with assms(2) n8 show ?thesis
    by (cases status) (auto simp: free_in_def a(2) set_clear_bit [unfolded push_bit_of_1])
qed

lemma upt_8: "[0..<8] = [0, 1, 2, 3, 4, 5, 6, 7]"
  by code_simp

section \<open>Properties: the free list\<close>

lemma init_memory_link:
  assumes "hs = headers m (0x9000 + e_phoff (elf_at m 0x9000)) (unat (e_phnum (elf_at m 0x9000)))"
    and "last_index (\<lambda>h. p_type h = LOAD_SEG) hs = Some i"
  shows "init_memory m = Some (link_pages m None (ALIGN_UP (p_vaddr (hs ! i) + p_memsize (hs ! i))) 0)"
proof -
  let ?b = "0x9000 + e_phoff (elf_at m 0x9000)" and ?n = "unat (e_phnum (elf_at m 0x9000))"
  have "find_end m (?b + of_nat ?n * of_nat 32 - of_nat 32) ?n = Some (p_vaddr (hs ! i) + p_memsize (hs ! i))"
    using assms find_end_last_index [of m ?b ?n] by simp
  then show ?thesis by (simp add: init_memory_def Let_def)
qed

text \<open>
  C23: \<open>init_memory\<close> takes as the kernel's end the end of its last loadable segment, and, when that
  is inside physical memory, leaves on the free list exactly the pages from the next page boundary
  to the end of physical memory, in order: so any number \<open>n\<close> of allocations up to the number of
  these pages returns the first \<open>n\<close> of them, all distinct, page-aligned and inside that range.
\<close>

theorem init_memory_pages:
  assumes "hs = headers m (0x9000 + e_phoff (elf_at m 0x9000)) (unat (e_phnum (elf_at m 0x9000)))"
    and "last_index (\<lambda>h. p_type h = LOAD_SEG) hs = Some i"
    and "ALIGN_UP (p_vaddr (hs ! i) + p_memsize (hs ! i)) = start"
    and "start < PHY_2_VIR PHY_SIZE"
    and "n \<le> length (pages_from start)"
  shows "\<exists>s rs s'. init_memory m = Some s \<and> page_pool.alloc_many n s = Some (rs, s') \<and>
           rs = take n (pages_from start) \<and> distinct rs \<and>
           (\<forall>p \<in> set rs. page_aligned p \<and> unat start \<le> unat p \<and> unat p < 0xc2000000)"
proof -
  from assms(3) have al: "page_aligned start" by (metis page_aligned_ALIGN_UP)
  obtain s where s: "link_pages m None start 0 = s" by blast
  with init_memory_link [OF assms(1,2)] assms(3) have "init_memory m = Some s" by simp
  moreover from page_pool.alloc_many_take [OF link_pages_list(1) [OF al assms(4) s] assms(5)]
  obtain s' where "page_pool.alloc_many n s = Some (take n (pages_from start), s')" by blast
  ultimately show ?thesis
    using distinct_pages_from [OF al] set_pages_from [OF al]
    by (auto intro: distinct_take dest: in_set_takeD)
qed

text \<open>A kernel with one segment, \<open>0xc1ff0000\<close> to \<open>0xc1ffc123\<close>: three pages are left.\<close>

definition demo_boot_mem :: mem where
  "demo_boot_mem = (\<lambda>_. 7)(0x901c := 52, 0x901d := 0, 0x901e := 0, 0x901f := 0, 0x902c := 1, 0x902d := 0,
     0x9034 := 1, 0x9035 := 0, 0x9036 := 0, 0x9037 := 0,
     0x903c := 0, 0x903d := 0, 0x903e := 0xff, 0x903f := 0xc1,
     0x9048 := 0x23, 0x9049 := 0xc1, 0x904a := 0, 0x904b := 0)"

lemma demo_headers:
  "e_phoff (elf_at demo_boot_mem 0x9000) = 52" "e_phnum (elf_at demo_boot_mem 0x9000) = 1"
  "p_type (ph_at demo_boot_mem 0x9034) = LOAD_SEG"
  "p_vaddr (ph_at demo_boot_mem 0x9034) = 0xc1ff0000"
  "p_memsize (ph_at demo_boot_mem 0x9034) = 0xc123"
  by code_simp+

lemma demo_pages: "pages_from 0xc1ffd000 = [0xc1ffd000, 0xc1ffe000, 0xc1fff000]"
  by (simp add: pages_from_next pages_from_end less_PHY_END)

lemma demo_table:
  "headers demo_boot_mem 0x9034 (Suc 0) = [ph_at demo_boot_mem 0x9034]"
  by (simp add: headers_def)

theorem init_memory_pages_witness:
  "\<exists>s rs s'. init_memory demo_boot_mem = Some s \<and> page_pool.alloc_many 2 s = Some (rs, s') \<and>
     rs = [0xc1ffd000, 0xc1ffe000]"
  using init_memory_pages [of "[ph_at demo_boot_mem 0x9034]" demo_boot_mem 0 "0xc1ffd000" 2]
  by (simp add: demo_headers demo_table demo_pages ALIGN_UP_def less_PHY_END)

text \<open>
  The last page's link is never written.  After all pages have been handed out, \<open>alloc_page\<close>
  does not fail: the next \<open>page\<close> it returns is the word that happened to be at the start of the last
  page when the kernel was loaded.
\<close>

theorem alloc_page_past_end:
  assumes "page_aligned start" and "start < PHY_2_VIR PHY_SIZE"
    and "link_pages m None start 0 = s"
  shows "\<exists>s'. page_pool.alloc_many (length (pages_from start)) s = Some (pages_from start, s') \<and>
           fst (alloc_page s') = load32 m (last (pages_from start))"
proof -
  let ?ps = "pages_from start"
  have ne: "?ps \<noteq> []" by (simp add: pages_from_next [OF assms(1,2)])
  have all: "chained (fst s) (snd s) ps \<Longrightarrow> ps \<noteq> [] \<Longrightarrow>
      page_pool.alloc_many (length ps) s = Some (ps, (fst s, load32 (fst s) (last ps)))" for ps s
  proof (induction ps arbitrary: s)
    case (Cons x xs)
    have "alloc_page s = (snd s, (fst s, load32 (fst s) (snd s)))" by (rule alloc_page_def)
    with Cons show ?case by (cases "xs = []") auto
  qed simp
  from link_pages_list [OF assms] have "chained (fst s) (snd s) ?ps"
    and "load32 (fst s) (last ?ps) = load32 m (last ?ps)" by (auto simp: page_list_def)
  with all [OF _ ne] show ?thesis by (auto simp: alloc_page_def [of "(a, b)" for a b])
qed

theorem alloc_page_past_end_witness:
  "\<exists>s'. page_pool.alloc_many 3 (link_pages demo_boot_mem None 0xc1ffd000 0)
       = Some ([0xc1ffd000, 0xc1ffe000, 0xc1fff000], s') \<and> fst (alloc_page s') = 0x07070707"
proof -
  have "load32 demo_boot_mem 0xc1fff000 = 0x07070707" by code_simp
  then show ?thesis
    using alloc_page_past_end [where start = "0xc1ffd000" and m = demo_boot_mem, OF _ _ refl]
    by (simp add: demo_pages less_PHY_END numeral_3_eq_3 del: page_pool.alloc_many.simps)
qed

text \<open>
  Pages given back are handed out again, the last one freed first, before any other page of
  the list; freeing writes nothing but the freed pages, and allocating writes nothing.
\<close>

theorem freed_pages_return:
  assumes "page_list s xs" and "distinct ys" and "\<forall>y \<in> set ys. page_aligned y"
    and "set ys \<inter> set xs = {}"
  shows "\<exists>s'. page_pool.alloc_many (length ys) (fold free_page ys s) = Some (rev ys, s') \<and>
           page_list s' xs \<and> (\<forall>q. (\<forall>y \<in> set ys. 4096 \<le> unat (q - y)) \<longrightarrow> fst s' q = fst s q)"
proof -
  have "page_list (fold free_page ys s) (rev ys @ xs)"
    using assms by (intro page_pool.give_many)
  from page_pool.alloc_many_take [OF this, of "length ys"]
  obtain s' where s': "page_pool.alloc_many (length ys) (fold free_page ys s) = Some (rev ys, s')"
    "page_list s' xs" by auto
  have mem: "page_pool.alloc_many n t = Some (rs, t') \<Longrightarrow> fst t' = fst t" for n t rs t'
  proof (induction n arbitrary: t rs)
    case (Suc n)
    have "alloc_page t = (snd t, (fst t, load32 (fst t) (snd t)))" by (rule alloc_page_def)
    with Suc show ?case by (auto split: bind_splits)
  qed simp
  have "(\<forall>y \<in> set ys. 4096 \<le> unat (q - y)) \<Longrightarrow> fst (fold free_page ys t) q = fst t q" for q t
    by (induction ys arbitrary: t) (auto simp: free_page_def store32_outside)
  with s' mem [OF s'(1)] show ?thesis by auto
qed

theorem freed_pages_return_witness:
  "\<exists>s'. page_pool.alloc_many 2 (fold free_page [0xc1ffd000, 0xc1fff000] (demo_boot_mem, 0))
     = Some ([0xc1fff000, 0xc1ffd000], s')"
  unfolding numeral_2_eq_2
  using freed_pages_return [of "(demo_boot_mem, 0)" "[]" "[0xc1ffd000, 0xc1fff000]"]
  by (auto simp: page_list_def simp del: page_pool.alloc_many.simps)

section \<open>Properties: the bitmap allocator\<close>

text \<open>
  A page taken from the bitmap by \<open>palloc\<close> is returned by \<open>free\<close>: both bitmaps are what they were.
\<close>

theorem palloc_free_roundtrip:
  assumes "palloc type (k, u) = Some (a, s)" and "k \<noteq> []" and "u \<noteq> []"
  shows "free type a s = Some (k, u)"
  using assms free_palloc_in by (auto simp: palloc_def free_def split: if_splits)

theorem palloc_free_roundtrip_witness:
  "free 0 0x142000 ([7], [0]) = Some ([3], [0])"
proof -
  have "palloc 0 ([3], [0]) = Some (0x142000, ([7], [0]))"
    by (simp add: palloc_def palloc_in_first_byte upt_8)
  from palloc_free_roundtrip [OF this] show ?thesis by simp
qed

text \<open>
  However large the bitmap, \<open>palloc\<close> has eight pages to give: it returns the pages of the
  first byte in order, and then does not return, because a full byte, read as a signed \<open>char\<close>, is
  never equal to \<open>0xff\<close> and is not skipped.
\<close>

fun palloc_many :: "nat \<Rightarrow> u8 list \<Rightarrow> u32 \<Rightarrow> (u32 list \<times> u8 list) option" where
  "palloc_many 0 st base = Some ([], st)"
| "palloc_many (Suc n) st base = do {
     (a, st') \<leftarrow> palloc_in st base;
     (as, st'') \<leftarrow> palloc_many n st' base;
     Some (a # as, st'')
   }"

theorem palloc_eight_pages:
  "palloc_many 8 (0 # rest) base =
     Some ([base, base + 0x1000, base + 0x2000, base + 0x3000,
            base + 0x4000, base + 0x5000, base + 0x6000, base + 0x7000], 0xff # rest)
   \<and> palloc_many 9 (0 # rest) base = None"
  by (simp add: eval_nat_numeral palloc_in_first_byte)

end
