(* ===== verification/Paging.thy ===== *)
theory Paging
  imports PhysMem
begin

text \<open>
  Paging (\<open>memory.c\<close>, structures from \<open>kernel.h\<close>): page directory and page table entries as
  records of bit-fields and their words in memory, \<open>page_map\<close> and the older \<open>kmap\<close>, \<open>kalloc\<close>,
  \<open>umap\<close>, \<open>ualloc\<close> and \<open>get_phy_addr\<close>.  The specification is \<open>translate\<close>, the two-level walk of
  the i386 processor over a directory in memory.
\<close>

abbreviation PAGE_P :: u32 where "PAGE_P \<equiv> 1"
abbreviation PAGE_RW :: u32 where "PAGE_RW \<equiv> 2"
abbreviation PAGE_S :: u32 where "PAGE_S \<equiv> 0"
abbreviation PAGE_U :: u32 where "PAGE_U \<equiv> 4"
abbreviation KMEM :: int where "KMEM \<equiv> 0"
abbreviation PAGE_PRESENT_FALSE :: "1 word" where "PAGE_PRESENT_FALSE \<equiv> 0"
abbreviation PAGE_PRESENT_TRUE :: "1 word" where "PAGE_PRESENT_TRUE \<equiv> 1"
abbreviation PAGE_TYPE_READ_WRITE :: "1 word" where "PAGE_TYPE_READ_WRITE \<equiv> 1"

section \<open>Entries\<close>

record page_dir_item_t =
  pd_present :: "1 word"
  pd_type :: "1 word"
  pd_privilege :: "1 word"
  pd_pwt :: "1 word"
  pd_pcd :: "1 word"
  pd_accessed :: "1 word"
  pd_ignore2 :: "1 word"
  pd_pat :: "1 word"
  pd_ignore1 :: "4 word"
  pd_address :: "20 word"

record page_table_item_t =
  pt_present :: "1 word"
  pt_type :: "1 word"
  pt_privilege :: "1 word"
  pt_pwt :: "1 word"
  pt_pcd :: "1 word"
  pt_accessed :: "1 word"
  pt_d :: "1 word"
  pt_pat :: "1 word"
  pt_g :: "1 word"
  pt_ignore :: "3 word"
  pt_address :: "20 word"

text \<open>The compiler allocates bit-fields from the least significant bit up.\<close>

definition page_dir_item_of_word :: "u32 \<Rightarrow> page_dir_item_t" where
  "page_dir_item_of_word w =
     \<lparr>pd_present = ucast w, pd_type = ucast (drop_bit 1 w), pd_privilege = ucast (drop_bit 2 w),
      pd_pwt = ucast (drop_bit 3 w), pd_pcd = ucast (drop_bit 4 w),
      pd_accessed = ucast (drop_bit 5 w), pd_ignore2 = ucast (drop_bit 6 w),
      pd_pat = ucast (drop_bit 7 w), pd_ignore1 = ucast (drop_bit 8 w),
      pd_address = ucast (drop_bit 12 w)\<rparr>"

definition word_of_page_dir_item :: "page_dir_item_t \<Rightarrow> u32" where
  "word_of_page_dir_item i =
     ucast (pd_present i) OR push_bit 1 (ucast (pd_type i)) OR push_bit 2 (ucast (pd_privilege i))
     OR push_bit 3 (ucast (pd_pwt i)) OR push_bit 4 (ucast (pd_pcd i))
     OR push_bit 5 (ucast (pd_accessed i)) OR push_bit 6 (ucast (pd_ignore2 i))
     OR push_bit 7 (ucast (pd_pat i)) OR push_bit 8 (ucast (pd_ignore1 i))
     OR push_bit 12 (ucast (pd_address i))"

definition page_table_item_of_word :: "u32 \<Rightarrow> page_table_item_t" where
  "page_table_item_of_word w =
     \<lparr>pt_present = ucast w, pt_type = ucast (drop_bit 1 w), pt_privilege = ucast (drop_bit 2 w),
      pt_pwt = ucast (drop_bit 3 w), pt_pcd = ucast (drop_bit 4 w),
      pt_accessed = ucast (drop_bit 5 w), pt_d = ucast (drop_bit 6 w),
      pt_pat = ucast (drop_bit 7 w), pt_g = ucast (drop_bit 8 w), pt_ignore = ucast (drop_bit 9 w),
      pt_address = ucast (drop_bit 12 w)\<rparr>"

definition word_of_page_table_item :: "page_table_item_t \<Rightarrow> u32" where
  "word_of_page_table_item i =
     ucast (pt_present i) OR push_bit 1 (ucast (pt_type i)) OR push_bit 2 (ucast (pt_privilege i))
     OR push_bit 3 (ucast (pt_pwt i)) OR push_bit 4 (ucast (pt_pcd i))
     OR push_bit 5 (ucast (pt_accessed i)) OR push_bit 6 (ucast (pt_d i))
     OR push_bit 7 (ucast (pt_pat i)) OR push_bit 8 (ucast (pt_g i))
     OR push_bit 9 (ucast (pt_ignore i)) OR push_bit 12 (ucast (pt_address i))"

definition load_pde :: "mem \<Rightarrow> u32 \<Rightarrow> page_dir_item_t" where
  "load_pde m p = page_dir_item_of_word (load32 m p)"

definition store_pde :: "mem \<Rightarrow> u32 \<Rightarrow> page_dir_item_t \<Rightarrow> mem" where
  "store_pde m p i = store32 m p (word_of_page_dir_item i)"

definition load_pte :: "mem \<Rightarrow> u32 \<Rightarrow> page_table_item_t" where
  "load_pte m p = page_table_item_of_word (load32 m p)"

definition store_pte :: "mem \<Rightarrow> u32 \<Rightarrow> page_table_item_t \<Rightarrow> mem" where
  "store_pte m p i = store32 m p (word_of_page_table_item i)"

definition generate_page_dir_item :: "page_dir_item_t \<Rightarrow> u32 \<Rightarrow> u32 \<Rightarrow> page_dir_item_t" where
  "generate_page_dir_item i page_table_phy_ptr page_privilege =
     i\<lparr>pd_address := ucast (drop_bit 12 page_table_phy_ptr), pd_ignore1 := 0, pd_pat := 0,
       pd_ignore2 := 0, pd_accessed := 0, pd_pcd := 0, pd_pwt := 0,
       pd_privilege := ucast page_privilege, pd_type := PAGE_TYPE_READ_WRITE,
       pd_present := PAGE_PRESENT_TRUE\<rparr>"

definition generate_page_table_item :: "page_table_item_t \<Rightarrow> u32 \<Rightarrow> u32 \<Rightarrow> page_table_item_t" where
  "generate_page_table_item i page_phy_ptr page_privilege =
     i\<lparr>pt_address := ucast (drop_bit 12 page_phy_ptr), pt_ignore := 0, pt_g := 0, pt_pat := 0,
       pt_d := 0, pt_accessed := 0, pt_pcd := 0, pt_pwt := 0,
       pt_privilege := ucast page_privilege, pt_type := PAGE_TYPE_READ_WRITE,
       pt_present := PAGE_PRESENT_TRUE\<rparr>"

section \<open>Mapping a page\<close>

text \<open>The first argument is \<open>mycpu.current_process->pagedir\<close>; the state is that of the page allocator.\<close>

definition page_map :: "u32 \<Rightarrow> u32 \<Rightarrow> u32 \<Rightarrow> u32 \<Rightarrow> mem \<times> u32 \<Rightarrow> mem \<times> u32" where
  "page_map pagedir vir_addr phy_addr page_privilege s =
     (let page_dir_idx = drop_bit 22 (vir_addr AND 0xffc00000);
          pde = pagedir + 4 * page_dir_idx;
          s = (if pd_present (load_pde (fst s) pde) = PAGE_PRESENT_FALSE
               then let (page_table_ptr, (m, free_list)) = alloc_page s;
                        m = fill m page_table_ptr PAGESIZE 0;
                        m = store_pde m pde (generate_page_dir_item (load_pde m pde)
                              (VIR_2_PHY page_table_ptr) page_privilege)
                    in (m, free_list)
               else s);
          base = PHY_2_VIR (push_bit 12 (ucast (pd_address (load_pde (fst s) pde))));
          page_table_idx = drop_bit 12 (vir_addr AND 0x003ff000);
          pte = base + 4 * page_table_idx
      in (store_pte (fst s) pte
            (generate_page_table_item (load_pte (fst s) pte) phy_addr page_privilege), snd s))"

definition kmap :: "u32 \<Rightarrow> u32 \<Rightarrow> u32 \<Rightarrow> mem \<Rightarrow> mem" where
  "kmap pagedir vir_addr_start phy_page m =
     (let page_dir_idx = drop_bit 22 (vir_addr_start AND 0xffc00000);
          page_table = load32 m (pagedir + 4 * page_dir_idx) AND 0xfffff000;
          page_table_idx = drop_bit 12 (vir_addr_start AND 0x003ff000)
      in store32 m (PHY_2_VIR page_table + 4 * page_table_idx) (phy_page + PAGE_P + PAGE_RW + PAGE_U))"

text \<open>State: memory, \<open>kvir_next_addr\<close> and the two bitmaps.\<close>

definition kalloc ::
  "u32 \<Rightarrow> mem \<times> u32 \<times> (u8 list \<times> u8 list) \<Rightarrow> (u32 \<times> (mem \<times> u32 \<times> (u8 list \<times> u8 list))) option" where
  "kalloc pagedir s = (case s of (m, kvir_next_addr, st) \<Rightarrow> do {
     (phy_page, st) \<leftarrow> palloc KMEM st;
     let m = kmap pagedir kvir_next_addr phy_page m;
         kvir_next_addr = kvir_next_addr + of_nat PAGESIZE
     in Some (kvir_next_addr - of_nat PAGESIZE, (m, kvir_next_addr, st))
   })"

partial_function (option) umap_loop :: "u32 \<Rightarrow> u32 \<Rightarrow> mem \<times> u32 \<Rightarrow> (u32 \<times> (mem \<times> u32)) option" where
  "umap_loop pde page_table s =
     (if page_table AND PAGE_P = 0
      then let (page, s) = alloc_page s;
               page_table = VIR_2_PHY page
           in umap_loop pde page_table (store32 (fst s) pde (page_table + PAGE_P + PAGE_RW + PAGE_U), snd s)
      else Some (page_table, s))"

definition umap :: "u32 \<Rightarrow> u32 \<Rightarrow> u32 \<Rightarrow> mem \<times> u32 \<Rightarrow> (mem \<times> u32) option" where
  "umap page_dir vir_addr_start phy_page s =
     (let page_dir_idx = drop_bit 22 (vir_addr_start AND 0xffc00000);
          pde = page_dir + 4 * page_dir_idx
      in do {
        (page_table, s) \<leftarrow> umap_loop pde (load32 (fst s) pde) s;
        let page_table_idx = drop_bit 12 (vir_addr_start AND 0x003ff000);
            pte = PHY_2_VIR (page_table AND 0xfffff000) + 4 * page_table_idx
        in Some (store32 (fst s) pte (phy_page + PAGE_P + PAGE_RW + PAGE_U), snd s)
      })"

text \<open>\<open>uvir_next_addr\<close> is passed and returned.\<close>

definition ualloc :: "u32 \<Rightarrow> u32 \<Rightarrow> mem \<times> u32 \<Rightarrow> (u32 \<times> u32 \<times> (mem \<times> u32)) option" where
  "ualloc uvir_next_addr upage_dir s =
     (let (page, s) = alloc_page s; phy_page = VIR_2_PHY page
      in do {
        s \<leftarrow> umap upage_dir uvir_next_addr phy_page s;
        let uvir_next_addr = uvir_next_addr + of_nat PAGESIZE
        in Some (uvir_next_addr - of_nat PAGESIZE, uvir_next_addr, s)
      })"

definition get_phy_addr :: "u32 \<Rightarrow> mem \<Rightarrow> u32 \<Rightarrow> u32" where
  "get_phy_addr pagedir m vir_addr =
     (let page_dir_idx = drop_bit 22 (vir_addr AND 0xffc00000);
          page_table_idx = drop_bit 12 (vir_addr AND 0x003ff000);
          pt = load32 m (pagedir + 4 * page_dir_idx);
          page_table = PHY_2_VIR (pt AND 0xfffff000)
      in load32 m (page_table + 4 * page_table_idx) AND 0xfffff000)"

section \<open>The processor's walk\<close>

definition dir_index :: "u32 \<Rightarrow> u32" where "dir_index va = drop_bit 22 va"
definition table_index :: "u32 \<Rightarrow> u32" where "table_index va = drop_bit 12 va AND 0x3ff"

definition table_at :: "mem \<Rightarrow> u32 \<Rightarrow> u32 \<Rightarrow> u32 option" where
  "table_at m pagedir i =
     (let pde = load32 m (pagedir + 4 * i)
      in if bit pde 0 then Some (PHY_2_VIR (pde AND 0xfffff000)) else None)"

text \<open>The physical address of \<open>va\<close> and the entry that maps it, or \<open>None\<close>: a page fault.\<close>

definition translate :: "mem \<Rightarrow> u32 \<Rightarrow> u32 \<Rightarrow> (u32 \<times> u32) option" where
  "translate m pagedir va = do {
     table \<leftarrow> table_at m pagedir (dir_index va);
     let pte = load32 m (table + 4 * table_index va)
     in if bit pte 0 then Some ((pte AND 0xfffff000) OR (va AND 0xfff), pte) else None
   }"

text \<open>
  Reading and writing bytes through the walk, as the kernel does with a user's pointers; \<open>None\<close>
  when a byte is not mapped.
\<close>

fun vread :: "u32 \<Rightarrow> mem \<Rightarrow> u32 \<Rightarrow> nat \<Rightarrow> u8 list option" where
  "vread pagedir m p 0 = Some []"
| "vread pagedir m p (Suc n) = do {
     (a, _) \<leftarrow> translate m pagedir p;
     bs \<leftarrow> vread pagedir m (p + 1) n;
     Some (m (PHY_2_VIR a) # bs)
   }"

fun vwrite :: "u32 \<Rightarrow> mem \<Rightarrow> u32 \<Rightarrow> u8 list \<Rightarrow> mem option" where
  "vwrite pagedir m p [] = Some m"
| "vwrite pagedir m p (b # bs) = do {
     (a, _) \<leftarrow> translate m pagedir p;
     vwrite pagedir (m(PHY_2_VIR a := b)) (p + 1) bs
   }"

section \<open>Lemmas: words of the entries\<close>

lemma index_masks:
  "(0xffc00000 :: u32) = NOT (mask 22)" "(0x003ff000 :: u32) = push_bit 12 (mask 10)"
  "(0x3ff :: u32) = mask 10" "(0xfff :: u32) = mask 12"
  by (simp_all add: mask_eq_exp_minus_1)

lemma dir_index_mask: "drop_bit 22 (va AND 0xffc00000) = dir_index va"
  unfolding dir_index_def index_masks
  by (rule bit_word_eqI) (auto simp: bit_simps dest: bit_imp_le_length)

lemma table_index_mask: "drop_bit 12 (va AND 0x003ff000) = table_index va"
  unfolding table_index_def index_masks by (rule bit_word_eqI) (auto simp: bit_simps)

lemma one_bit_eq: "(w :: 1 word) = 0 \<longleftrightarrow> \<not> bit w 0"
proof
  assume "\<not> bit w 0"
  then show "w = 0" by (intro bit_word_eqI) simp
qed simp

lemma absent_pde: "pd_present (load_pde m p) = PAGE_PRESENT_FALSE \<longleftrightarrow> \<not> bit (load32 m p) 0"
  by (simp add: one_bit_eq load_pde_def page_dir_item_of_word_def bit_simps)

lemma table_of_pde:
  "push_bit 12 (ucast (pd_address (load_pde m p))) = load32 m p AND 0xfffff000"
  unfolding page_mask
  by (rule bit_word_eqI) (auto simp: load_pde_def page_dir_item_of_word_def bit_simps)

text \<open>The word of an entry for the frame of \<open>phy\<close>: present, writable, at that privilege.\<close>

definition entry_word :: "u32 \<Rightarrow> u32 \<Rightarrow> u32" where
  "entry_word phy priv = (phy AND NOT (mask 12)) OR push_bit 2 (take_bit 1 priv) OR mask 2"

lemma generate_pde_word:
  "word_of_page_dir_item (generate_page_dir_item i phy priv) = entry_word phy priv"
  by (rule bit_word_eqI)
    (auto simp: word_of_page_dir_item_def generate_page_dir_item_def entry_word_def bit_simps
       simp flip: bit_0)

lemma generate_pte_word:
  "word_of_page_table_item (generate_page_table_item i phy priv) = entry_word phy priv"
  by (rule bit_word_eqI)
    (auto simp: word_of_page_table_item_def generate_page_table_item_def entry_word_def bit_simps
       simp flip: bit_0)

text \<open>The bit-fields of an entry are its whole word.\<close>

lemma bit_field:
  "LENGTH('k :: len) \<le> 32 \<Longrightarrow> (ucast (ucast (w :: u32) :: 'k word) :: u32) = take_bit LENGTH('k) w"
  by (rule bit_word_eqI) (auto simp: bit_simps)

lemma join_fields:
  "take_bit n w OR push_bit n (take_bit k (drop_bit n w)) = take_bit (n + k) (w :: u32)"
  by (rule bit_word_eqI) (auto simp: bit_simps)

lemma join_more_fields:
  "take_bit n w OR push_bit n (take_bit k (drop_bit n w)) OR x = take_bit (n + k) (w :: u32) OR x"
  by (simp only: or.assoc [symmetric] join_fields)

lemma pde_roundtrip: "word_of_page_dir_item (page_dir_item_of_word w) = w"
  by (simp add: word_of_page_dir_item_def page_dir_item_of_word_def bit_field join_fields
      join_more_fields take_bit_word_eq_self del: One_nat_def)

lemma pte_roundtrip: "word_of_page_table_item (page_table_item_of_word w) = w"
  by (simp add: word_of_page_table_item_def page_table_item_of_word_def bit_field join_fields
      join_more_fields take_bit_word_eq_self del: One_nat_def)

section \<open>Lemmas: entries of aligned tables\<close>

lemma dir_index_less: "unat (dir_index va) < 1024"
proof -
  have "take_bit 10 (dir_index va) = dir_index va"
    unfolding dir_index_def by (rule bit_word_eqI) (auto simp: bit_simps dest: bit_imp_le_length)
  then have "unat (take_bit 10 (dir_index va)) = unat (dir_index va)" by simp
  moreover have "unat (take_bit 10 (dir_index va)) < 2 ^ 10"
    by (simp only: unsigned_take_bit_eq take_bit_nat_less_exp)
  ultimately show ?thesis by simp
qed

lemma table_index_less: "unat (table_index va) < 1024"
proof -
  have "table_index va = take_bit 10 (drop_bit 12 va)"
    unfolding table_index_def index_masks by (simp add: take_bit_eq_mask)
  moreover have "unat (take_bit 10 (drop_bit 12 va)) < 2 ^ 10"
    by (simp only: unsigned_take_bit_eq take_bit_nat_less_exp)
  ultimately show ?thesis by simp
qed

text \<open>The two indices name the page.\<close>

lemma same_page:
  "dir_index a = dir_index b \<Longrightarrow> table_index a = table_index b \<Longrightarrow> drop_bit 12 a = drop_bit 12 b"
proof (rule bit_word_eqI)
  fix n assume d: "dir_index a = dir_index b" and t: "table_index a = table_index b" and "n < LENGTH(32)"
  show "bit (drop_bit 12 a) n = bit (drop_bit 12 b) n"
  proof (cases "n < 10")
    case True
    with arg_cong [OF t, where f = "\<lambda>w. bit w n"] show ?thesis
      by (auto simp: table_index_def index_masks(3) bit_simps simp del: mask_numeral)
  next
    case False
    with arg_cong [OF d, where f = "\<lambda>w. bit w (n - 10)"] show ?thesis
      by (simp add: dir_index_def bit_simps)
  qed
qed

lemma indices_of_page:
  "drop_bit 12 a = drop_bit 12 b \<Longrightarrow> dir_index a = dir_index b \<and> table_index a = table_index b"
  by (auto simp: table_index_def dir_index_def dest: arg_cong [where f = "drop_bit 10"])

lemma page_room: "page_aligned (p :: u32) \<Longrightarrow> unat p + 4096 \<le> 2 ^ 32"
proof -
  assume "page_aligned p"
  then obtain k where k: "unat p = 4096 * k" by (auto simp: dvd_def)
  have "4096 * k < 4096 * 2 ^ 20" using unsigned_less [of p, where 'a = nat] by (simp add: k)
  then show ?thesis by (simp add: k)
qed

lemma entry_unat:
  assumes "page_aligned p" and "unat i < 1024"
  shows "unat (p + 4 * i) = unat p + 4 * unat i"
proof -
  have "unat (4 * i) = 4 * unat i"
    using assms(2) by (simp add: unat_word_ariths)
  with assms(2) page_room [OF assms(1)] show ?thesis
    by (subst unat_add_small) simp_all
qed

lemma entry_aligned: "page_aligned p \<Longrightarrow> unat i < 1024 \<Longrightarrow> word_aligned (p + 4 * i)"
  using page_word_aligned [of p] by (simp add: entry_unat)

lemma entry_inj:
  assumes "page_aligned p" and "page_aligned q" and "unat i < 1024" and "unat j < 1024"
  shows "p + 4 * i = q + 4 * j \<longleftrightarrow> p = q \<and> i = j"
proof
  assume "p + 4 * i = q + 4 * j"
  then have eq: "unat p + 4 * unat i = unat q + 4 * unat j"
    using assms by (metis entry_unat)
  from assms(1,2) obtain a b where ab: "unat p = 4096 * a" "unat q = 4096 * b" by (auto simp: dvd_def)
  have "a = b" using eq assms(3,4) unfolding ab by linarith
  with eq ab show "p = q \<and> i = j" by (simp add: word_unat_eq_iff)
qed simp

text \<open>A store to an entry is seen by loads of that entry only.\<close>

lemma load_entry_store:
  assumes "page_aligned p" and "page_aligned q" and "unat i < 1024" and "unat j < 1024"
  shows "load32 (store32 m (p + 4 * i) w) (q + 4 * j) =
    (if p = q \<and> i = j then w else load32 m (q + 4 * j))"
  using assms entry_inj [OF assms]
  by (auto simp: load32_store32_other entry_aligned)

lemma load_entry_fill:
  assumes "page_aligned p" and "page_aligned q" and "unat j < 1024"
  shows "load32 (fill m p 4096 0) (q + 4 * j) = (if p = q then 0 else load32 m (q + 4 * j))"
proof -
  have off: "q + 4 * j + of_nat k = q + of_nat (4 * unat j + k)" for k
    by (simp add: algebra_simps)
  show ?thesis
  proof (cases "p = q")
    case True
    have "fill m p 4096 0 (q + 4 * j + of_nat k) = 0" if "k < 4" for k
    proof -
      have "unat (of_nat (4 * unat j + k) :: u32) = 4 * unat j + k"
        using assms(3) that by (intro unat_of_nat32) simp
      with True assms(3) that show ?thesis by (simp add: off fill_apply del: of_nat_add of_nat_mult)
    qed
    then have "mem_read (fill m p 4096 0) (q + 4 * j) 4 = replicate 4 0"
      by (intro nth_equalityI) (auto simp: mem_read_def)
    moreover have "rd32 (replicate 4 0) = 0" by code_simp
    ultimately show ?thesis using True by (simp add: load32_def)
  next
    case False
    have "fill m p 4096 0 (q + 4 * j + of_nat k) = m (q + 4 * j + of_nat k)" if "k < 4" for k
      using aligned_apart [OF assms(1,2) _ False, of "4 * unat j + k"] assms(3) that
      by (simp add: off fill_apply del: of_nat_add of_nat_mult)
    with False show ?thesis by (auto intro!: load32_cong)
  qed
qed

section \<open>Lemmas: the two stages of a mapping\<close>

text \<open>\<open>page_map\<close> first makes sure that there is a page table, then writes one entry of it.\<close>

definition ensure_table :: "u32 \<Rightarrow> u32 \<Rightarrow> u32 \<Rightarrow> mem \<times> u32 \<Rightarrow> mem \<times> u32" where
  "ensure_table pd i priv s =
     (if bit (load32 (fst s) (pd + 4 * i)) 0 then s
      else (store32 (fill (fst s) (snd s) 4096 0) (pd + 4 * i) (entry_word (VIR_2_PHY (snd s)) priv),
            load32 (fst s) (snd s)))"

lemma page_map_stages:
  "page_map pd va pa priv s =
     (let s1 = ensure_table pd (dir_index va) priv s;
          t = PHY_2_VIR (load32 (fst s1) (pd + 4 * dir_index va) AND 0xfffff000)
      in (store32 (fst s1) (t + 4 * table_index va) (entry_word pa priv), snd s1))"
  unfolding page_map_def dir_index_mask table_index_mask
  by (simp add: ensure_table_def absent_pde table_of_pde store_pde_def store_pte_def
      generate_pde_word generate_pte_word alloc_page_def Let_def)

lemma entry_word_frame: "entry_word phy priv AND 0xfffff000 = phy AND 0xfffff000"
  unfolding entry_word_def page_mask by (rule bit_word_eqI) (auto simp: bit_simps)

lemma entry_word_present: "bit (entry_word phy priv) 0"
  by (simp add: entry_word_def bit_simps flip: bit_0)

lemma frame_of_aligned:
  assumes "page_aligned p"
  shows "p AND 0xfffff000 = p"
proof -
  from assms have t: "take_bit 12 p = 0" by (simp only: page_aligned_take_bit)
  have low: "\<not> bit p n" if "n < 12" for n
    using that arg_cong [OF t, where f = "\<lambda>w. bit w n"] by (simp add: bit_simps)
  show ?thesis
    unfolding page_mask by (rule bit_word_eqI) (use low in \<open>auto simp: bit_simps\<close>)
qed

lemma page_aligned_PHY_2_VIR: "page_aligned p \<Longrightarrow> page_aligned (PHY_2_VIR p)"
  and page_aligned_VIR_2_PHY: "page_aligned p \<Longrightarrow> page_aligned (VIR_2_PHY p)"
proof -
  have "PHY_2_VIR p = p - 0x40000000" by (simp add: PHY_2_VIR_def)
  then show "page_aligned p \<Longrightarrow> page_aligned (PHY_2_VIR p)"
    by (simp only:) (intro dvd_unat_diff; simp)
  show "page_aligned p \<Longrightarrow> page_aligned (VIR_2_PHY p)"
    unfolding VIR_2_PHY_def by (intro dvd_unat_diff) simp_all
qed

lemma page_aligned_frame: "page_aligned (w AND 0xfffff000)"
  unfolding page_aligned_take_bit page_mask by (rule bit_word_eqI) (auto simp: bit_simps)

lemma PHY_VIR [simp]: "PHY_2_VIR (VIR_2_PHY p) = p" "VIR_2_PHY (PHY_2_VIR p) = p"
  by (simp_all add: PHY_2_VIR_def VIR_2_PHY_def)

lemma table_at_aligned: "table_at m pd i = Some t \<Longrightarrow> page_aligned t"
  by (auto simp: table_at_def Let_def page_aligned_PHY_2_VIR page_aligned_frame split: if_splits)

section \<open>Address spaces\<close>

text \<open>
  The state in which a directory is used: the free list is well formed, and neither the
  directory nor any of its tables is on it or is the directory itself.
\<close>

definition addr_space :: "mem \<times> u32 \<Rightarrow> u32 \<Rightarrow> u32 list \<Rightarrow> bool" where
  "addr_space s pd xs \<longleftrightarrow>
     page_list s xs \<and> page_aligned pd \<and> pd \<notin> set xs \<and>
     (\<forall>i t. unat i < 1024 \<longrightarrow> table_at (fst s) pd i = Some t \<longrightarrow> t \<notin> set xs \<and> t \<noteq> pd)"

lemma addr_space_table:
  "addr_space s pd xs \<Longrightarrow> unat j < 1024 \<Longrightarrow> table_at (fst s) pd j = Some u \<Longrightarrow>
   u \<notin> set xs \<and> u \<noteq> pd \<and> page_aligned u"
  using table_at_aligned unfolding addr_space_def by blast

lemma chained_cong:
  "chained m p xs \<Longrightarrow> (\<And>x. x \<in> set xs \<Longrightarrow> load32 m' x = load32 m x) \<Longrightarrow> chained m' p xs"
  by (induction xs arbitrary: p) auto

lemma page_list_cong:
  "page_list (m, f) xs \<Longrightarrow> (\<And>x. x \<in> set xs \<Longrightarrow> load32 m' x = load32 m x) \<Longrightarrow> page_list (m', f) xs"
  by (auto simp: page_list_def intro: chained_cong)

lemma page_list_entry_store:
  assumes "page_list (m, f) xs" and "page_aligned p" and "p \<notin> set xs" and "unat i < 1024"
  shows "page_list (store32 m (p + 4 * i) w, f) xs"
proof (rule page_list_cong [OF assms(1)])
  fix x assume x: "x \<in> set xs"
  with assms(1) have "page_aligned x" by (simp add: page_list_def)
  with x assms show "load32 (store32 m (p + 4 * i) w) x = load32 m x"
    using load_entry_store [of p x i 0 m w] by (auto simp: assms(2))
qed

lemma table_at_cong:
  "load32 m (pd + 4 * i) = load32 m' (pd + 4 * i) \<Longrightarrow> table_at m pd i = table_at m' pd i"
  by (simp add: table_at_def)

lemma ensure_table_present:
  "table_at (fst s) pd i = Some t \<Longrightarrow> ensure_table pd i priv s = s"
  by (auto simp: table_at_def ensure_table_def Let_def split: if_splits)

text \<open>A missing table is made of the first free page, cleared.\<close>

lemma ensure_table_absent:
  assumes sp: "addr_space s pd (t # xs)" and i: "unat i < 1024" and none: "table_at (fst s) pd i = None"
    and s1: "ensure_table pd i priv s = s1"
  shows "addr_space s1 pd xs" and "table_at (fst s1) pd i = Some t"
    and "\<And>j. unat j < 1024 \<Longrightarrow> load32 (fst s1) (t + 4 * j) = 0"
    and "\<And>j. unat j < 1024 \<Longrightarrow> j \<noteq> i \<Longrightarrow> table_at (fst s1) pd j = table_at (fst s) pd j"
    and "\<And>p j. page_aligned p \<Longrightarrow> unat j < 1024 \<Longrightarrow> p \<noteq> t \<Longrightarrow> p \<noteq> pd \<Longrightarrow>
           load32 (fst s1) (p + 4 * j) = load32 (fst s) (p + 4 * j)"
proof -
  let ?m = "fill (fst s) t 4096 0"
  from sp have pl: "page_list s (t # xs)" and pd: "page_aligned pd" "pd \<noteq> t" "pd \<notin> set xs"
    and tabs: "\<And>j u. unat j < 1024 \<Longrightarrow> table_at (fst s) pd j = Some u \<Longrightarrow> u \<notin> set (t # xs) \<and> u \<noteq> pd"
    by (auto simp: addr_space_def)
  from pl have t: "page_aligned t" "snd s = t" "t \<notin> set xs"
    and pl': "page_list (fst s, load32 (fst s) t) xs" and al: "\<forall>x \<in> set xs. page_aligned x"
    by (auto simp: page_list_def)
  have s1: "s1 = (store32 ?m (pd + 4 * i) (entry_word (VIR_2_PHY t) priv), load32 (fst s) t)"
    using none s1 t(2) by (auto simp: table_at_def ensure_table_def Let_def split: if_splits)
  have ld: "load32 (fst s1) (p + 4 * j) =
      (if p = t then 0 else if p = pd \<and> j = i then entry_word (VIR_2_PHY t) priv
       else load32 (fst s) (p + 4 * j))" if "page_aligned p" "unat j < 1024" for p j
    using that i pd t load_entry_store [OF pd(1) that(1) i that(2)] load_entry_fill [OF t(1) that]
    by (auto simp: s1)
  show "load32 (fst s1) (t + 4 * j) = 0" if "unat j < 1024" for j
    using ld [OF t(1) that] by simp
  show "load32 (fst s1) (p + 4 * j) = load32 (fst s) (p + 4 * j)"
    if "page_aligned p" "unat j < 1024" "p \<noteq> t" "p \<noteq> pd" for p j
    using ld [OF that(1,2)] that(3,4) by simp
  show other: "table_at (fst s1) pd j = table_at (fst s) pd j" if "unat j < 1024" "j \<noteq> i" for j
    using ld [OF pd(1) that(1)] that(2) pd(2) by (intro table_at_cong) simp
  show at: "table_at (fst s1) pd i = Some t"
    using ld [OF pd(1) i] pd(2)
    by (simp add: table_at_def entry_word_present entry_word_frame frame_of_aligned
        page_aligned_VIR_2_PHY t(1) Let_def del: bit_0)
  have "page_list (?m, load32 (fst s) t) xs"
  proof (rule page_list_cong [OF pl'])
    fix x assume "x \<in> set xs"
    with al t show "load32 ?m x = load32 (fst s) x"
      using load_entry_fill [OF t(1), of x 0] by auto
  qed
  then have "page_list s1 xs" unfolding s1 using pd i by (intro page_list_entry_store)
  moreover have "u \<notin> set xs \<and> u \<noteq> pd" if "unat j < 1024" "table_at (fst s1) pd j = Some u" for j u
    using that tabs [of j u] other [of j] at t(3) pd(2) by (cases "j = i") auto
  ultimately show "addr_space s1 pd xs" using pd by (auto simp: addr_space_def)
qed

text \<open>Writing one entry of a table that no other directory entry shares.\<close>

lemma write_entry:
  assumes sp: "addr_space s pd xs" and i: "table_at (fst s) pd (dir_index va) = Some t"
    and unshared: "\<And>j. unat j < 1024 \<Longrightarrow> table_at (fst s) pd j = Some t \<Longrightarrow> j = dir_index va"
    and s': "s' = (store32 (fst s) (t + 4 * table_index va) (entry_word pa priv), snd s)"
  shows "addr_space s' pd xs"
    and "translate (fst s') pd x =
      (if drop_bit 12 x = drop_bit 12 va
       then Some ((pa AND 0xfffff000) OR (x AND 0xfff), entry_word pa priv)
       else translate (fst s) pd x)"
proof -
  from addr_space_table [OF sp dir_index_less i]
  have t: "page_aligned t" "t \<notin> set xs" "t \<noteq> pd" by simp_all
  from sp have pd: "page_aligned pd" by (simp add: addr_space_def)
  have tab: "table_at (fst s') pd j = table_at (fst s) pd j" if "unat j < 1024" for j
    using load_entry_store [OF t(1) pd table_index_less that] t(3)
    by (intro table_at_cong) (simp add: s')
  have "page_list s' xs"
    unfolding s' using sp t table_index_less by (intro page_list_entry_store) (auto simp: addr_space_def)
  with sp tab show "addr_space s' pd xs" by (auto simp: addr_space_def)
  have ld: "load32 (fst s') (u + 4 * table_index x) =
      (if t = u \<and> table_index va = table_index x then entry_word pa priv
       else load32 (fst s) (u + 4 * table_index x))" if "page_aligned u" for u
    using load_entry_store [OF t(1) that table_index_less table_index_less] by (simp add: s')
  show "translate (fst s') pd x =
      (if drop_bit 12 x = drop_bit 12 va
       then Some ((pa AND 0xfffff000) OR (x AND 0xfff), entry_word pa priv)
       else translate (fst s) pd x)"
  proof (cases "drop_bit 12 x = drop_bit 12 va")
    case True
    with indices_of_page [OF True] i tab [OF dir_index_less] ld [OF t(1)] show ?thesis
      by (simp add: translate_def entry_word_present entry_word_frame Let_def del: bit_0)
  next
    case False
    show ?thesis
    proof (cases "table_at (fst s) pd (dir_index x)")
      case None
      with False tab [OF dir_index_less] show ?thesis by (simp add: translate_def)
    next
      case (Some u)
      have "\<not> (t = u \<and> table_index va = table_index x)"
        using unshared [OF dir_index_less, of x] Some False same_page [of x va] by auto
      then have "load32 (fst s') (u + 4 * table_index x) = load32 (fst s) (u + 4 * table_index x)"
        using ld [OF table_at_aligned [OF Some]] by (simp only: if_False)
      with False Some tab [OF dir_index_less] show ?thesis by (simp add: translate_def)
    qed
  qed
qed

lemma page_map_write:
  assumes "table_at (fst s) pd (dir_index va) = Some t"
  shows "page_map pd va pa priv s =
    (store32 (fst s) (t + 4 * table_index va) (entry_word pa priv), snd s)"
  using assms ensure_table_present [OF assms]
  by (auto simp: page_map_stages table_at_def Let_def split: if_splits)

lemma page_map_new_table:
  assumes "ensure_table pd (dir_index va) priv s = s1"
    and "table_at (fst s1) pd (dir_index va) = Some t"
  shows "page_map pd va pa priv s = page_map pd va pa priv s1"
  using assms ensure_table_present [OF assms(2)] by (simp add: page_map_stages)

lemma load32_zero: "load32 (\<lambda>_. 0) p = 0"
proof -
  have "mem_read (\<lambda>_. 0) p 4 = replicate 4 0"
    by (intro nth_equalityI) (auto simp: mem_read_def)
  moreover have "rd32 (replicate 4 0) = 0" by code_simp
  ultimately show ?thesis by (simp add: load32_def)
qed

text \<open>What \<open>page_map\<close> does to the address space and to the walk.\<close>

lemma page_map_effect:
  assumes "addr_space s pd xs"
    and "table_at (fst s) pd (dir_index va) = None \<Longrightarrow> xs \<noteq> []"
    and "\<And>j t. unat j < 1024 \<Longrightarrow> table_at (fst s) pd (dir_index va) = Some t \<Longrightarrow>
           table_at (fst s) pd j = Some t \<Longrightarrow> j = dir_index va"
    and "s' = page_map pd va pa priv s"
  shows "addr_space s' pd (if table_at (fst s) pd (dir_index va) = None then tl xs else xs) \<and>
    translate (fst s') pd x =
      (if drop_bit 12 x = drop_bit 12 va
       then Some ((pa AND 0xfffff000) OR (x AND 0xfff), entry_word pa priv)
       else translate (fst s) pd x)"
proof (cases "table_at (fst s) pd (dir_index va)")
  case (Some t)
  from write_entry [OF assms(1) Some assms(3) [OF _ Some] refl, where pa = pa and priv = priv]
  show ?thesis using Some by (simp add: assms(4) page_map_write)
next
  case None
  with assms(2) obtain t ys where xs: "xs = t # ys" by (cases xs) auto
  define s1 where "s1 = ensure_table pd (dir_index va) priv s"
  note new = ensure_table_absent [OF assms(1) [unfolded xs] dir_index_less None s1_def [symmetric]]
  have uniq: "unat j < 1024 \<Longrightarrow> table_at (fst s1) pd j = Some t \<Longrightarrow> j = dir_index va" for j
    using new(4) [of j] addr_space_table [OF assms(1), of j t] by (cases "j = dir_index va") (auto simp: xs)
  have s': "s' = page_map pd va pa priv s1"
    using page_map_new_table [OF s1_def [symmetric] new(2)] assms(4) by simp
  have al: "page_aligned t" by (rule table_at_aligned [OF new(2)])
  have same: "translate (fst s1) pd y = translate (fst s) pd y" for y
  proof (cases "dir_index y = dir_index va")
    case True
    with None new(2) new(3) [OF table_index_less] show ?thesis by (simp add: translate_def Let_def)
  next
    case False
    have "table_at (fst s) pd (dir_index y) = Some u \<Longrightarrow> u \<noteq> t \<and> u \<noteq> pd \<and> page_aligned u" for u
      using addr_space_table [OF assms(1) dir_index_less] by (simp add: xs)
    with new(4) [OF dir_index_less False] new(5) [OF _ table_index_less] show ?thesis
      by (cases "table_at (fst s) pd (dir_index y)") (simp_all add: translate_def)
  qed
  from write_entry [OF new(1,2) uniq refl, where pa = pa and priv = priv] None
  show ?thesis by (simp add: s' page_map_write [OF new(2)] same xs)
qed

section \<open>Properties\<close>

text \<open>
  C22: \<open>page_map\<close> implements the mapping it promises.  In a well-formed address space whose table
  for \<open>vir_addr\<close> is missing (then one free page is needed) or is not shared with another directory
  entry, the processor's walk afterwards takes every address of the page of \<open>vir_addr\<close> to the same
  offset in the frame of \<open>phy_addr\<close>, present, writable and with the given privilege, and every other
  address to where it went before; the address space stays well formed, and the free list loses
  its first page exactly when a table had to be made.
\<close>

theorem page_map_correct:
  assumes "addr_space s pd xs"
    and "table_at (fst s) pd (dir_index va) = None \<Longrightarrow> xs \<noteq> []"
    and "\<And>j t. unat j < 1024 \<Longrightarrow> table_at (fst s) pd (dir_index va) = Some t \<Longrightarrow>
           table_at (fst s) pd j = Some t \<Longrightarrow> j = dir_index va"
    and "s' = page_map pd va pa priv s"
  shows "addr_space s' pd (if table_at (fst s) pd (dir_index va) = None then tl xs else xs) \<and>
    translate (fst s') pd x =
      (if drop_bit 12 x = drop_bit 12 va
       then Some ((pa AND 0xfffff000) OR (x AND 0xfff), entry_word pa priv)
       else translate (fst s) pd x)"
  using assms by (rule page_map_effect)

theorem page_map_correct_witness:
  "translate (fst (page_map 0xc1000000 0x08049000 0x7000 1 (\<lambda>_. 0, 0xc1fff000))) 0xc1000000 0x08049123
     = Some (0x7123, 0x7007)"
proof -
  have "addr_space (\<lambda>_. 0, 0xc1fff000) 0xc1000000 [0xc1fff000]"
    by (simp add: addr_space_def page_list_def table_at_def load32_zero)
  moreover have "entry_word 0x7000 1 = 0x7007" by code_simp
  ultimately show ?thesis
    using page_map_correct [of "(\<lambda>_. 0, 0xc1fff000)" "0xc1000000" "[0xc1fff000]" "0x08049000" _ "0x7000" 1 "0x08049123"]
    by (simp add: table_at_def load32_zero Let_def)
qed

lemma and_one_bit: "(w :: u32) AND 1 = 0 \<longleftrightarrow> \<not> bit w 0"
  by (simp add: and_one_eq bit_0 even_iff_mod_2_eq_zero)

lemma page_aligned_even:
  assumes "page_aligned p"
  shows "\<not> bit p 0"
proof -
  have "bit p 0 = bit (take_bit 12 p) 0" by (simp add: bit_take_bit_iff del: bit_0)
  also have "take_bit 12 p = 0" using assms by (simp only: page_aligned_take_bit)
  finally show ?thesis by simp
qed

lemma add_attributes:
  assumes "page_aligned p"
  shows "p + PAGE_P + PAGE_RW + PAGE_U = entry_word p 1"
proof -
  have "p + 7 = p OR 7"
  proof (rule disjunctive_add_eq_or)
    show "p AND 7 = 0"
    proof -
      have "p AND 7 = (p AND 0xfffff000) AND 7" by (simp only: frame_of_aligned [OF assms])
      also have "\<dots> = 0" by (simp add: and.assoc)
      finally show ?thesis .
    qed
  qed
  moreover have "p AND NOT (mask 12) = p"
    using frame_of_aligned [OF assms] unfolding page_mask .
  moreover have "(push_bit 2 (take_bit 1 1) OR mask 2 :: u32) = 7" by code_simp
  ultimately show ?thesis by (simp add: entry_word_def add.assoc)
qed

text \<open>
  C28: Where the page table exists, the older interface does the same as \<open>page_map\<close> with user
  privilege, for page-aligned frames: \<open>kmap\<close> and \<open>umap\<close> leave the memory \<open>page_map\<close> leaves, and
  \<open>get_phy_addr\<close> returns the frame of the processor's walk.
\<close>

theorem old_interface_equivalence:
  assumes "table_at m pd (dir_index va) = Some t" and "page_aligned pa"
  shows "kmap pd va pa m = fst (page_map pd va pa 1 (m, f)) \<and>
         umap pd va pa (m, f) = Some (page_map pd va pa 1 (m, f)) \<and>
         (\<forall>a e. translate m pd va = Some (a, e) \<longrightarrow> get_phy_addr pd m va = a AND 0xfffff000)"
proof -
  let ?pde = "load32 m (pd + 4 * dir_index va)"
  from assms(1) have pde: "PHY_2_VIR (?pde AND 0xfffff000) = t" "bit ?pde 0"
    by (auto simp: table_at_def Let_def split: if_splits)
  from pde(2) have "?pde AND 1 \<noteq> 0" by (simp add: and_one_bit del: bit_0)
  then have "umap_loop (pd + 4 * dir_index va) ?pde (m, f) = Some (?pde, (m, f))"
    by (subst umap_loop.simps) simp
  moreover have "get_phy_addr pd m va = a AND 0xfffff000"
    if "translate m pd va = Some (a, e)" for a e
  proof -
    from that assms(1) have "a = (load32 m (t + 4 * table_index va) AND 0xfffff000) OR (va AND 0xfff)"
      by (auto simp: translate_def Let_def split: if_splits)
    then have "a AND 0xfffff000 = load32 m (t + 4 * table_index va) AND 0xfffff000"
      unfolding page_mask index_masks by (auto intro!: bit_word_eqI simp: bit_simps)
    then show ?thesis
      unfolding get_phy_addr_def dir_index_mask table_index_mask Let_def pde by simp
  qed
  ultimately show ?thesis
    using assms add_attributes [OF assms(2)] page_map_write [of "(m, f)" pd va t pa 1] pde
    unfolding kmap_def umap_def dir_index_mask table_index_mask Let_def
    by simp
qed

definition demo_dir_mem :: mem where
  "demo_dir_mem = store32 (\<lambda>_. 0) 0xc0003000 0x1007"

theorem old_interface_equivalence_witness:
  "umap 0xc0003000 0x5000 0x9000 (demo_dir_mem, 0) = Some (page_map 0xc0003000 0x5000 0x9000 1 (demo_dir_mem, 0))"
proof -
  have "dir_index 0x5000 = 0" by (simp add: dir_index_def)
  moreover have "load32 demo_dir_mem 0xc0003000 = 0x1007" by (simp add: demo_dir_mem_def)
  ultimately have "table_at demo_dir_mem 0xc0003000 (dir_index 0x5000) = Some 0xc0001000"
    by (simp add: table_at_def Let_def PHY_2_VIR_def)
  then show ?thesis
    by (rule old_interface_equivalence [THEN conjunct2, THEN conjunct1]) simp
qed

text \<open>
  \<open>umap\<close> for an address whose page table does not exist takes every page of the free list: the
  loop that should allocate one table tests the new table's address, whose present bit is clear,
  instead of the directory entry.  It comes to its last test with the list used up, \<open>free_list\<close>
  holding the last page's stale link.
\<close>

theorem umap_takes_every_page:
  assumes "page_list s xs" and "xs \<noteq> []" and "page_aligned pd" and "pd \<notin> set xs" and "unat i < 1024"
    and "page_table AND PAGE_P = 0"
  shows "\<exists>s'. umap_loop (pd + 4 * i) page_table s = umap_loop (pd + 4 * i) (VIR_2_PHY (last xs)) s' \<and>
           snd s' = load32 (fst s) (last xs) \<and> VIR_2_PHY (last xs) AND PAGE_P = 0"
  using assms
proof (induction xs arbitrary: s page_table)
  case (Cons x xs)
  let ?m = "store32 (fst s) (pd + 4 * i) (VIR_2_PHY x + PAGE_P + PAGE_RW + PAGE_U)"
  let ?s = "(?m, load32 (fst s) x)"
  from Cons.prems(1) have x: "snd s = x" "page_aligned x" and pl: "page_list (fst s, load32 (fst s) x) xs"
    and al: "\<forall>y \<in> set (x # xs). page_aligned y"
    by (auto simp: page_list_def)
  have step: "umap_loop (pd + 4 * i) page_table s = umap_loop (pd + 4 * i) (VIR_2_PHY x) ?s"
    using Cons.prems(6) x(1) by (subst umap_loop.simps) (simp add: alloc_page_def add.assoc Let_def)
  have even: "VIR_2_PHY x AND PAGE_P = 0"
    using page_aligned_even [OF page_aligned_VIR_2_PHY [OF x(2)]] by (simp only: and_one_bit) simp
  show ?case
  proof (cases "xs = []")
    case True
    with step even show ?thesis by (intro exI [of _ ?s]) simp
  next
    case False
    from Cons.prems pl have pl': "page_list ?s xs" by (intro page_list_entry_store) auto
    from False al Cons.prems(4) have last: "page_aligned (last xs)" "last xs \<noteq> pd" by auto
    then have "load32 ?m (last xs) = load32 (fst s) (last xs)"
      using load_entry_store [OF Cons.prems(3) last(1) Cons.prems(5), of 0] by auto
    with Cons.IH [OF pl' False Cons.prems(3) _ Cons.prems(5) even] Cons.prems(4) False step
    show ?thesis by auto
  qed
qed simp

theorem umap_takes_every_page_witness:
  "\<exists>s'. umap_loop 0xc1000000 0 (demo_boot_mem, 0xc1fff000)
     = umap_loop 0xc1000000 (VIR_2_PHY 0xc1fff000) s' \<and> snd s' = load32 demo_boot_mem 0xc1fff000"
  using umap_takes_every_page [of "(demo_boot_mem, 0xc1fff000)" "[0xc1fff000]" "0xc1000000" 0 0]
  by (simp add: page_list_def)

end
