(* ===== verification/FsData.thy ===== *)
theory FsData
  imports FileTable Paging
begin

text \<open>
  File contents (\<open>file.c\<close>): \<open>writeFile\<close>, \<open>read_file_at_offset\<close> and \<open>readFile\<close>.  They move bytes
  between the blocks of a file and memory; \<open>buffer\<close> is the contract of that memory, met both by
  the kernel's own (\<open>mem_read\<close>, \<open>mem_write\<close>) and by a process's, reached through its page
  directory (\<open>vread\<close>, \<open>vwrite\<close>).  The specification is the file as one array, \<open>file_bytes\<close>.
\<close>

abbreviation MAX_FILE_BYTES :: nat where "MAX_FILE_BYTES \<equiv> 10240"

section \<open>Writing\<close>

lemma pointer_step:
  assumes "start < (end :: u32)" and "0 < left" and "left \<le> unat (end - start)"
  shows "unat (end - (start + of_nat left)) = unat (end - start) - left"
proof -
  have "unat (of_nat left :: u32) = left"
    using assms(3) unsigned_less [of "end - start", where 'a = nat] by (intro unat_of_nat32) simp
  then have "unat ((end - start) - of_nat left) = unat (end - start) - left"
    using assms(3) by (subst unat_sub) (simp_all add: word_le_nat_alt)
  then show ?thesis by (simp add: algebra_simps)
qed

lemma pos_less: "nat (offset mod int BLOCK_SIZE) < BLOCK_SIZE"
  by (simp add: nat_less_iff)

lemma left_step:
  assumes "start < (end :: u32)" and "pos < BLOCK_SIZE" and "left = min (BLOCK_SIZE - pos) (unat (end - start))"
  shows "unat (end - (start + of_nat left)) = unat (end - start) - left" and "0 < left"
    and "left \<le> unat (end - start)" and "0 < unat (end - start)"
proof -
  from assms(1) have "end - start \<noteq> 0" by auto
  then show n: "0 < unat (end - start)" by (simp only: unat_gt_0 not_False_eq_True)
  with assms show l: "0 < left" "left \<le> unat (end - start)" by simp_all
  show "unat (end - (start + of_nat left)) = unat (end - start) - left"
    by (rule pointer_step [OF assms(1) l])
qed

lemma left_decreases:
  assumes "start < (end :: u32)"
  shows "unat (end - (start + of_nat (min (BLOCK_SIZE - nat (offset mod int BLOCK_SIZE)) (unat (end - start)))))
    < unat (end - start)"
  using left_step [OF assms pos_less refl] by simp

text \<open>
  The loop, from pointer \<open>start\<close> to \<open>end\<close>; \<open>None\<close> when \<open>offset / BLOCK_SIZE\<close> is not an index of
  \<open>block_no\<close>.  A block that is missing is allocated, but the number used is the old one, 0.
\<close>

function write_loop ::
  "(u32 \<Rightarrow> nat \<Rightarrow> u8 list option) \<Rightarrow> u32 \<Rightarrow> u32 \<Rightarrow> int \<Rightarrow> inode \<Rightarrow> disk \<Rightarrow> (inode \<times> disk) option" where
  "write_loop get start end offset iptr d =
     (if start < end then
        if offset < 0 \<or> int MAX_FILE_BYTES \<le> offset \<or> 2 ^ 31 \<le> unat (end - start) then None
        else
          let index = nat (offset div int BLOCK_SIZE);
              no = block_no iptr ! index;
              pos = nat (offset mod int BLOCK_SIZE);
              left = min (BLOCK_SIZE - pos) (unat (end - start))
          in do {
            (iptr', d') \<leftarrow> (if no = 0 then map_option snd (allocBlock d iptr) else Some (iptr, d));
            bytes \<leftarrow> get start left;
            let arr = k_readsector d' (no + SUPER_BLOCK_SECTOR)
            in write_loop get (start + of_nat left) end (offset + int left) iptr'
                 (write_block d' (splice arr pos bytes) no)
          }
      else Some (iptr, d))"
  by pat_completeness auto

termination
  by (relation "measure (\<lambda>(g, start, end, offset, iptr, d). unat (end - start))")
    (simp_all only: wf_measure prod.case in_measure left_decreases)

declare write_loop.simps [simp del]

definition writeFile ::
  "(u32 \<Rightarrow> nat \<Rightarrow> u8 list option) \<Rightarrow> open_file \<Rightarrow> inode \<Rightarrow> u32 \<Rightarrow> u32 \<Rightarrow> disk
     \<Rightarrow> (int \<times> open_file \<times> inode \<times> disk) option" where
  "writeFile get file iptr ptr sz d =
     (let offset = of_offset file in
      if of_nat MAX_FILE_BYTES < of_int offset + sz then Some (-1, file, iptr, d)
      else do {
        (iptr, d) \<leftarrow> write_loop get ptr (ptr + sz) offset iptr d;
        Some (0, file\<lparr>of_offset := sint (of_int offset + sz)\<rparr>, iptr, d)
      })"

section \<open>Reading\<close>

function read_loop ::
  "('m \<Rightarrow> u32 \<Rightarrow> u8 list \<Rightarrow> 'm option) \<Rightarrow> u32 \<Rightarrow> u32 \<Rightarrow> int \<Rightarrow> inode \<Rightarrow> disk \<Rightarrow> int \<Rightarrow> 'm
     \<Rightarrow> (int \<times> 'm) option" where
  "read_loop put buf_next buf_end offset iptr d readSize m =
     (if buf_next < buf_end then
        if offset < 0 \<or> int MAX_FILE_BYTES \<le> offset \<or> 2 ^ 31 \<le> unat (buf_end - buf_next) then None
        else
          let index = nat (offset div int BLOCK_SIZE);
              no = block_no iptr ! index
          in if no = 0 then Some (-1, m)
             else
               let arr = k_readsector d (no + SUPER_BLOCK_SECTOR);
                   posInBlock = nat (offset mod int BLOCK_SIZE);
                   left = min (BLOCK_SIZE - posInBlock) (unat (buf_end - buf_next))
               in do {
                 m' \<leftarrow> put m buf_next (slice arr posInBlock left);
                 read_loop put (buf_next + of_nat left) buf_end (offset + int left) iptr d
                   (readSize + int left) m'
               }
      else Some (readSize, m))"
  by pat_completeness auto
termination
  by (relation "measure (\<lambda>(p, start, end, offset, iptr, d, r, m). unat (end - start))")
    (simp_all only: wf_measure prod.case in_measure left_decreases)

declare read_loop.simps [simp del]

definition read_file_at_offset ::
  "('m \<Rightarrow> u32 \<Rightarrow> u8 list \<Rightarrow> 'm option) \<Rightarrow> inode \<Rightarrow> int \<Rightarrow> u32 \<Rightarrow> u32 \<Rightarrow> disk \<Rightarrow> 'm \<Rightarrow> (int \<times> 'm) option" where
  "read_file_at_offset put iptr offset buf sz d m =
     (if i_size iptr < of_int offset then Some (-1, m)
      else read_loop put buf (buf + sz) offset iptr d 0 m)"

definition readFile ::
  "('m \<Rightarrow> u32 \<Rightarrow> u8 list \<Rightarrow> 'm option) \<Rightarrow> open_file \<Rightarrow> inode \<Rightarrow> u32 \<Rightarrow> u32 \<Rightarrow> disk \<Rightarrow> 'm
     \<Rightarrow> (int \<times> open_file \<times> 'm) option" where
  "readFile put file iptr ptr sz d m = do {
     (read_size, m) \<leftarrow> read_file_at_offset put iptr (of_offset file) ptr sz d m;
     if read_size = -1 then Some (-1, file, m)
     else Some (read_size, file\<lparr>of_offset := of_offset file + read_size\<rparr>, m)
   }"

section \<open>The memory that files are copied from and to\<close>

locale buffer =
  fixes get :: "'m \<Rightarrow> u32 \<Rightarrow> nat \<Rightarrow> u8 list option" and put :: "'m \<Rightarrow> u32 \<Rightarrow> u8 list \<Rightarrow> 'm option"
  assumes get_0: "get m p 0 = Some []"
    and get_add: "get m p (a + b) = do {
          xs \<leftarrow> get m p a; ys \<leftarrow> get m (p + of_nat a) b; Some (xs @ ys) }"
    and get_length: "get m p n = Some xs \<Longrightarrow> length xs = n"
    and put_Nil: "put m p [] = Some m"
    and put_append: "put m p (xs @ ys) = do { m' \<leftarrow> put m p xs; put m' (p + of_nat (length xs)) ys }"

interpretation kernel_buffer: buffer "\<lambda>m p n. Some (mem_read m p n)" "\<lambda>m p bs. Some (mem_write m p bs)"
proof
  fix m p and a b :: nat
  show "Some (mem_read m p (a + b)) = do {
          xs \<leftarrow> Some (mem_read m p a); ys \<leftarrow> Some (mem_read m (p + of_nat a) b); Some (xs @ ys) }"
    by (induction a arbitrary: p) (simp_all add: mem_read_Suc algebra_simps)
qed (simp_all add: mem_write_append)

interpretation process_buffer: buffer "vread pagedir" "vwrite pagedir"
proof
  fix m p and a b :: nat
  show "vread pagedir m p (a + b) = do {
          xs \<leftarrow> vread pagedir m p a; ys \<leftarrow> vread pagedir m (p + of_nat a) b; Some (xs @ ys) }"
    by (induction a arbitrary: p) (auto simp: algebra_simps split: bind_splits)
  show "length xs = n" if "vread pagedir m p n = Some xs" for n xs
    using that by (induction n arbitrary: p xs) (auto split: bind_splits)
  show "vwrite pagedir m p (xs @ ys) =
      do { m' \<leftarrow> vwrite pagedir m p xs; vwrite pagedir m' (p + of_nat (length xs)) ys }" for xs ys
    by (induction xs arbitrary: m p) (auto simp: algebra_simps split: bind_splits)
qed simp_all

section \<open>A file as one array\<close>

definition file_bytes :: "disk \<Rightarrow> inode \<Rightarrow> u8 list" where
  "file_bytes d iptr = concat (map (read_block d) (block_no iptr))"

text \<open>No two entries of \<open>block_no\<close> name the same block, except that several may be 0.\<close>

definition file_ok :: "inode \<Rightarrow> bool" where
  "file_ok iptr \<longleftrightarrow> wf_inode iptr \<and> (\<forall>b \<in> set (block_no iptr). small_block b) \<and>
     (\<forall>i < MAX_BLOCKS_InFILE. \<forall>j < MAX_BLOCKS_InFILE.
        i \<noteq> j \<longrightarrow> block_no iptr ! i = block_no iptr ! j \<longrightarrow> block_no iptr ! i = 0)"

text \<open>The blocks that bytes \<open>off\<close> to \<open>off + n\<close> of the file are in exist.\<close>

definition blocks_present :: "inode \<Rightarrow> nat \<Rightarrow> nat \<Rightarrow> bool" where
  "blocks_present iptr off n \<longleftrightarrow>
     (\<forall>i. off div BLOCK_SIZE \<le> i \<longrightarrow> BLOCK_SIZE * i < off + n \<longrightarrow> block_no iptr ! i \<noteq> 0)"

lemma concat_length:
  "\<forall>x \<in> set xss. length x = k \<Longrightarrow> length (concat xss) = k * length xss"
  by (induction xss) auto

lemma concat_slice:
  "\<forall>x \<in> set xss. length x = k \<Longrightarrow> i < length xss \<Longrightarrow> slice (concat xss) (k * i) k = xss ! i"
proof (induction xss arbitrary: i)
  case (Cons x xss)
  then show ?case by (cases i) (auto simp: slice_def)
qed simp

lemma splice_append_left:
  "p + length ys \<le> length xs \<Longrightarrow> splice (xs @ zs) p ys = splice xs p ys @ zs"
  by (simp add: splice_def)

lemma splice_append_right: "splice (xs @ zs) (length xs + q) ys = xs @ splice zs q ys"
  by (simp add: splice_def)

lemma concat_splice:
  "\<forall>x \<in> set xss. length x = k \<Longrightarrow> i < length xss \<Longrightarrow> p + length ys \<le> k \<Longrightarrow>
   concat (xss[i := splice (xss ! i) p ys]) = splice (concat xss) (k * i + p) ys"
proof (induction xss arbitrary: i)
  case (Cons x xss)
  show ?case
  proof (cases i)
    case 0
    with Cons.prems show ?thesis by (simp add: splice_append_left)
  next
    case (Suc j)
    with Cons show ?thesis
      using splice_append_right [of x "concat xss" "k * j + p" ys] by (simp add: add.assoc)
  qed
qed simp

lemma splice_adjacent:
  "off + length xs + length ys \<le> length zs \<Longrightarrow>
   splice (splice zs off xs) (off + length xs) ys = splice zs off (xs @ ys)"
  by (cases xs) (auto simp: splice_def min_def ac_simps)

lemma length_file_bytes:
  "disk_ok d \<Longrightarrow> wf_inode iptr \<Longrightarrow> length (file_bytes d iptr) = MAX_FILE_BYTES"
  unfolding file_bytes_def by (subst concat_length [of _ 512]) (auto simp: wf_inode_def)

lemma read_block_file_bytes:
  "disk_ok d \<Longrightarrow> wf_inode iptr \<Longrightarrow> i < MAX_BLOCKS_InFILE \<Longrightarrow>
   read_block d (block_no iptr ! i) = slice (file_bytes d iptr) (512 * i) 512"
  unfolding file_bytes_def by (subst concat_slice) (auto simp: wf_inode_def)

lemma slice_slice:
  "p + n \<le> m \<Longrightarrow> slice (slice xs off m) p n = slice xs (off + p) n"
  by (simp add: slice_def drop_take take_take min_def add.commute)

lemma write_block_file_bytes:
  assumes "disk_ok d" and "file_ok iptr" and "i < MAX_BLOCKS_InFILE" and "block_no iptr ! i \<noteq> 0"
    and "pos + length ys \<le> 512"
  shows "file_bytes (write_block d (splice (read_block d (block_no iptr ! i)) pos ys) (block_no iptr ! i)) iptr
    = splice (file_bytes d iptr) (512 * i + pos) ys"
proof -
  let ?no = "block_no iptr ! i"
  let ?new = "splice (read_block d ?no) pos ys"
  from assms(2) have len: "length (block_no iptr) = 20" and small: "small_block ?no"
    and small': "\<And>j. j < 20 \<Longrightarrow> small_block (block_no iptr ! j)"
    and uniq: "\<And>j. j < 20 \<Longrightarrow> j \<noteq> i \<Longrightarrow> block_no iptr ! j \<noteq> ?no"
    using assms(3,4) by (auto simp: file_ok_def wf_inode_def)
  have "map (read_block (write_block d ?new ?no)) (block_no iptr)
      = (map (read_block d) (block_no iptr))[i := ?new]"
  proof (rule nth_equalityI)
    fix j assume "j < length (map (read_block (write_block d ?new ?no)) (block_no iptr))"
    then have j: "j < 20" by (simp add: len)
    show "map (read_block (write_block d ?new ?no)) (block_no iptr) ! j
        = (map (read_block d) (block_no iptr))[i := ?new] ! j"
      using assms(1,3,5) j small' [OF j] small uniq [OF j]
      by (cases "j = i") (auto simp: len read_write_block)
  qed simp
  then show ?thesis
    unfolding file_bytes_def using assms(1,3,5) len
      concat_splice [of "map (read_block d) (block_no iptr)" 512 i pos ys]
    by auto
qed

text \<open>One step of the loops: from offset \<open>off\<close>, with \<open>n\<close> bytes to go.\<close>

lemma pointer_room:
  assumes "0 < n" and "unat (p :: u32) + n < 2 ^ 32"
  shows "p < p + of_nat n" and "unat (p + of_nat n - p) = n"
  using assms by (simp_all add: word_less_nat_alt unat_add_small unat_of_nat32)

lemma step_arith:
  assumes "0 < n" and "off + n \<le> MAX_FILE_BYTES" and "left = min (512 - off mod 512) n"
  shows "off div 512 < 20" and "0 < left" and "left \<le> n" and "off mod 512 + left \<le> 512"
    and "off = 512 * (off div 512) + off mod 512"
proof -
  show "off div 512 < 20" using assms(1,2) by (simp add: div_less_iff_less_mult)
  have "off mod 512 < 512" by simp
  with assms(1,3) show "0 < left" "left \<le> n" "off mod 512 + left \<le> 512" by simp_all
qed simp

lemma blocks_present_first:
  "blocks_present iptr off n \<Longrightarrow> 0 < n \<Longrightarrow> block_no iptr ! (off div 512) \<noteq> 0"
  using div_times_less_eq_dividend [of off 512] unfolding blocks_present_def
  by (metis add_less_le_mono le_eq_less_or_eq add.commute add.right_neutral mult.commute nat_le_linear)

lemma blocks_present_rest:
  "blocks_present iptr off (a + b) \<Longrightarrow> blocks_present iptr (off + a) b"
  unfolding blocks_present_def by (metis add.assoc div_le_mono le_add1 order_trans)

context buffer
begin

lemma get_split:
  "get m p (a + b) = Some bytes \<Longrightarrow>
   \<exists>xs ys. get m p a = Some xs \<and> get m (p + of_nat a) b = Some ys \<and> bytes = xs @ ys \<and>
     length xs = a \<and> length ys = b"
  by (auto simp: get_add get_length split: bind_splits)

lemma read_loop_bytes:
  assumes "disk_ok d" and "wf_inode iptr"
  shows "unat p + n < 2 ^ 32 \<Longrightarrow> off + n \<le> MAX_FILE_BYTES \<Longrightarrow> blocks_present iptr off n \<Longrightarrow>
    read_loop put p (p + of_nat n) (int off) iptr d r m =
      map_option (\<lambda>m'. (r + int n, m')) (put m p (slice (file_bytes d iptr) off n))"
proof (induction n arbitrary: p off r m rule: less_induct)
  case (less n)
  show ?case
  proof (cases "n = 0")
    case True
    then show ?thesis by (subst read_loop.simps) (simp add: put_Nil slice_def)
  next
    case False
    define left where "left = min (512 - off mod 512) n"
    note ar = step_arith [OF _ less.prems(2) left_def] and room = pointer_room [OF _ less.prems(1)]
    from False have n: "0 < n" by simp
    let ?b = "block_no iptr ! (off div 512)" and ?fb = "file_bytes d iptr"
    have chunk: "slice (read_block d ?b) (off mod 512) left = slice ?fb off left"
      using ar [OF n] by (simp add: read_block_file_bytes [OF assms] slice_slice)
    obtain rest where rest: "n = left + rest" using ar(3) [OF n] by (metis le_iff_add)
    have whole: "slice ?fb off n = slice ?fb off left @ slice ?fb (off + left) rest"
      by (simp add: rest slice_add)
    have len: "length (slice ?fb off left) = left"
      using ar [OF n] less.prems(2) length_file_bytes [OF assms] by simp
    have IH: "read_loop put (p + of_nat left) (p + of_nat left + of_nat rest) (int (off + left)) iptr d r' m'
        = map_option (\<lambda>m''. (r' + int rest, m'')) (put m' (p + of_nat left) (slice ?fb (off + left) rest))"
      for r' m'
    proof (rule less.IH)
      show "rest < n" using rest ar(2) [OF n] by simp
      have "unat (p + of_nat left) = unat p + left"
        using less.prems(1) rest by (simp add: unat_add_small unat_of_nat32)
      then show "unat (p + of_nat left) + rest < 2 ^ 32" using less.prems(1) rest by simp
      show "off + left + rest \<le> MAX_FILE_BYTES" using less.prems(2) rest by simp
      show "blocks_present iptr (off + left) rest"
        using less.prems(3) rest blocks_present_rest by simp
    qed
    have sum: "p + of_nat n = p + of_nat left + of_nat rest" by (simp add: rest)
    have num: "nat (int off div 512) = off div 512" "nat (int off mod 512) = off mod 512"
      by (simp_all add: nat_div_distrib nat_mod_distrib)
    have "read_loop put p (p + of_nat n) (int off) iptr d r m =
        do { m' \<leftarrow> put m p (slice ?fb off left);
             read_loop put (p + of_nat left) (p + of_nat n) (int (off + left)) iptr d (r + int left) m' }"
      using n room [OF n] less.prems blocks_present_first [OF less.prems(3) n] chunk
      by (subst read_loop.simps) (simp add: num Let_def flip: left_def)
    then show ?thesis
      unfolding sum whole put_append len IH
      by (cases "put m p (slice ?fb off left)") (simp_all add: rest add.assoc)
  qed
qed

lemma write_loop_bytes:
  assumes "file_ok iptr"
  shows "disk_ok d \<Longrightarrow> unat p + n < 2 ^ 32 \<Longrightarrow> off + n \<le> MAX_FILE_BYTES \<Longrightarrow>
    blocks_present iptr off n \<Longrightarrow> get m p n = Some bytes \<Longrightarrow>
    \<exists>d'. write_loop (get m) p (p + of_nat n) (int off) iptr d = Some (iptr, d') \<and> disk_ok d' \<and>
      file_bytes d' iptr = splice (file_bytes d iptr) off bytes \<and>
      (\<forall>c. small_block c \<longrightarrow> c \<notin> set (block_no iptr) \<longrightarrow> read_block d' c = read_block d c)"
proof (induction n arbitrary: p off d bytes rule: less_induct)
  case (less n)
  show ?case
  proof (cases "n = 0")
    case True
    with less.prems(1,5) show ?thesis by (subst write_loop.simps) (simp add: get_0)
  next
    case False
    define left where "left = min (512 - off mod 512) n"
    note ar = step_arith [OF _ less.prems(3) left_def] and room = pointer_room [OF _ less.prems(2)]
    from False have n: "0 < n" by simp
    from assms have wf: "wf_inode iptr" by (simp add: file_ok_def)
    let ?b = "block_no iptr ! (off div 512)"
    obtain rest where rest: "n = left + rest" using ar(3) [OF n] by (metis le_iff_add)
    from get_split [OF less.prems(5) [unfolded rest]] obtain xs ys where
      g: "get m p left = Some xs" "get m (p + of_nat left) rest = Some ys" "bytes = xs @ ys"
      "length xs = left" "length ys = rest" by blast
    note present = blocks_present_first [OF less.prems(4) n]
    let ?d = "write_block d (splice (read_block d ?b) (off mod 512) xs) ?b"
    have fb: "file_bytes ?d iptr = splice (file_bytes d iptr) off xs"
      using write_block_file_bytes [OF less.prems(1) assms ar(1) [OF n] present, of "off mod 512" xs]
        ar [OF n] g(4) by simp
    have small: "small_block ?b" and mem: "?b \<in> set (block_no iptr)"
      using assms wf ar(1) [OF n] by (auto simp: file_ok_def wf_inode_def)
    have ok: "disk_ok ?d" using less.prems(1) ar [OF n] g(4) by (intro blocks.ok_wr) simp_all
    have "\<exists>d'. write_loop (get m) (p + of_nat left) (p + of_nat left + of_nat rest) (int (off + left)) iptr ?d
          = Some (iptr, d') \<and> disk_ok d' \<and>
      file_bytes d' iptr = splice (file_bytes ?d iptr) (off + left) ys \<and>
      (\<forall>c. small_block c \<longrightarrow> c \<notin> set (block_no iptr) \<longrightarrow> read_block d' c = read_block ?d c)"
    proof (rule less.IH [OF _ ok _ _ _ g(2)])
      show "rest < n" using rest ar(2) [OF n] by simp
      have "unat (p + of_nat left) = unat p + left"
        using less.prems(2) rest by (simp add: unat_add_small unat_of_nat32)
      then show "unat (p + of_nat left) + rest < 2 ^ 32" using less.prems(2) rest by simp
      show "off + left + rest \<le> MAX_FILE_BYTES" using less.prems(3) rest by simp
      show "blocks_present iptr (off + left) rest"
        using less.prems(4) rest blocks_present_rest by simp
    qed
    then obtain d' where d': "write_loop (get m) (p + of_nat left) (p + of_nat left + of_nat rest)
        (int (off + left)) iptr ?d = Some (iptr, d')" "disk_ok d'"
      "file_bytes d' iptr = splice (file_bytes ?d iptr) (off + left) ys"
      "\<And>c. small_block c \<Longrightarrow> c \<notin> set (block_no iptr) \<Longrightarrow> read_block d' c = read_block ?d c" by blast
    have sum: "p + of_nat n = p + of_nat left + of_nat rest" by (simp add: rest)
    have num: "nat (int off div 512) = off div 512" "nat (int off mod 512) = off mod 512"
      by (simp_all add: nat_div_distrib nat_mod_distrib)
    have "write_loop (get m) p (p + of_nat n) (int off) iptr d
        = write_loop (get m) (p + of_nat left) (p + of_nat n) (int (off + left)) iptr ?d"
      using n room [OF n] less.prems present g(1)
      by (subst write_loop.simps) (simp add: num Let_def flip: left_def)
    then have "write_loop (get m) p (p + of_nat n) (int off) iptr d = Some (iptr, d')"
      unfolding sum d'(1) .
    moreover have "file_bytes d' iptr = splice (file_bytes d iptr) off bytes"
      using d'(3) fb g splice_adjacent [of off xs ys "file_bytes d iptr"]
        length_file_bytes [OF less.prems(1) wf] less.prems(3) rest by simp
    moreover have "read_block d' c = read_block d c" if "small_block c" "c \<notin> set (block_no iptr)" for c
    proof -
      have "c \<noteq> ?b" using that(2) mem by auto
      with d'(4) [OF that] less.prems(1) small that(1) ar [OF n] g(4) show ?thesis
        by (auto simp: read_write_block)
    qed
    ultimately show ?thesis using d'(2) by blast
  qed
qed

end

lemma offset_word:
  "off + n \<le> MAX_FILE_BYTES \<Longrightarrow> (of_int (int off) + of_nat n :: u32) = of_nat (off + n) \<and>
   unat (of_nat (off + n) :: u32) = off + n \<and> sint (of_nat (off + n) :: u32) = int (off + n)"
  using unat_of_nat32 [of "off + n"] by simp

context buffer
begin

lemma readFile_bytes:
  assumes "disk_ok d" and "wf_inode iptr" and "of_offset file = int off"
    and "off + n \<le> MAX_FILE_BYTES" and "of_nat off \<le> i_size iptr" and "blocks_present iptr off n"
    and "unat p + n < 2 ^ 32"
  shows "readFile put file iptr p (of_nat n) d m =
    map_option (\<lambda>m'. (int n, file\<lparr>of_offset := int (off + n)\<rparr>, m')) (put m p (slice (file_bytes d iptr) off n))"
proof -
  have "read_file_at_offset put iptr (int off) p (of_nat n) d m =
      map_option (\<lambda>m'. (int n, m')) (put m p (slice (file_bytes d iptr) off n))"
    using assms read_loop_bytes [OF assms(1,2) assms(7,4,6), of 0 m]
    by (simp add: read_file_at_offset_def not_less [symmetric])
  then show ?thesis
    unfolding readFile_def assms(3)
    by (cases "put m p (slice (file_bytes d iptr) off n)") simp_all
qed

lemma writeFile_bytes:
  assumes "file_ok iptr" and "disk_ok d" and "of_offset file = int off" and "off + n \<le> MAX_FILE_BYTES"
    and "blocks_present iptr off n" and "unat p + n < 2 ^ 32" and "get m p n = Some bytes"
  shows "\<exists>d'. writeFile (get m) file iptr p (of_nat n) d
      = Some (0, file\<lparr>of_offset := int (off + n)\<rparr>, iptr, d') \<and> disk_ok d' \<and>
    file_bytes d' iptr = splice (file_bytes d iptr) off bytes \<and>
    (\<forall>c. small_block c \<longrightarrow> c \<notin> set (block_no iptr) \<longrightarrow> read_block d' c = read_block d c)"
proof -
  note w = offset_word [OF assms(4)]
  have guard: "\<not> of_nat MAX_FILE_BYTES < (of_int (of_offset file) + of_nat n :: u32)"
    using w assms(3,4) by (simp add: word_less_nat_alt)
  have off: "sint (of_int (of_offset file) + of_nat n :: u32) = int (off + n)"
    using w assms(3) by simp
  from write_loop_bytes [OF assms(1,2,6,4,5,7)] guard off assms(3) show ?thesis
    by (auto simp: writeFile_def Let_def simp del: of_nat_add)
qed

end

text \<open>
  A memory whose every word is a present entry, so that every address is mapped, a disk, and a
  file with one block.
\<close>

abbreviation demo_mem :: mem where "demo_mem \<equiv> \<lambda>_. 7"

definition demo_inode :: inode where
  "demo_inode = (inode_of_bytes [])\<lparr>i_size := 5, block_no := 60 # replicate 19 0\<rparr>"

definition demo_file :: open_file where
  "demo_file = \<lparr>oflags = O_RDWR, of_offset = 0, f_inode_block_no = 1, f_inode_offset = 0, of_isopen = OPEN\<rparr>"

lemma demo_translate: "\<exists>a e. translate demo_mem pd va = Some (a, e)"
proof -
  have "mem_read demo_mem p 4 = replicate 4 7" for p
    by (intro nth_equalityI) (auto simp: mem_read_def)
  moreover have "rd32 (replicate 4 7) = 0x07070707" by code_simp
  ultimately have "load32 demo_mem p = 0x07070707" for p by (simp add: load32_def)
  then show ?thesis by (simp add: translate_def table_at_def Let_def)
qed

lemma demo_vread: "vread pd demo_mem p n = Some (replicate n 7)"
proof (induction n arbitrary: p)
  case (Suc n)
  obtain a e where "translate demo_mem pd p = Some (a, e)" using demo_translate by blast
  with Suc show ?case by simp
qed simp

lemma demo_inode_ok: "file_ok demo_inode" "wf_inode demo_inode" "blocks_present demo_inode 0 5"
proof -
  have nth: "j < 20 \<Longrightarrow> block_no demo_inode ! j = (if j = 0 then 60 else 0)" for j
    by (cases j) (simp_all add: demo_inode_def)
  show wf: "wf_inode demo_inode" by (simp add: wf_inode_def demo_inode_def)
  show "file_ok demo_inode"
    using wf nth by (auto simp: file_ok_def) (auto simp: demo_inode_def small_block_def)
  show "blocks_present demo_inode 0 5"
    by (auto simp: blocks_present_def demo_inode_def nth_Cons split: nat.splits)
qed

section \<open>Properties\<close>

text \<open>
  C25: \<open>readFile\<close> delivers the file: when the blocks of the \<open>n\<close> bytes at the file's offset exist, the
  caller's memory gets exactly these bytes of the file at \<open>ptr\<close> (a page fault if it is not mapped),
  the result is \<open>n\<close> and the offset moves on by \<open>n\<close>.  Whether the bytes are beyond the file's size
  plays no role.
\<close>

theorem readFile_correct:
  assumes "disk_ok d" and "wf_inode iptr" and "of_offset file = int off"
    and "off + n \<le> MAX_FILE_BYTES" and "of_nat off \<le> i_size iptr" and "blocks_present iptr off n"
    and "unat p + n < 2 ^ 32"
  shows "readFile (vwrite pagedir) file iptr p (of_nat n) d m =
    map_option (\<lambda>m'. (int n, file\<lparr>of_offset := int (off + n)\<rparr>, m'))
      (vwrite pagedir m p (slice (file_bytes d iptr) off n))"
  using assms by (rule process_buffer.readFile_bytes)

theorem readFile_correct_witness:
  "readFile (vwrite 0) demo_file demo_inode 0x1000 5 (sample_disk 8) demo_mem =
    map_option (\<lambda>m'. (5, demo_file\<lparr>of_offset := 5\<rparr>, m'))
      (vwrite 0 demo_mem 0x1000 (slice (file_bytes (sample_disk 8) demo_inode) 0 5))"
proof -
  have "disk_ok (sample_disk 8)" using sample_disk_bitmap(1) [of 8] by (simp add: bitmap_ok_def)
  from readFile_correct [OF this demo_inode_ok(2), of demo_file 0 5 "0x1000" 0 demo_mem]
  show ?thesis using demo_inode_ok(3) by (simp add: demo_file_def)
qed

text \<open>
  C24: \<open>writeFile\<close> overwrites the \<open>n\<close> bytes at the file's offset with the caller's, leaves the rest
  of the file and all other blocks alone and moves the offset on by \<open>n\<close>, for files whose blocks
  are already allocated; and reading the same range back gives the bytes that were written.
\<close>

theorem writeFile_correct:
  assumes "file_ok iptr" and "disk_ok d" and "of_offset file = int off" and "off + n \<le> MAX_FILE_BYTES"
    and "blocks_present iptr off n" and "unat p + n < 2 ^ 32" and "vread pagedir m p n = Some bytes"
    and "of_nat off \<le> i_size iptr" and "unat q + n < 2 ^ 32"
  shows "\<exists>d'. writeFile (vread pagedir m) file iptr p (of_nat n) d
      = Some (0, file\<lparr>of_offset := int (off + n)\<rparr>, iptr, d') \<and> disk_ok d' \<and>
    file_bytes d' iptr = splice (file_bytes d iptr) off bytes \<and>
    (\<forall>c. small_block c \<longrightarrow> c \<notin> set (block_no iptr) \<longrightarrow> read_block d' c = read_block d c) \<and>
    readFile (vwrite pagedir) file iptr q (of_nat n) d' m
      = map_option (\<lambda>m'. (int n, file\<lparr>of_offset := int (off + n)\<rparr>, m')) (vwrite pagedir m q bytes)"
proof -
  from assms(1) have wf: "wf_inode iptr" by (simp add: file_ok_def)
  from process_buffer.writeFile_bytes [OF assms(1-7)] obtain d' where
    d': "writeFile (vread pagedir m) file iptr p (of_nat n) d
      = Some (0, file\<lparr>of_offset := int (off + n)\<rparr>, iptr, d')" "disk_ok d'"
    "file_bytes d' iptr = splice (file_bytes d iptr) off bytes"
    "\<forall>c. small_block c \<longrightarrow> c \<notin> set (block_no iptr) \<longrightarrow> read_block d' c = read_block d c" by blast
  have "slice (file_bytes d' iptr) off n = bytes"
    using assms(4) process_buffer.get_length [OF assms(7)] length_file_bytes [OF assms(2) wf]
    by (simp add: d'(3) slice_splice_same)
  with process_buffer.readFile_bytes [OF d'(2) wf assms(3,4,8,5,9), of pagedir m] d' show ?thesis by auto
qed

theorem writeFile_correct_witness:
  "\<exists>d'. writeFile (vread 0 demo_mem) demo_file demo_inode 0x1000 5 (sample_disk 8)
      = Some (0, demo_file\<lparr>of_offset := 5\<rparr>, demo_inode, d') \<and>
    file_bytes d' demo_inode = splice (file_bytes (sample_disk 8) demo_inode) 0 (replicate 5 7)"
proof -
  have "disk_ok (sample_disk 8)" using sample_disk_bitmap(1) [of 8] by (simp add: bitmap_ok_def)
  from writeFile_correct [OF demo_inode_ok(1) this _ _ demo_inode_ok(3) _ demo_vread, of demo_file "0x1000" "0x2000" 0]
  show ?thesis by (auto simp: demo_file_def)
qed

text \<open>
  C27: Writing to a block that is not yet allocated destroys the super block.  \<open>writeFile\<close> allocates a
  block and enters it in the inode, but goes on with the old block number 0: the first bytes of
  an empty file end up in block 0, and the new block stays zero.
\<close>

theorem writeFile_new_block_hits_superblock:
  assumes "bitmap_ok d" and "lowest_free d k" and "k \<le> 700" and "wf_inode iptr"
    and "block_no iptr ! 0 = 0" and "of_offset file = 0" and "0 < n" and "n \<le> 512"
    and "unat p + n < 2 ^ 32" and "vread pagedir m p n = Some bytes"
  shows "\<exists>d'. writeFile (vread pagedir m) file iptr p (of_nat n) d
      = Some (0, file\<lparr>of_offset := int n\<rparr>, iptr\<lparr>block_no := (block_no iptr)[0 := of_nat k]\<rparr>, d') \<and>
    read_block d' 0 = splice (read_block d 0) 0 bytes \<and> read_block d' (of_nat k) = replicate 512 0"
proof -
  from assms(4,5) have "first_index (\<lambda>b. b = 0) (block_no iptr) = Some 0"
    by (intro first_index_eqI) (auto simp: wf_inode_def)
  from allocBlock_take [OF assms(1-3) this] obtain d1 where
    al: "allocBlock d iptr = Some (0, iptr\<lparr>block_no := (block_no iptr)[0 := of_nat k]\<rparr>, d1)"
    and d1: "bitmap_ok d1" "read_block d1 (of_nat k) = replicate 512 0"
      "\<forall>c. small_block c \<longrightarrow> c \<noteq> of_nat k \<longrightarrow> c \<noteq> first_bitmap \<longrightarrow> read_block d1 c = read_block d c"
    by blast
  note ge = lowest_free_ge [OF assms(1,2)] and room = pointer_room [OF assms(7,9)]
  have k: "small_block (of_nat k)" using assms(2) by (simp add: lowest_free_def)
  have ok: "disk_ok d1" using d1(1) by (simp add: bitmap_ok_def)
  have zero: "read_block d1 0 = read_block d 0" using d1(3) ge(2) by simp
  have len: "length bytes = n" by (rule process_buffer.get_length [OF assms(10)])
  have stop: "write_loop get (p + of_nat n) (p + of_nat n) off i d' = Some (i, d')" for get off i d'
    by (subst write_loop.simps) simp
  have "write_loop (vread pagedir m) p (p + of_nat n) 0 iptr d
      = Some (iptr\<lparr>block_no := (block_no iptr)[0 := of_nat k]\<rparr>,
          write_block d1 (splice (read_block d 0) 0 bytes) 0)"
    using room assms(5,8,10) al by (subst write_loop.simps) (simp add: Let_def stop zero min_absorb2)
  moreover have "\<not> of_nat MAX_FILE_BYTES < (of_nat n :: u32)" "sint (of_nat n :: u32) = int n"
    using assms(8) unat_of_nat32 [of n] by (simp_all add: word_less_nat_alt)
  moreover have "disk_ok d" using assms(1) by (simp add: bitmap_ok_def)
  ultimately show ?thesis
    using ok len assms(8) d1(2) ge(2) k
    by (simp add: writeFile_def assms(6) Let_def read_write_block)
qed

theorem writeFile_new_block_witness:
  "\<exists>iptr' d'. writeFile (vread 0 demo_mem) demo_file (demo_inode\<lparr>block_no := replicate 20 0\<rparr>) 0x1000 36 (sample_disk 8)
      = Some (0, demo_file\<lparr>of_offset := 36\<rparr>, iptr', d') \<and>
    read_superBlock d' = super_block_of_bytes (replicate 36 7)"
proof -
  have low: "lowest_free (sample_disk 8) 64" by (auto simp: lowest_free_def sample_disk_busy)
  have ok: "disk_ok (sample_disk 8)" using sample_disk_bitmap(1) [of 8] by (simp add: bitmap_ok_def)
  obtain d' where d': "writeFile (vread 0 demo_mem) demo_file (demo_inode\<lparr>block_no := replicate 20 0\<rparr>) 0x1000 (of_nat 36)
      (sample_disk 8) = Some (0, demo_file\<lparr>of_offset := int 36\<rparr>,
        (demo_inode\<lparr>block_no := replicate 20 0\<rparr>)\<lparr>block_no := (replicate 20 0)[0 := of_nat 64]\<rparr>, d')"
    and b: "read_block d' 0 = splice (read_block (sample_disk 8) 0) 0 (replicate 36 7)"
    using writeFile_new_block_hits_superblock [OF sample_disk_bitmap(1) low, of "demo_inode\<lparr>block_no := replicate 20 0\<rparr>"
        demo_file 36 "0x1000" 0 demo_mem "replicate 36 7"]
    by (auto simp: demo_file_def demo_vread wf_inode_def)
  have "take 36 (read_block d' 0) = replicate 36 7"
    unfolding b splice_def by simp
  then have "read_superBlock d' = super_block_of_bytes (replicate 36 7)"
    by (simp add: read_superBlock_block0)
  with d' show ?thesis by auto
qed

end
