(* ===== verification/Console.thy ===== *)
theory Console
  imports Disk
begin

text \<open>
  The text console (\<open>print.c\<close>): the cursor registers of the video controller, the 80 by 25
  cells of video memory, and printing.  \<open>get_cursor\<close> and \<open>set_cursor\<close> are the port accesses,
  against any controller (\<open>crtc\<close> states what is relied on); the routines above them work on a
  \<open>screen\<close>, whose \<open>cursor\<close> is what the registers hold.  \<open>video_lock\<close> is a \<open>lock\<close> of \<open>Lock\<close>.
\<close>

abbreviation VEDIO_INDEX_PORT :: u16 where "VEDIO_INDEX_PORT \<equiv> 0x03d4"
abbreviation VEDIO_DATD_PORT :: u16 where "VEDIO_DATD_PORT \<equiv> 0x03d5"
abbreviation HIGH_CURSOR_INDEX :: u8 where "HIGH_CURSOR_INDEX \<equiv> 0x0e"
abbreviation LOW_CURSOR_INDEX :: u8 where "LOW_CURSOR_INDEX \<equiv> 0x0f"
abbreviation BACKSPACE :: u8 where "BACKSPACE \<equiv> 0x08"
abbreviation LINEFEED :: u8 where "LINEFEED \<equiv> 0x0a"
abbreviation CARRIAGE_RETURN :: u8 where "CARRIAGE_RETURN \<equiv> 0x0d"
abbreviation CON_ATTR :: u8 where "CON_ATTR \<equiv> 0x70"
abbreviation LAST_CURSOR :: u32 where "LAST_CURSOR \<equiv> 2000"

section \<open>The cursor registers\<close>

definition get_cursor :: "'d ports \<Rightarrow> 'd \<Rightarrow> u32 \<times> 'd" where
  "get_cursor P d =
     (let d1 = port_outb P d VEDIO_INDEX_PORT HIGH_CURSOR_INDEX;
          (high_cursor, d2) = port_inb P d1 VEDIO_DATD_PORT;
          d3 = port_outb P d2 VEDIO_INDEX_PORT LOW_CURSOR_INDEX;
          (low_cursor, d4) = port_inb P d3 VEDIO_DATD_PORT
      in (push_bit 8 (ucast high_cursor) + ucast low_cursor, d4))"

definition set_cursor :: "'d ports \<Rightarrow> 'd \<Rightarrow> u32 \<Rightarrow> 'd" where
  "set_cursor P d cursor =
     (let high_cursor = ucast (drop_bit 8 (cursor AND 0x0000ff00));
          low_cursor = ucast (cursor AND 0x000000ff);
          d1 = port_outb P d VEDIO_INDEX_PORT HIGH_CURSOR_INDEX;
          d2 = port_outb P d1 VEDIO_DATD_PORT high_cursor;
          d3 = port_outb P d2 VEDIO_INDEX_PORT LOW_CURSOR_INDEX
      in port_outb P d3 VEDIO_DATD_PORT low_cursor)"

text \<open>
  The controller: a write to the index port selects a register, the data port accesses the
  selected one; \<open>reg\<close> reads off the registers and \<open>sel\<close> the selection.
\<close>

definition crtc :: "'d ports \<Rightarrow> ('d \<Rightarrow> u8 \<Rightarrow> u8) \<Rightarrow> ('d \<Rightarrow> u8) \<Rightarrow> bool" where
  "crtc P reg sel \<longleftrightarrow>
     (\<forall>d i. sel (port_outb P d VEDIO_INDEX_PORT i) = i \<and> reg (port_outb P d VEDIO_INDEX_PORT i) = reg d) \<and>
     (\<forall>d b. sel (port_outb P d VEDIO_DATD_PORT b) = sel d \<and>
        reg (port_outb P d VEDIO_DATD_PORT b) = (reg d)(sel d := b)) \<and>
     (\<forall>d. fst (port_inb P d VEDIO_DATD_PORT) = reg d (sel d) \<and>
        reg (snd (port_inb P d VEDIO_DATD_PORT)) = reg d \<and> sel (snd (port_inb P d VEDIO_DATD_PORT)) = sel d)"

section \<open>Characters on the screen\<close>

text \<open>\<open>vram i\<close> is the byte at \<open>VEDIO_POSITION + i\<close>.\<close>

record screen =
  vram :: "nat \<Rightarrow> u8"
  cursor :: u32

definition put_cursor :: "screen \<Rightarrow> u32 \<Rightarrow> screen" where
  "put_cursor s c = s\<lparr>cursor := c AND 0xffff\<rparr>"

definition set_char :: "screen \<Rightarrow> u32 \<Rightarrow> u8 \<Rightarrow> screen" where
  "set_char s current_cursor a =
     s\<lparr>vram := (vram s)(unat current_cursor * 2 := a, unat current_cursor * 2 + 1 := CON_ATTR)\<rparr>"

definition scroll_screen :: "screen \<Rightarrow> screen" where
  "scroll_screen s =
     (let s1 = s\<lparr>vram := (\<lambda>i. if i < 24 * 80 * 2 then vram s (i + 80 * 2) else vram s i)\<rparr>
      in put_cursor s1 (cursor s1 - 80))"

definition update_cursor :: "screen \<Rightarrow> u32 \<Rightarrow> screen" where
  "update_cursor s current_cursor =
     (if current_cursor = LAST_CURSOR
      then put_cursor (scroll_screen s) (LAST_CURSOR - 80)
      else put_cursor s (current_cursor + 1))"

definition put_char0 :: "screen \<Rightarrow> u8 \<Rightarrow> u32 \<Rightarrow> screen" where
  "put_char0 s a current_cursor = update_cursor (set_char s current_cursor a) current_cursor"

definition backspace :: "screen \<Rightarrow> u32 \<Rightarrow> screen" where
  "backspace s current_cursor =
     (if current_cursor = 0 then s
      else set_char (put_cursor s (current_cursor - 1)) (current_cursor - 1) 0)"

definition linefeed :: "screen \<Rightarrow> u32 \<Rightarrow> screen" where
  "linefeed s current_cursor =
     (let s1 = (if current_cursor div 80 = 24
                then put_cursor (scroll_screen s) (LAST_CURSOR - 80) else s)
      in put_cursor s1 ((current_cursor div 80 + 1) * 80))"

definition put_char :: "screen \<Rightarrow> u8 \<Rightarrow> screen" where
  "put_char s a =
     (let current_cursor = cursor s in
      if a = BACKSPACE then backspace s current_cursor
      else if a = LINEFEED \<or> a = CARRIAGE_RETURN then linefeed s current_cursor
      else put_char0 s a current_cursor)"

text \<open>The loop of \<open>print\<close>, on the bytes from the pointer on; then the function with its lock.\<close>

fun print_loop :: "screen \<Rightarrow> u8 list \<Rightarrow> screen option" where
  "print_loop s [] = None"
| "print_loop s (c # cs) = (if c \<noteq> 0 then print_loop (put_char s c) cs else Some s)"

definition print :: "lock \<Rightarrow> screen \<Rightarrow> u8 list \<Rightarrow> (lock \<times> screen) option" where
  "print video_lock s p = do {
     l \<leftarrow> acquire video_lock;
     s' \<leftarrow> print_loop s p;
     Some (release l, s')
   }"

definition num2ascii :: "u32 \<Rightarrow> u8 list" where
  "num2ascii number =
     map (\<lambda>k. let a = ucast (drop_bit ((7 - k) * 4) number AND 0x0000000f)
              in a + (if a < 10 then 48 else 55)) [0..<8] @ [0]"

definition printn :: "lock \<Rightarrow> screen \<Rightarrow> u32 \<Rightarrow> (lock \<times> screen) option" where
  "printn video_lock s number = print video_lock s (num2ascii number)"

definition clear_screen :: "lock \<Rightarrow> screen \<Rightarrow> (lock \<times> screen) option" where
  "clear_screen video_lock s = do {
     l \<leftarrow> acquire video_lock;
     let s1 = fold (\<lambda>i s. set_char s (of_nat i) 0) [0..<2000] s;
     Some (release l, put_cursor s1 0)
   }"

text \<open>A string constant as \<open>print\<close> reads it.\<close>

definition cstring :: "string \<Rightarrow> u8 list" where
  "cstring str = map of_char str @ [0]"

section \<open>Reading back the cursor\<close>

lemma mask_words:
  "(0xff :: u32) = mask 8" "(0xffff :: u32) = mask 16" "(0xff00 :: u32) = push_bit 8 (mask 8)"
  by (simp_all add: mask_eq_exp_minus_1)

lemma u32_bytes:
  "ucast (ucast (drop_bit 8 (c AND 0xff00)) :: u8) = (drop_bit 8 (c AND 0xff00) :: u32)"
  "ucast (ucast (c AND 0xff) :: u8) = (c AND 0xff :: u32)"
  unfolding mask_words by (rule bit_word_eqI; auto simp: bit_simps)+

lemma cursor_bytes: "push_bit 8 (drop_bit 8 (c AND 0xff00)) + (c AND 0xff) = (c AND 0xffff :: u32)"
proof -
  have "push_bit 8 (drop_bit 8 (c AND 0xff00)) AND (c AND 0xff) = 0"
    unfolding mask_words by (rule bit_word_eqI) (auto simp: bit_simps)
  then have "push_bit 8 (drop_bit 8 (c AND 0xff00)) + (c AND 0xff)
      = push_bit 8 (drop_bit 8 (c AND 0xff00)) OR (c AND 0xff)"
    by (rule disjunctive_add_eq_or)
  also have "\<dots> = c AND 0xffff"
    unfolding mask_words by (rule bit_word_eqI) (auto simp: bit_simps)
  finally show ?thesis .
qed

text \<open>
  Through any video controller with an index and a data port, \<open>get_cursor\<close> after
  \<open>set_cursor\<close> returns the low 16 bits of the cursor, and reading the cursor does not change it.
\<close>

theorem cursor_roundtrip:
  assumes "crtc P reg sel"
  shows "fst (get_cursor P (set_cursor P d c)) = c AND 0xffff \<and>
    fst (get_cursor P (snd (get_cursor P d))) = fst (get_cursor P d)"
proof -
  have get: "fst (get_cursor P d) = push_bit 8 (ucast (reg d HIGH_CURSOR_INDEX)) + ucast (reg d LOW_CURSOR_INDEX)"
    "reg (snd (get_cursor P d)) = reg d" for d
    using assms by (simp_all add: crtc_def get_cursor_def split_def)
  have set: "reg (set_cursor P d c) = (reg d)(HIGH_CURSOR_INDEX := ucast (drop_bit 8 (c AND 0xff00)),
      LOW_CURSOR_INDEX := ucast (c AND 0xff))" for d
    using assms by (simp add: crtc_def set_cursor_def)
  show ?thesis
    unfolding get set using u32_bytes [of c] cursor_bytes [of c] by simp
qed

text \<open>A controller that is nothing but its registers.\<close>

definition plain_crtc :: "((u8 \<Rightarrow> u8) \<times> u8) ports" where
  "plain_crtc = \<lparr>
     port_outb = (\<lambda>(r, i) p b. if p = VEDIO_INDEX_PORT then (r, b)
                              else if p = VEDIO_DATD_PORT then (r(i := b), i) else (r, i)),
     port_inb = (\<lambda>(r, i) p. (r i, (r, i))),
     port_outw = (\<lambda>d p w. d), port_inw = (\<lambda>d p. (0, d))\<rparr>"

theorem cursor_roundtrip_witness:
  "fst (get_cursor plain_crtc (set_cursor plain_crtc (\<lambda>_. 0, 0) 0x107d0)) = 0x7d0"
proof -
  have "crtc plain_crtc fst snd" by (auto simp: crtc_def plain_crtc_def)
  from cursor_roundtrip [OF this, of "(\<lambda>_. 0, 0)" "0x107d0"] show ?thesis by simp
qed

section \<open>Printing\<close>

lemma and_ffff: "unat (c AND 0xffff :: u32) = unat c mod 65536"
  unfolding mask_words take_bit_eq_mask [symmetric] unsigned_take_bit_eq
  by (simp add: take_bit_eq_mod)

lemma cursor_put [simp]: "unat c < 65536 \<Longrightarrow> cursor (put_cursor s c) = c"
  by (simp add: put_cursor_def word_unat_eq_iff and_ffff)

lemma vram_put [simp]: "vram (put_cursor s c) = vram s"
  by (simp add: put_cursor_def)

text \<open>Characters that \<open>put_char\<close> writes to the screen.\<close>

definition printable :: "u8 \<Rightarrow> bool" where
  "printable c \<longleftrightarrow> c \<noteq> 0 \<and> c \<noteq> BACKSPACE \<and> c \<noteq> LINEFEED \<and> c \<noteq> CARRIAGE_RETURN"

lemma put_char_printable:
  assumes "printable a" and "unat (cursor s) < 2000"
  shows "put_char s a = put_cursor (set_char s (cursor s) a) (cursor s + 1)"
    and "unat (cursor (put_char s a)) = unat (cursor s) + 1"
    and "vram (put_char s a) = (vram s)(unat (cursor s) * 2 := a, unat (cursor s) * 2 + 1 := CON_ATTR)"
proof -
  have ne: "cursor s \<noteq> LAST_CURSOR" using assms(2) by auto
  then show p: "put_char s a = put_cursor (set_char s (cursor s) a) (cursor s + 1)"
    using assms(1) by (simp add: put_char_def put_char0_def update_cursor_def printable_def Let_def)
  have "unat (cursor s + 1) = unat (cursor s) + 1"
    using assms(2) by (subst unat_add_small) simp_all
  then show "unat (cursor (put_char s a)) = unat (cursor s) + 1"
    using assms(2) by (simp add: p)
  show "vram (put_char s a) = (vram s)(unat (cursor s) * 2 := a, unat (cursor s) * 2 + 1 := CON_ATTR)"
    by (simp add: p set_char_def)
qed

lemma print_loop_text:
  "\<lbrakk> \<forall>c \<in> set str. printable c; unat (cursor s) + length str \<le> 2000 \<rbrakk> \<Longrightarrow>
   \<exists>s'. print_loop s (str @ 0 # r) = Some s' \<and>
     unat (cursor s') = unat (cursor s) + length str \<and>
     (\<forall>i. vram s' i = (if 2 * unat (cursor s) \<le> i \<and> i < 2 * (unat (cursor s) + length str)
        then (if even i then str ! (i div 2 - unat (cursor s)) else CON_ATTR) else vram s i))"
proof (induction str arbitrary: s)
  case Nil
  then show ?case by auto
next
  case (Cons c str)
  have c: "printable c" "unat (cursor s) < 2000" using Cons.prems by simp_all
  let ?s = "put_char s c"
  note p = put_char_printable [OF c]
  from Cons.IH [of ?s] Cons.prems p(2) obtain s' where s':
    "print_loop ?s (str @ 0 # r) = Some s'" "unat (cursor s') = unat (cursor s) + 1 + length str"
    "\<And>i. vram s' i = (if 2 * (unat (cursor s) + 1) \<le> i \<and> i < 2 * (unat (cursor s) + 1 + length str)
        then (if even i then str ! (i div 2 - (unat (cursor s) + 1)) else CON_ATTR) else vram ?s i)"
    by auto
  have "vram s' i = (if 2 * unat (cursor s) \<le> i \<and> i < 2 * (unat (cursor s) + length (c # str))
        then (if even i then (c # str) ! (i div 2 - unat (cursor s)) else CON_ATTR) else vram s i)" for i
  proof -
    let ?k = "unat (cursor s)"
    consider "i = 2 * ?k" | "i = 2 * ?k + 1" | "2 * (?k + 1) \<le> i" | "i < 2 * ?k"
      by (atomize_elim, arith)
    then show ?thesis
    proof cases
      case 3
      then have "?k + 1 \<le> i div 2" using div_le_mono [OF 3, of 2] by simp
      then have "i div 2 - ?k = Suc (i div 2 - (?k + 1))" by linarith
      with 3 show ?thesis by (simp add: s'(3) p(3) mult.commute)
    qed (simp_all add: s'(3) p(3) mult.commute)
  qed
  with s' c(1) show ?case by (simp add: printable_def)
qed

text \<open>
  C20: a text that fits between the cursor and the end of the screen appears in the cells from
  the cursor on, with the console's attribute, all other bytes of video memory are unchanged,
  and the cursor is behind the text; the lock is free afterwards.  With the lock held, \<open>print\<close>
  never returns.
\<close>

theorem print_text:
  assumes "\<forall>c \<in> set str. printable c" and "unat (cursor s) + length str \<le> 2000"
  shows "if lock_value l = 0
    then \<exists>s'. print l s (str @ 0 # r) = Some (l\<lparr>lock_value := 0\<rparr>, s') \<and>
      unat (cursor s') = unat (cursor s) + length str \<and>
      (\<forall>i. vram s' i = (if 2 * unat (cursor s) \<le> i \<and> i < 2 * (unat (cursor s) + length str)
         then (if even i then str ! (i div 2 - unat (cursor s)) else CON_ATTR) else vram s i))
    else print l s (str @ 0 # r) = None"
  using print_loop_text [OF assms, of r] by (auto simp: print_def release_def acquire_held)

theorem print_text_witness:
  "\<exists>s'. print \<lparr>lock_value = 0\<rparr> \<lparr>vram = (\<lambda>_. 0), cursor = 1998\<rparr> ([72, 105] @ 0 # []) = Some (\<lparr>lock_value = 0\<rparr>, s') \<and>
    vram s' 3996 = 72 \<and> vram s' 3999 = CON_ATTR \<and> unat (cursor s') = 2000"
  using print_text [of "[72, 105]" "\<lparr>vram = (\<lambda>_. 0), cursor = 1998\<rparr>" "\<lparr>lock_value = 0\<rparr>" "[]"]
  by (auto simp: printable_def)

section \<open>The last rows\<close>

lemma vram_scroll: "vram (scroll_screen s) i = (if i < 3840 then vram s (i + 160) else vram s i)"
  by (simp add: scroll_screen_def Let_def)

text \<open>
  The cell behind the 25th row.  When the cursor has reached 2000, the next character scrolls
  the screen by one row and is lost: it is written behind the screen, which the scroll does not
  copy; the last row keeps its old text, and the cursor goes to the start of that row.
\<close>

theorem put_char_at_2000:
  assumes "printable a" and "cursor s = LAST_CURSOR"
  shows "cursor (put_char s a) = 1920 \<and>
    (\<forall>i < 4000. vram (put_char s a) i = (if i < 3840 then vram s (i + 160) else vram s i))"
proof -
  have "put_char s a = put_cursor (scroll_screen (set_char s 2000 a)) 1920"
    using assms by (simp add: put_char_def put_char0_def update_cursor_def printable_def Let_def)
  then show ?thesis by (simp add: vram_scroll set_char_def)
qed

theorem put_char_at_2000_witness:
  "cursor (put_char \<lparr>vram = (\<lambda>i. of_nat i), cursor = 2000\<rparr> 65) = 1920"
  using put_char_at_2000 [of 65 "\<lparr>vram = (\<lambda>i. of_nat i), cursor = 2000\<rparr>"]
  by (simp add: printable_def)

lemma linefeed_cursor:
  assumes "unat c div 80 \<noteq> 24" and "unat c + 80 < 65536"
  shows "unat (cursor (linefeed s c)) = (unat c div 80 + 1) * 80 \<and> vram (linefeed s c) = vram s"
proof -
  have c: "unat (c div 80) = unat c div 80" by (simp add: unat_div)
  have "(unat c div 80 + 1) * 80 \<le> unat c + 80" by (simp add: algebra_simps)
  then have le: "(unat c div 80 + 1) * 80 < 65536" using assms(2) by linarith
  have "unat ((c div 80 + 1) * 80) = (unat c div 80 + 1) * 80"
    using le by (simp add: unat_word_ariths c)
  moreover have "c div 80 \<noteq> 24" using assms(1) c by auto
  ultimately show ?thesis using le by (simp add: linefeed_def)
qed

text \<open>Behind the screen: no character but a backspace brings the cursor or the text back.\<close>

lemma put_char_beyond:
  assumes "2080 \<le> unat (cursor s)" and "unat (cursor s) + 80 < 65536" and "c \<noteq> BACKSPACE"
  shows "2080 \<le> unat (cursor (put_char s c)) \<and> unat (cursor (put_char s c)) \<le> unat (cursor s) + 80 \<and>
    (\<forall>i < 4000. vram (put_char s c) i = vram s i)"
proof (cases "c = LINEFEED \<or> c = CARRIAGE_RETURN")
  case True
  have q: "26 \<le> unat (cursor s) div 80" using div_le_mono [OF assms(1), of 80] by simp
  then have "unat (cursor s) div 80 \<noteq> 24" by simp
  note l = linefeed_cursor [OF this assms(2)]
  have "(unat (cursor s) div 80 + 1) * 80 \<le> unat (cursor s) + 80" by (simp add: algebra_simps)
  moreover have "put_char s c = linefeed s (cursor s)" using True assms(3) by (simp add: put_char_def Let_def)
  ultimately show ?thesis using l q by simp
next
  case False
  have u: "unat (cursor s + 1) = unat (cursor s) + 1"
    using assms(2) by (subst unat_add_small) simp_all
  have "cursor s \<noteq> LAST_CURSOR" using assms(1) by auto
  then have "put_char s c = put_cursor (set_char s (cursor s) c) (cursor s + 1)"
    using False assms(3) by (simp add: put_char_def put_char0_def update_cursor_def Let_def)
  then show ?thesis using assms(1,2) u by (simp add: set_char_def)
qed

lemma print_loop_beyond:
  "\<lbrakk> BACKSPACE \<notin> set str; 0 \<notin> set str; 2080 \<le> unat (cursor s);
     unat (cursor s) + 80 * length str < 65536 \<rbrakk> \<Longrightarrow>
   \<exists>s'. print_loop s (str @ 0 # r) = Some s' \<and> 2080 \<le> unat (cursor s') \<and> (\<forall>i < 4000. vram s' i = vram s i)"
proof (induction str arbitrary: s)
  case Nil
  then show ?case by simp
next
  case (Cons c str)
  then have p: "2080 \<le> unat (cursor (put_char s c))" "unat (cursor (put_char s c)) \<le> unat (cursor s) + 80"
    "\<And>i. i < 4000 \<Longrightarrow> vram (put_char s c) i = vram s i"
    using put_char_beyond [of s c] by auto
  with Cons.IH [of "put_char s c"] Cons.prems show ?case by auto
qed

text \<open>
  a line feed on the last row scrolls but then puts the cursor at 2000, behind the screen
  (\<open>linefeed\<close> sets the cursor a second time); the next line feed moves it to 2080, where no row
  is the last one any more: whatever is printed from then on without a backspace (up to 790
  characters) leaves the visible screen unchanged.
\<close>

theorem linefeed_leaves_screen:
  assumes "1920 \<le> unat (cursor s)" and "unat (cursor s) < 2000"
    and "BACKSPACE \<notin> set str" and "0 \<notin> set str" and "length str \<le> 790"
  shows "cursor (put_char s LINEFEED) = 2000 \<and>
    cursor (put_char (put_char s LINEFEED) LINEFEED) = 2080 \<and>
    (\<exists>s'. print_loop (put_char (put_char s LINEFEED) LINEFEED) (str @ 0 # r) = Some s' \<and>
      2080 \<le> unat (cursor s') \<and> (\<forall>i < 4000. vram s' i = vram (put_char s LINEFEED) i))"
proof -
  have "unat (cursor s div 80) = 24" using assms(1,2) by (simp add: unat_div)
  then have d: "cursor s div 80 = 24" by (simp add: word_unat_eq_iff)
  have c1: "cursor (put_char s LINEFEED) = 2000"
    using d by (simp add: put_char_def linefeed_def Let_def)
  let ?s2 = "put_char (put_char s LINEFEED) LINEFEED"
  have "put_char (put_char s LINEFEED) LINEFEED = linefeed (put_char s LINEFEED) 2000"
    using c1 by (simp add: put_char_def [of "put_char s LINEFEED"] Let_def)
  then have s2: "unat (cursor ?s2) = 2080" "vram ?s2 = vram (put_char s LINEFEED)"
    using linefeed_cursor [of 2000 "put_char s LINEFEED"] by simp_all
  then have "cursor ?s2 = 2080" by (simp add: word_unat_eq_iff)
  with c1 s2 print_loop_beyond [of str ?s2 r] assms(3-5) show ?thesis by simp
qed

theorem linefeed_leaves_screen_witness:
  "\<exists>s'. print_loop (put_char (put_char \<lparr>vram = (\<lambda>i. of_nat i), cursor = 1930\<rparr> LINEFEED) LINEFEED)
      ([72, 105] @ 0 # []) = Some s' \<and> vram s' 3000 = vram (put_char \<lparr>vram = (\<lambda>i. of_nat i), cursor = 1930\<rparr> LINEFEED) 3000"
  using linefeed_leaves_screen [of "\<lparr>vram = (\<lambda>i. of_nat i), cursor = 1930\<rparr>" "[72, 105]" "[]"] by auto

section \<open>Numbers\<close>

text \<open>Reading a hexadecimal digit and a hexadecimal number.\<close>

definition hex_digit :: "u8 \<Rightarrow> nat" where
  "hex_digit c = (if unat c < 58 then unat c - 48 else unat c - 55)"

definition hex_value :: "u8 list \<Rightarrow> nat" where
  "hex_value cs = foldl (\<lambda>n c. 16 * n + hex_digit c) 0 cs"

lemma nibble: "unat (ucast (drop_bit m w AND 0x0000000f) :: u8) = unat (w :: u32) div 2 ^ m mod 16"
proof -
  have e: "(0x0000000f :: u32) = mask 4" by (simp add: mask_eq_exp_minus_1)
  have "unat (drop_bit m w AND 0xf) = unat w div 2 ^ m mod 16"
    unfolding e take_bit_eq_mask [symmetric] unsigned_take_bit_eq unsigned_drop_bit_eq
    using unsigned_less [of w, where 'a = nat] by (simp add: take_bit_eq_mod drop_bit_eq_div)
  moreover have "unat (ucast x :: u8) = unat x" if "unat x < 16" for x :: u32
    using that by (simp add: unsigned_ucast_eq take_bit_nat_eq_self)
  ultimately show ?thesis by simp
qed

lemma hex_char:
  fixes a :: u8
  assumes "unat a < 16"
  shows "hex_digit (a + (if a < 10 then 48 else 55)) = unat a"
    and "a + (if a < 10 then 48 else 55) \<noteq> 0"
proof -
  have "unat (a + (if a < 10 then 48 else 55)) = unat a + (if unat a < 10 then 48 else 55)"
    using assms by (auto simp: unat_word_ariths word_less_nat_alt)
  then show "hex_digit (a + (if a < 10 then 48 else 55)) = unat a"
    "a + (if a < 10 then 48 else 55) \<noteq> 0"
    using assms by (auto simp: hex_digit_def split: if_splits)
qed

lemma hex_digits_prefix:
  "n < 16 ^ N \<Longrightarrow> j \<le> N \<Longrightarrow>
   foldl (\<lambda>m k. 16 * m + n div 16 ^ (N - 1 - k) mod 16) 0 [0..<j] = (n div 16 ^ (N - j) :: nat)"
proof (induction j)
  case 0
  then show ?case by simp
next
  case (Suc j)
  let ?q = "n div 16 ^ (N - Suc j)"
  have "N - j = Suc (N - Suc j)" using Suc.prems by simp
  then have "n div 16 ^ (N - j) = ?q div 16" by (simp add: div_mult2_eq [symmetric] mult.commute)
  moreover have "N - 1 - j = N - Suc j" by simp
  ultimately show ?case using Suc by simp
qed

lemma hex_digits_value:
  assumes "n < 2 ^ 32"
  shows "foldl (\<lambda>m k. 16 * m + n div 16 ^ (7 - k) mod 16) 0 [0..<8] = (n :: nat)"
  using hex_digits_prefix [of n 8 8] assms by (simp del: upt_Suc upt_rec_numeral)

text \<open>
  \<open>num2ascii\<close> writes eight characters and a 0; read as a hexadecimal number they give the
  argument back.
\<close>

theorem num2ascii_roundtrip:
  "length (num2ascii w) = 9 \<and> hex_value (take 8 (num2ascii w)) = unat w \<and>
   num2ascii w ! 8 = 0 \<and> 0 \<notin> set (take 8 (num2ascii w))"
proof -
  let ?a = "\<lambda>k. ucast (drop_bit ((7 - k) * 4) w AND 0x0000000f) :: u8"
  let ?c = "\<lambda>k. ?a k + (if ?a k < 10 then 48 else 55)"
  have a: "unat (?a k) = unat w div 16 ^ (7 - k) mod 16" for k
    unfolding nibble by (simp add: power_mult mult.commute [of _ 4])
  then have lt: "unat (?a k) < 16" for k by simp
  have n: "num2ascii w = map ?c [0..<8] @ [0]" by (simp add: num2ascii_def Let_def)
  have "hex_value (map ?c [0..<8]) = foldl (\<lambda>m k. 16 * m + hex_digit (?c k)) 0 [0..<8]"
    by (simp add: hex_value_def foldl_map)
  also have "\<dots> = foldl (\<lambda>m k. 16 * m + unat w div 16 ^ (7 - k) mod 16) 0 [0..<8]"
    unfolding hex_char(1) [OF lt] a ..
  also have "\<dots> = unat w" by (rule hex_digits_value) (use unsigned_less [of w] in simp)
  finally have "hex_value (map ?c [0..<8]) = unat w" .
  moreover have "0 \<notin> set (map ?c [0..<8])" using hex_char(2) [OF lt] by auto
  ultimately show ?thesis unfolding n by (simp add: nth_append del: upt_Suc upt_rec_numeral)
qed

section \<open>Clearing the screen\<close>

lemma set_chars:
  "n \<le> 2000 \<Longrightarrow> cursor (fold (\<lambda>i s. set_char s (of_nat i) a) [0..<n] s) = cursor s \<and>
   (\<forall>i. vram (fold (\<lambda>i s. set_char s (of_nat i) a) [0..<n] s) i
      = (if i < 2 * n then (if even i then a else CON_ATTR) else vram s i))"
proof (induction n)
  case 0
  then show ?case by simp
next
  case (Suc n)
  then have "unat (of_nat n :: u32) = n" by (intro unat_of_nat32) simp
  moreover have "i < 2 * Suc n \<longleftrightarrow> i < 2 * n \<or> i = n * 2 \<or> i = Suc (n * 2)" for i by arith
  ultimately show ?case
    using Suc by (auto simp: set_char_def)
qed

text \<open>
  \<open>clear_screen\<close> blanks all 2000 cells in the console's attribute, touches no other video
  memory, puts the cursor at 0 and leaves the lock free.
\<close>

theorem clear_screen_correct:
  "lock_value l = 0 \<longrightarrow> (\<exists>s'. clear_screen l s = Some (l\<lparr>lock_value := 0\<rparr>, s') \<and> cursor s' = 0 \<and>
     (\<forall>i. vram s' i = (if i < 4000 then (if even i then 0 else CON_ATTR) else vram s i)))"
  using set_chars [of 2000 0 s]
  by (auto simp: clear_screen_def release_def Let_def simp del: upt_Suc upt_rec_numeral)

theorem clear_screen_correct_witness:
  "\<exists>s'. clear_screen \<lparr>lock_value = 0\<rparr> \<lparr>vram = (\<lambda>i. of_nat i), cursor = 77\<rparr> = Some (\<lparr>lock_value = 0\<rparr>, s') \<and>
     cursor s' = 0 \<and> vram s' 3999 = CON_ATTR \<and> vram s' 4000 = 160"
  using clear_screen_correct [of "\<lparr>lock_value = 0\<rparr>" "\<lparr>vram = (\<lambda>i. of_nat i), cursor = 77\<rparr>"] by auto

section \<open>Printing any string constant\<close>

lemma print_loop_ends: "0 \<in> set bs \<Longrightarrow> \<exists>s'. print_loop s bs = Some s'"
  by (induction bs arbitrary: s) auto

lemma print_ends:
  "lock_value l = 0 \<Longrightarrow> 0 \<in> set bs \<Longrightarrow> \<exists>s'. print l s bs = Some (l\<lparr>lock_value := 0\<rparr>, s')"
  using print_loop_ends [of bs s] by (auto simp: print_def release_def)

end
