(* ===== verification/Keyboard.thy ===== *)
theory Keyboard
  imports Console
begin

text \<open>
  The keyboard (\<open>keyboard.c\<close>): translating scan codes, echoing and buffering characters, and
  reading a line.  A scan code is the byte read from the controller; as a C \<open>char\<close> it is
  signed.
\<close>

abbreviation BUFFERSIZE :: nat where "BUFFERSIZE \<equiv> 512"
abbreviation l_shift_make :: int where "l_shift_make \<equiv> 0x2a"
abbreviation r_shift_make :: int where "r_shift_make \<equiv> 0x36"

definition keymap :: "u8 list" where
  "keymap = [0, 27, 49, 50, 51, 52, 53, 54, 55, 56, 57, 48, 45, 61, 8,
     9, 113, 119, 101, 114, 116, 121, 117, 105, 111, 112, 91, 93, 10,
     0, 97, 115, 100, 102, 103, 104, 106, 107, 108, 59, 39, 96,
     0, 92, 122, 120, 99, 118, 98, 110, 109, 44, 46, 47, 0,
     42, 0, 32, 0]"

definition keymaps :: "u8 list" where
  "keymaps = [0, 27, 33, 64, 35, 36, 37, 94, 38, 42, 40, 41, 95, 43, 8,
     9, 81, 87, 69, 82, 84, 89, 85, 73, 79, 80, 123, 125, 10,
     0, 65, 83, 68, 70, 71, 72, 74, 75, 76, 58, 34, 126,
     0, 124, 90, 88, 67, 86, 66, 78, 77, 60, 62, 63, 0,
     42, 0, 32, 0]"

record kbd =
  keyBuffer :: "u8 list"
  kb_offset :: int
  status_shift :: u8

definition kbd_init :: kbd where
  "kbd_init = \<lparr>keyBuffer = replicate BUFFERSIZE 0, kb_offset = 0, status_shift = 0\<rparr>"

definition isBreakCode :: "u8 \<Rightarrow> bool" where
  "isBreakCode scancode \<longleftrightarrow> scancode AND 0x80 \<noteq> 0"

text \<open>
  The two comparisons promote the signed \<open>scancode\<close> to \<open>int\<close>, and the statement in the first
  branch is a comparison, not an assignment.  A code behind the end of the table is \<open>None\<close>.
\<close>

definition getAscii :: "kbd \<Rightarrow> u8 \<Rightarrow> (u8 \<times> kbd) option" where
  "getAscii k scancode =
     (if isBreakCode scancode then
        Some (0, if sint scancode = l_shift_make + 0x80 \<or> sint scancode = r_shift_make + 0x80 then k else k)
      else if sint scancode = l_shift_make \<or> sint scancode = r_shift_make then
        Some (0, k\<lparr>status_shift := 1\<rparr>)
      else if status_shift k = 1 then
        (if unat scancode < length keymaps then Some (keymaps ! unat scancode, k) else None)
      else
        (if unat scancode < length keymap then Some (keymap ! unat scancode, k) else None))"

definition handleCode :: "kbd \<Rightarrow> screen \<Rightarrow> u8 \<Rightarrow> (kbd \<times> screen) option" where
  "handleCode k s code =
     (if code = 0 then Some (k, s)
      else
        let s1 = put_char s code in
        if code = 8 \<and> kb_offset k \<noteq> 0 then Some (k\<lparr>kb_offset := kb_offset k - 1\<rparr>, s1)
        else if kb_offset k \<ge> int BUFFERSIZE then Some (k, s1)
        else if kb_offset k < 0 then None
        else Some (k\<lparr>keyBuffer := (keyBuffer k)[nat (kb_offset k) := code],
                    kb_offset := kb_offset k + 1\<rparr>, s1))"

definition do_keyboard_handler :: "kbd \<Rightarrow> screen \<Rightarrow> u8 \<Rightarrow> (kbd \<times> screen) option" where
  "do_keyboard_handler k s scancode = do {
     (code, k') \<leftarrow> getAscii k scancode;
     handleCode k' s code
   }"

text \<open>The result, the bytes stored at \<open>buf\<close>, and the keyboard after the call.\<close>

definition readStdin :: "kbd \<Rightarrow> int \<times> u8 list \<times> kbd" where
  "readStdin k =
     (case first_index (\<lambda>c. c = 10) (take BUFFERSIZE (keyBuffer k)) of
        None \<Rightarrow> (-1, [], k)
      | Some index \<Rightarrow>
          (int index + 1, take (index + 1) (keyBuffer k),
           k\<lparr>keyBuffer := splice (keyBuffer k) 0
                (take (BUFFERSIZE - index - 1) (drop (index + 1) (keyBuffer k))),
             kb_offset := kb_offset k - (int index - 1)\<rparr>))"

section \<open>Typing\<close>

text \<open>A run of key presses.\<close>

fun type_codes :: "kbd \<Rightarrow> screen \<Rightarrow> u8 list \<Rightarrow> (kbd \<times> screen) option" where
  "type_codes k s [] = Some (k, s)"
| "type_codes k s (c # cs) = do {
     (k', s') \<leftarrow> do_keyboard_handler k s c;
     type_codes k' s' cs
   }"

lemma length_keymaps [simp]: "length keymap = 59" "length keymaps = 59"
  by (simp_all add: keymap_def keymaps_def)

lemma isBreakCode_iff: "isBreakCode c \<longleftrightarrow> 128 \<le> unat c"
proof -
  have "(0x80 :: u8) = 2 ^ 7" by simp
  then have "isBreakCode c \<longleftrightarrow> bit c 7" by (simp only: isBreakCode_def and_exp_eq_0_iff_not_bit) simp
  also have "\<dots> \<longleftrightarrow> odd (unat c div 128)"
    using bit_unsigned_iff [of c 7, where 'a = nat] by (simp add: bit_iff_odd)
  also have "\<dots> \<longleftrightarrow> 128 \<le> unat c"
  proof -
    have "unat c < 256" using unsigned_less [of c, where 'a = nat] by simp
    then consider "unat c div 128 = 0" "unat c < 128" | "unat c div 128 = 1" "128 \<le> unat c"
      by (cases "unat c < 128") (auto simp: div_eq_dividend_iff intro: div_nat_eqI)
    then show ?thesis by cases simp_all
  qed
  finally show ?thesis .
qed

text \<open>The invariant of the buffer, and plain characters.\<close>

definition kbd_ok :: "kbd \<Rightarrow> bool" where
  "kbd_ok k \<longleftrightarrow> length (keyBuffer k) = BUFFERSIZE \<and> 0 \<le> kb_offset k \<and> kb_offset k \<le> int BUFFERSIZE"

definition plain :: "u8 \<Rightarrow> bool" where
  "plain c \<longleftrightarrow> c \<noteq> 0 \<and> c \<noteq> 8 \<and> c \<noteq> 10"

fun handle_codes :: "kbd \<Rightarrow> screen \<Rightarrow> u8 list \<Rightarrow> (kbd \<times> screen) option" where
  "handle_codes k s [] = Some (k, s)"
| "handle_codes k s (c # cs) = do {
     (k', s') \<leftarrow> handleCode k s c;
     handle_codes k' s' cs
   }"

lemma handle_codes_append:
  "handle_codes k s (cs @ ds) = handle_codes k s cs \<bind> (\<lambda>(k', s'). handle_codes k' s' ds)"
  by (induction cs arbitrary: k s) (auto split: bind_splits)

text \<open>
  while characters are typed the buffer is never overrun: its index stays between 0 and 512,
  and every key press is handled.
\<close>

theorem typing_stays_in_buffer:
  assumes "kbd_ok k"
  shows "\<exists>k' s'. handle_codes k s cs = Some (k', s') \<and> kbd_ok k'"
  using assms
proof (induction cs arbitrary: k s)
  case Nil
  then show ?case by simp
next
  case (Cons c cs)
  then have "\<exists>k1 s1. handleCode k s c = Some (k1, s1) \<and> kbd_ok k1"
    by (auto simp: handleCode_def kbd_ok_def Let_def)
  then obtain k1 s1 where k1: "handleCode k s c = Some (k1, s1)" "kbd_ok k1" by blast
  with Cons.IH [OF k1(2), of s1] show ?case by simp
qed

theorem typing_stays_in_buffer_witness:
  "\<exists>k' s'. handle_codes kbd_init \<lparr>vram = (\<lambda>_. 0), cursor = 0\<rparr> (8 # replicate 600 97) = Some (k', s') \<and> kbd_ok k'"
  by (rule typing_stays_in_buffer) (simp add: kbd_ok_def kbd_init_def)

lemma handle_plain:
  assumes "c \<noteq> 0" and "c \<noteq> 8" and "kb_offset k = int m" and "m < BUFFERSIZE"
  shows "handleCode k s c = Some (k\<lparr>keyBuffer := (keyBuffer k)[m := c], kb_offset := int (Suc m)\<rparr>, put_char s c)"
  using assms by (simp add: handleCode_def Let_def)

lemma handle_line:
  "\<lbrakk> \<forall>c \<in> set l. c \<noteq> 0 \<and> c \<noteq> 8; kb_offset k = int m; m + length l \<le> BUFFERSIZE;
     length (keyBuffer k) = BUFFERSIZE \<rbrakk> \<Longrightarrow>
   \<exists>s'. handle_codes k s l
     = Some (k\<lparr>keyBuffer := splice (keyBuffer k) m l, kb_offset := int (m + length l)\<rparr>, s')"
proof (induction l arbitrary: k s m)
  case Nil
  then show ?case by simp
next
  case (Cons c l)
  let ?k = "k\<lparr>keyBuffer := (keyBuffer k)[m := c], kb_offset := int (Suc m)\<rparr>"
  have h: "handleCode k s c = Some (?k, put_char s c)" using Cons.prems by (intro handle_plain) auto
  have "splice ((keyBuffer k)[m := c]) (Suc m) l = splice (keyBuffer k) m (c # l)"
    using Cons.prems by (intro nth_equalityI) (auto simp: nth_splice nth_list_update nth_Cons' le_Suc_eq)
  with h Cons.IH [of ?k "Suc m" "put_char s c"] Cons.prems show ?case by auto
qed

lemma readStdin_line:
  assumes "length (keyBuffer k) = BUFFERSIZE" and "m + Suc (length l) \<le> BUFFERSIZE"
    and "10 \<notin> set (take m (keyBuffer k))" and "10 \<notin> set l"
  shows "readStdin (k\<lparr>keyBuffer := splice (keyBuffer k) m (l @ [10]), kb_offset := j\<rparr>)
    = (int (m + length l) + 1, take m (keyBuffer k) @ l @ [10],
       k\<lparr>keyBuffer := splice (splice (keyBuffer k) m (l @ [10])) 0 (drop (m + Suc (length l)) (keyBuffer k)),
         kb_offset := j - (int (m + length l) - 1)\<rparr>)"
proof -
  let ?b = "splice (keyBuffer k) m (l @ [10])"
  have b: "?b = take m (keyBuffer k) @ l @ 10 # drop (m + Suc (length l)) (keyBuffer k)"
    by (simp add: splice_def)
  have len: "length ?b = 512" using assms(1,2) by simp
  have "first_index (\<lambda>c. c = 10) ?b = Some (m + length l)"
  proof (rule first_index_eqI)
    show "m + length l < length ?b" using len assms(2) by simp
    show "?b ! (m + length l) = 10" using assms(1,2) by (simp add: b nth_append)
    fix j assume j: "j < m + length l"
    have "?b ! j \<in> set (take m (keyBuffer k)) \<union> set l"
      using j assms(1,2) nth_mem [of j "take m (keyBuffer k)"] by (auto simp: b nth_append)
    with assms(3,4) show "?b ! j \<noteq> 10" by auto
  qed
  moreover have "take (Suc (m + length l)) ?b = take m (keyBuffer k) @ l @ [10]"
    using assms(1,2) by (simp add: b)
  moreover have "drop (Suc (m + length l)) ?b = drop (m + Suc (length l)) (keyBuffer k)"
    using assms(1,2) by (simp add: b)
  ultimately show ?thesis using len assms(1,2) by (simp add: readStdin_def)
qed

text \<open>
  C21: a line typed behind \<open>m\<close> bytes without a line feed is read back, with those bytes in front:
  \<open>readStdin\<close> returns the bytes up to the first line feed and its own length, and afterwards
  the write index is 2, not 0.
\<close>

theorem readStdin_typed_line:
  assumes "length (keyBuffer k) = BUFFERSIZE" and "kb_offset k = int m" and "m + Suc (length l) \<le> BUFFERSIZE"
    and "10 \<notin> set (take m (keyBuffer k))" and "\<forall>c \<in> set l. plain c"
  shows "\<exists>k1 s1 k2. handle_codes k s (l @ [10]) = Some (k1, s1) \<and>
    readStdin k1 = (int (m + length l) + 1, take m (keyBuffer k) @ l @ [10], k2) \<and> kb_offset k2 = 2"
proof -
  obtain s1 where "handle_codes k s (l @ [10])
      = Some (k\<lparr>keyBuffer := splice (keyBuffer k) m (l @ [10]), kb_offset := int (m + Suc (length l))\<rparr>, s1)"
    using handle_line [of "l @ [10]" k m s] assms by (auto simp: plain_def)
  moreover have "10 \<notin> set l" using assms(5) by (auto simp: plain_def)
  ultimately show ?thesis
    using readStdin_line [OF assms(1,3,4), of "int (m + Suc (length l))"] assms(1,3) by simp
qed

theorem readStdin_typed_line_witness:
  "\<exists>k1 s1 k2. handle_codes kbd_init \<lparr>vram = (\<lambda>_. 0), cursor = 0\<rparr> ([104, 105] @ [10]) = Some (k1, s1) \<and>
    readStdin k1 = (int (0 + length [104, 105 :: u8]) + 1, take 0 (keyBuffer kbd_init) @ [104, 105] @ [10], k2) \<and>
    kb_offset k2 = 2"
  by (rule readStdin_typed_line) (simp_all add: kbd_init_def plain_def)

text \<open>
  the second of two typed lines arrives with two stray zero bytes in front, because
  \<open>readStdin\<close> takes two too few off the write index.
\<close>

theorem readStdin_second_line:
  assumes "\<forall>c \<in> set l1. plain c" and "\<forall>c \<in> set l2. plain c"
    and "length l1 + 3 \<le> BUFFERSIZE" and "length l2 + 3 \<le> BUFFERSIZE"
  shows "\<exists>k1 s1 k2 k3 s3 k4. handle_codes kbd_init s (l1 @ [10]) = Some (k1, s1) \<and>
    readStdin k1 = (int (length l1) + 1, l1 @ [10], k2) \<and>
    handle_codes k2 s1 (l2 @ [10]) = Some (k3, s3) \<and>
    readStdin k3 = (int (length l2) + 3, [0, 0] @ l2 @ [10], k4)"
proof -
  let ?k1 = "kbd_init\<lparr>keyBuffer := splice (keyBuffer kbd_init) 0 (l1 @ [10]), kb_offset := int (0 + Suc (length l1))\<rparr>"
  have init: "length (keyBuffer kbd_init) = 512" "kb_offset kbd_init = int 0" by (simp_all add: kbd_init_def)
  have nl: "10 \<notin> set l1" "10 \<notin> set l2" using assms(1,2) by (auto simp: plain_def)
  obtain s1 where h1: "handle_codes kbd_init s (l1 @ [10]) = Some (?k1, s1)"
    using handle_line [of "l1 @ [10]" kbd_init 0 s] init assms(1,3) by (auto simp: plain_def)
  let ?b2 = "splice (splice (keyBuffer kbd_init) 0 (l1 @ [10])) 0 (drop (0 + Suc (length l1)) (keyBuffer kbd_init))"
  let ?k2 = "kbd_init\<lparr>keyBuffer := ?b2, kb_offset := 2\<rparr>"
  have r1: "readStdin ?k1 = (int (length l1) + 1, l1 @ [10], ?k2)"
    using readStdin_line [OF init(1), of 0 l1 "int (0 + Suc (length l1))"] assms(3) nl(1) by simp
  have len2: "length ?b2 = 512" using init assms(3) by simp
  have z: "take 2 ?b2 = [0, 0]"
  proof -
    have "drop (0 + Suc (length l1)) (keyBuffer kbd_init) = 0 # 0 # replicate (509 - length l1) 0"
      using assms(3) by (simp add: kbd_init_def Suc_diff_le flip: replicate_Suc)
    then show ?thesis by (simp add: splice_def)
  qed
  let ?k3 = "?k2\<lparr>keyBuffer := splice ?b2 2 (l2 @ [10]), kb_offset := int (2 + Suc (length l2))\<rparr>"
  obtain s3 where h2: "handle_codes ?k2 s1 (l2 @ [10]) = Some (?k3, s3)"
    using handle_line [of "l2 @ [10]" ?k2 2 s1] len2 assms(2,4) by (auto simp: plain_def)
  have "10 \<notin> set (take 2 ?b2)" by (simp only: z) simp
  then have "\<exists>k4. readStdin ?k3 = (int (length l2) + 3, [0, 0] @ l2 @ [10], k4)"
    using readStdin_line [of ?k2 2 l2 "int (2 + Suc (length l2))"] len2 assms(4) nl(2) z by simp
  with h1 r1 h2 show ?thesis by blast
qed

theorem readStdin_second_line_witness:
  "\<exists>k1 s1 k2 k3 s3 k4. handle_codes kbd_init \<lparr>vram = (\<lambda>_. 0), cursor = 0\<rparr> ([97] @ [10]) = Some (k1, s1) \<and>
    readStdin k1 = (int (length [97 :: u8]) + 1, [97] @ [10], k2) \<and>
    handle_codes k2 s1 ([98] @ [10]) = Some (k3, s3) \<and>
    readStdin k3 = (int (length [98 :: u8]) + 3, [0, 0] @ [98] @ [10], k4)"
  by (rule readStdin_second_line) (simp_all add: plain_def)

section \<open>Editing and shift\<close>

lemma handle_backspaces:
  "kb_offset k = int n \<Longrightarrow> j \<le> n \<Longrightarrow>
   \<exists>s'. handle_codes k s (replicate j 8) = Some (k\<lparr>kb_offset := int (n - j)\<rparr>, s')"
proof (induction j arbitrary: k s n)
  case 0
  then show ?case by simp
next
  case (Suc j)
  then have "handleCode k s 8 = Some (k\<lparr>kb_offset := int (n - 1)\<rparr>, put_char s 8)"
    by (simp add: handleCode_def Let_def of_nat_diff)
  with Suc.IH [of "k\<lparr>kb_offset := int (n - 1)\<rparr>" "n - 1" "put_char s 8"] Suc.prems show ?case by simp
qed

text \<open>
  Backspaces only move the write index, so a line that was entered and then deleted is still
  read; reading it takes the index below 0, and the next character typed is stored outside the
  buffer.
\<close>

theorem deleted_line_underruns:
  assumes "\<forall>c \<in> set l. plain c" and "2 \<le> length l" and "length l < BUFFERSIZE" and "plain c"
  shows "\<exists>k1 s1 k2 s2. handle_codes kbd_init s (l @ [10] @ replicate (length l + 1) 8) = Some (k1, s1) \<and>
    kb_offset k1 = 0 \<and> readStdin k1 = (int (length l) + 1, l @ [10], k2) \<and>
    kb_offset k2 = 1 - int (length l) \<and> handleCode k2 s2 c = None"
proof -
  let ?b = "splice (keyBuffer kbd_init) 0 (l @ [10])"
  let ?k = "kbd_init\<lparr>keyBuffer := ?b, kb_offset := int (0 + Suc (length l))\<rparr>"
  have init: "length (keyBuffer kbd_init) = 512" "kb_offset kbd_init = int 0" by (simp_all add: kbd_init_def)
  have nl: "10 \<notin> set l" using assms(1) by (auto simp: plain_def)
  obtain s1 where h1: "handle_codes kbd_init s (l @ [10]) = Some (?k, s1)"
    using handle_line [of "l @ [10]" kbd_init 0 s] init assms(1,3) by (auto simp: plain_def)
  obtain s2 where h2: "handle_codes ?k s1 (replicate (length l + 1) 8)
      = Some (?k\<lparr>kb_offset := int (Suc (length l) - (length l + 1))\<rparr>, s2)"
    using handle_backspaces [of ?k "Suc (length l)" "length l + 1" s1] by auto
  have run: "handle_codes kbd_init s (l @ [10] @ replicate (length l + 1) 8)
      = Some (kbd_init\<lparr>keyBuffer := ?b, kb_offset := 0\<rparr>, s2)"
    unfolding append_assoc [symmetric] handle_codes_append [of _ _ "l @ [10]"] h1 using h2 by simp
  have r: "\<exists>k2. readStdin (kbd_init\<lparr>keyBuffer := ?b, kb_offset := 0\<rparr>) = (int (length l) + 1, l @ [10], k2) \<and>
      kb_offset k2 = 1 - int (length l)"
    using readStdin_line [OF init(1), of 0 l 0] assms(3) nl by simp
  then obtain k2 where "readStdin (kbd_init\<lparr>keyBuffer := ?b, kb_offset := 0\<rparr>) = (int (length l) + 1, l @ [10], k2)"
      "kb_offset k2 = 1 - int (length l)" by blast
  moreover from this(2) assms(2,4) have "handleCode k2 s2 c = None"
    by (simp add: handleCode_def plain_def Let_def)
  ultimately show ?thesis using run by (intro exI conjI) (assumption | simp)+
qed

theorem deleted_line_underruns_witness:
  "\<exists>k1 s1 k2 s2. handle_codes kbd_init \<lparr>vram = (\<lambda>_. 0), cursor = 0\<rparr>
      ([97, 98] @ [10] @ replicate (length [97, 98 :: u8] + 1) 8) = Some (k1, s1) \<and>
    kb_offset k1 = 0 \<and> readStdin k1 = (int (length [97, 98 :: u8]) + 1, [97, 98] @ [10], k2) \<and>
    kb_offset k2 = 1 - int (length [97, 98 :: u8]) \<and> handleCode k2 s2 99 = None"
  by (rule deleted_line_underruns) (simp_all add: plain_def)

lemma getAscii_shift: "getAscii k c = Some (a, k') \<Longrightarrow> status_shift k = 1 \<Longrightarrow> status_shift k' = 1"
  by (auto simp: getAscii_def split: if_splits)

lemma handleCode_shift: "handleCode k s c = Some (k', s') \<Longrightarrow> status_shift k' = status_shift k"
  by (auto simp: handleCode_def Let_def split: if_splits)

text \<open>
  shift is never released: the statement for its break code is a comparison, so after one
  press of shift every later key press is translated by the shifted table.
\<close>

theorem shift_sticks:
  assumes "getAscii k0 scancode = Some (a, k1)" and "scancode = 0x2a \<or> scancode = 0x36"
    and "type_codes k1 s codes = Some (k2, s2)"
  shows "status_shift k2 = 1 \<and>
    (\<forall>c. unat c < 59 \<longrightarrow> c \<noteq> 0x2a \<longrightarrow> c \<noteq> 0x36 \<longrightarrow> getAscii k2 c = Some (keymaps ! unat c, k2))"
proof -
  have "status_shift k1 = 1" using assms(1,2) by (auto simp: getAscii_def isBreakCode_def)
  with assms(3) have k2: "status_shift k2 = 1"
  proof (induction codes arbitrary: k1 s)
    case Nil
    then show ?case by simp
  next
    case (Cons c codes)
    then obtain a k' k'' s'' where "getAscii k1 c = Some (a, k')" "handleCode k' s a = Some (k'', s'')"
      "type_codes k'' s'' codes = Some (k2, s2)"
      by (auto simp: do_keyboard_handler_def split: bind_splits)
    with Cons.IH Cons.prems(2) getAscii_shift handleCode_shift show ?case by metis
  qed
  have "getAscii k2 c = Some (keymaps ! unat c, k2)" if "unat c < 59" "c \<noteq> 0x2a" "c \<noteq> 0x36" for c
  proof -
    have "\<not> isBreakCode c"
      using that(1) by (simp add: isBreakCode_iff)
    moreover have "sint c \<noteq> m" if "c \<noteq> of_int m" for m :: int using that by auto
    then have "sint c \<noteq> 0x2a" "sint c \<noteq> 0x36" using that(2,3) by simp_all
    ultimately show ?thesis using k2 that(1) by (simp add: getAscii_def)
  qed
  with k2 show ?thesis by blast
qed

theorem shift_sticks_witness:
  "getAscii (kbd_init\<lparr>status_shift := 1\<rparr>) 0x1e = Some (keymaps ! unat (0x1e :: u8), kbd_init\<lparr>status_shift := 1\<rparr>)"
  using shift_sticks [where ?k0.0 = kbd_init and scancode = "0x2a" and a = "0" and ?k1.0 = "kbd_init\<lparr>status_shift := 1\<rparr>"
      and s = "\<lparr>vram = (\<lambda>_. 0), cursor = 0\<rparr>" and codes = "[0xaa]"
      and ?k2.0 = "kbd_init\<lparr>status_shift := 1\<rparr>" and ?s2.0 = "\<lparr>vram = (\<lambda>_. 0), cursor = 0\<rparr>"]
  by (simp add: getAscii_def isBreakCode_def do_keyboard_handler_def handleCode_def)

end
