(* ===== verification/Process.thy ===== *)
theory Process
  imports FsData Keyboard
begin

text \<open>
  Processes (\<open>process.c\<close>, structures from \<open>kernel.h\<close>): the table of process control blocks, process
  numbers, loading a program, and the scheduler.  \<open>kernel\<close> is the state of the whole kernel; a
  pointer to a control block is its index in \<open>pcblist\<close>.  \<open>switchCtx\<close> is assembly: an operation
  that ends in it returns the context it is given.
\<close>

abbreviation PCB_MAX :: nat where "PCB_MAX \<equiv> 20"
abbreviation PID_MAX :: int where "PID_MAX \<equiv> 60"

datatype run_state = FREE | BORN | RUNNABLE | RUNNING | ZOMBIE | ABORT

record cpu_context =
  c_edi :: u32
  c_esi :: u32
  c_ebp :: u32
  c_nesp :: u32
  c_ebx :: u32
  c_edx :: u32
  c_ecx :: u32
  c_eax :: u32
  c_gs :: u16
  c_fs :: u16
  c_es :: u16
  c_ds :: u16
  c_eip :: u32
  c_cs :: u16
  c_eflags :: u32
  c_esp :: u32
  c_ss :: u16

record intr_context =
  i_edi :: u32
  i_esi :: u32
  i_ebp :: u32
  i_esp_current :: u32
  i_ebx :: u32
  i_edx :: u32
  i_ecx :: u32
  i_eax :: u32
  i_gs :: u16
  i_fs :: u16
  i_es :: u16
  i_ds :: u16
  inter_no :: u32
  i_error_code :: u32
  i_eip :: u32
  i_cs :: u16
  i_eflags :: u32
  i_esp :: u32
  i_ss :: u16

record pcb =
  p_ctx :: cpu_context
  p_size :: u32
  p_sector :: u32
  pid :: u32
  father_pid :: u32
  pstate :: run_state
  p_pagedir :: u32
  next_vir_addr :: u32
  fdlist :: "fd list"

record kernel =
  pcblist :: "pcb list"
  nextpid :: u32
  current_process :: nat
  fileList :: "open_file list"
  kmem :: mem
  free_list :: u32
  kdisk :: disk
  cr3 :: u32
  video_lock :: lock
  scr :: screen
  kb :: kbd

abbreviation current_pcb :: "kernel \<Rightarrow> pcb" where
  "current_pcb k \<equiv> pcblist k ! current_process k"

definition update_pcb :: "nat \<Rightarrow> (pcb \<Rightarrow> pcb) \<Rightarrow> kernel \<Rightarrow> kernel" where
  "update_pcb i f k = k\<lparr>pcblist := (pcblist k)[i := f (pcblist k ! i)]\<rparr>"

text \<open>The allocator's state inside the kernel's.\<close>

abbreviation pool :: "kernel \<Rightarrow> mem \<times> u32" where "pool k \<equiv> (kmem k, free_list k)"
abbreviation set_pool :: "mem \<times> u32 \<Rightarrow> kernel \<Rightarrow> kernel" where
  "set_pool s k \<equiv> k\<lparr>kmem := fst s, free_list := snd s\<rparr>"

section \<open>Control blocks\<close>

definition closed_fd :: fd where "closed_fd = \<lparr>open_flag = CLOSE, ofptr = None\<rparr>"

definition init_pcb :: "u32 \<Rightarrow> kernel \<Rightarrow> kernel" where
  "init_pcb pagedir k =
     (let k1 = k\<lparr>pcblist := map (\<lambda>p. p\<lparr>next_vir_addr := 0, pstate := FREE,
                              fdlist := replicate FILE_MAX_InPROCESS closed_fd\<rparr>) (pcblist k)\<rparr>
      in (update_pcb 0 (\<lambda>p. p\<lparr>pid := 0, pstate := RUNNING, p_pagedir := pagedir\<rparr>) k1)
           \<lparr>current_process := 0\<rparr>)"

definition create_process :: "kernel \<Rightarrow> (nat \<times> kernel) option" where
  "create_process k = do {
     j \<leftarrow> first_index (\<lambda>p. pstate p = FREE) (drop 1 (pcblist k));
     let i = j + 1;
         (page, s) = alloc_page (pool k);
         open_std = (\<lambda>fds. fold (\<lambda>n fds. fds[n := \<lparr>open_flag = OPEN, ofptr = Some n\<rparr>])
                      [STDIN_FILENO, STDOUT_FILENO, STDERR_FILENO] fds)
     in Some (i, update_pcb i (\<lambda>p. p\<lparr>pstate := BORN, pid := nextpid k, p_pagedir := page,
                                    fdlist := open_std (fdlist p)\<rparr>)
                   (set_pool s (k\<lparr>nextpid := nextpid k + 1\<rparr>)))
   }"

text \<open>
  The numbering loop; the state is \<open>nextpid\<close>.  Result \<open>-1\<close> and the new \<open>nextpid\<close> are those of
  the C function; \<open>None\<close> is a loop that does not end.
\<close>

partial_function (option) getPid :: "pcb list \<Rightarrow> u32 \<Rightarrow> (int \<times> u32) option" where
  "getPid pcbs next =
     (let pid0 = sint next; next1 = next + 1;
          (p, next2) = (if PID_MAX < pid0 then (1, 1) else (pid0, next1))
      in if \<exists>q \<in> set pcbs. pid q = of_int p then getPid pcbs next2
         else if p < PID_MAX then Some (p, next2) else Some (-1, next2))"

text \<open>
  Inner \<open>None\<close> is the null pointer that \<open>allocProcess\<close> returns when \<open>getPid\<close> fails; with no free
  control block it writes through a null pointer.
\<close>

definition allocProcess :: "kernel \<Rightarrow> (nat option \<times> kernel) option" where
  "allocProcess k = do {
     (p, next) \<leftarrow> getPid (pcblist k) (nextpid k);
     let k = k\<lparr>nextpid := next\<rparr>
     in if p = -1 then Some (None, k)
        else do {
          i \<leftarrow> first_index (\<lambda>p. pstate p = FREE) (pcblist k);
          Some (Some i, update_pcb i (\<lambda>q. q\<lparr>pstate := RUNNABLE, pid := of_int p,
                                          father_pid := pid (current_pcb k)\<rparr>) k)
        }
   }"

definition copyContext :: "intr_context \<Rightarrow> pcb \<Rightarrow> pcb" where
  "copyContext father p = p\<lparr>p_ctx := (p_ctx p)
     \<lparr>c_eax := 0, c_ebx := i_ebx father, c_ecx := i_ecx father, c_edx := i_edx father,
      c_edi := i_edi father, c_esi := i_esi father, c_ebp := i_ebp father, c_esp := i_esp father,
      c_ds := i_ds father, c_es := i_es father, c_fs := i_fs father, c_gs := i_gs father,
      c_cs := i_cs father, c_ss := i_ss father, c_eip := i_eip father,
      c_eflags := i_eflags father\<rparr>\<rparr>"

text \<open>\<open>haveChildren\<close> counts from \<open>-1\<close>.\<close>

definition haveChildren :: "u32 \<Rightarrow> kernel \<Rightarrow> int" where
  "haveChildren p k = fold (\<lambda>q child. if father_pid q = p then child + 1 else child) (pcblist k) (-1)"

text \<open>The search has no \<open>break\<close>; \<open>None\<close> is an uninitialised pointer.\<close>

definition getPCB :: "u32 \<Rightarrow> kernel \<Rightarrow> nat option" where
  "getPCB p k = last_index (\<lambda>q. pid q = p) (pcblist k)"

section \<open>Scheduling\<close>

text \<open>The result is the context for \<open>switchCtx\<close>, if there is a switch.\<close>

definition schedule :: "kernel \<Rightarrow> cpu_context option \<times> kernel" where
  "schedule k =
     (case first_index (\<lambda>p. pstate p = RUNNABLE) (pcblist k) of
        None \<Rightarrow> (None, k)
      | Some i \<Rightarrow>
          let last = current_process k;
              k1 = k\<lparr>current_process := i, cr3 := VIR_2_PHY (p_pagedir (pcblist k ! i))\<rparr>;
              k2 = update_pcb last (\<lambda>p. p\<lparr>pstate := RUNNABLE\<rparr>) k1;
              k3 = update_pcb i (\<lambda>p. p\<lparr>pstate := RUNNING\<rparr>) k2
          in (Some (p_ctx (pcblist k3 ! i)), k3))"

section \<open>Loading a program\<close>

lemma readSegment_progress:
  assumes "\<not> MAX_FILE_BYTES \<le> unat (off :: u32)"
  shows "unat off < unat (off + of_nat (BLOCK_SIZE - unat off mod BLOCK_SIZE))"
proof -
  let ?l = "BLOCK_SIZE - unat off mod BLOCK_SIZE"
  have l: "0 < ?l" "?l \<le> 512" by simp_all
  then have "unat (of_nat ?l :: u32) = ?l" by (intro unat_of_nat32) simp
  with assms l have "unat (off + of_nat ?l) = unat off + ?l" by (subst unat_add_small) simp_all
  with l show ?thesis by simp
qed

text \<open>
  \<open>readSegment\<close>, from file offset \<open>off\<close> to \<open>end\<close>: each step copies \<open>left\<close> bytes from the start of the
  block.
\<close>

function readSegment_loop ::
  "('m \<Rightarrow> u32 \<Rightarrow> u8 list \<Rightarrow> 'm option) \<Rightarrow> disk \<Rightarrow> inode \<Rightarrow> u32 \<Rightarrow> u32 \<Rightarrow> u32 \<Rightarrow> 'm \<Rightarrow> 'm option" where
  "readSegment_loop put d n off end p m =
     (if off < end then
        if MAX_FILE_BYTES \<le> unat off then None
        else
          let block = block_no n ! (unat off div BLOCK_SIZE);
              left = BLOCK_SIZE - unat off mod BLOCK_SIZE;
              arr = k_readsector d (block + SUPER_BLOCK_SECTOR)
          in do {
            m \<leftarrow> put m p (take left arr);
            readSegment_loop put d n (off + of_nat left) end (p + of_nat left) m
          }
      else Some m)"
  by pat_completeness auto

termination
proof (relation "measure (\<lambda>(put, d, n, off, end, p, m). 2 ^ 32 - unat off)", goal_cases)
  case 1
  show ?case by simp
next
  case (2 put d n off "end" p m block left arr m')
  have "unat (off + of_nat left) < 2 ^ 32"
    using unsigned_less [of "off + of_nat left", where 'a = nat] by simp
  with readSegment_progress [OF 2(2)] 2(4) show ?case by simp
qed

declare readSegment_loop.simps [simp del]

definition readSegment ::
  "('m \<Rightarrow> u32 \<Rightarrow> u8 list \<Rightarrow> 'm option) \<Rightarrow> disk \<Rightarrow> inode \<Rightarrow> program_header \<Rightarrow> u32 \<Rightarrow> 'm \<Rightarrow> 'm option" where
  "readSegment put d n programHeader location m =
     readSegment_loop put d n (p_offset programHeader)
       (p_offset programHeader + p_filesize programHeader) location m"

text \<open>
  The page loop of one segment.  The pointer steps by \<open>PAGESIZE\<close> pages of 4096 bytes; stepping
  past the end of the address space is \<open>None\<close>.
\<close>

function map_segment :: "u32 \<Rightarrow> u32 \<Rightarrow> u32 \<Rightarrow> mem \<times> u32 \<Rightarrow> (mem \<times> u32) option" where
  "map_segment pagedir current_vir_page vir_page_end s =
     (if current_vir_page < vir_page_end then
        let (page, s) = alloc_page s;
            s = page_map pagedir current_vir_page (VIR_2_PHY page) 1 s;
            next_page = current_vir_page + of_nat PAGESIZE * of_nat PAGESIZE
        in if next_page < current_vir_page then None
           else map_segment pagedir next_page vir_page_end s
      else Some s)"
  by pat_completeness auto
termination
proof (relation "measure (\<lambda>(pd, c, e, s). 2 ^ 32 - unat c)", goal_cases)
  case 1
  show ?case by simp
next
  case (2 pd c e s x page s1 s2 next_page)
  have "c \<noteq> c + of_nat PAGESIZE * of_nat PAGESIZE" by simp
  with 2(5,6) have "unat c < unat next_page" by (simp add: word_less_nat_alt word_unat_eq_iff)
  moreover have "unat next_page < 2 ^ 32" using unsigned_less [of next_page, where 'a = nat] by simp
  ultimately show ?case by simp
qed

declare map_segment.simps [simp del]

text \<open>The loop over the program headers; \<open>elfHeader\<close> and \<open>programHeader\<close> are addresses.\<close>

function load_segments ::
  "u32 \<Rightarrow> disk \<Rightarrow> inode \<Rightarrow> u32 \<Rightarrow> u32 \<Rightarrow> nat \<Rightarrow> mem \<times> u32 \<Rightarrow> (mem \<times> u32) option" where
  "load_segments pagedir d n elfHeader programHeader j s =
     (if j < unat (e_phnum (elf_at (fst s) elfHeader)) then do {
        s \<leftarrow> (let h = ph_at (fst s) programHeader in
              if p_type h = LOAD_SEG then do {
                s \<leftarrow> map_segment pagedir (p_vaddr h AND 0xfffff000) (ALIGN_UP (p_vaddr h + p_memsize h)) s;
                let h = ph_at (fst s) programHeader;
                (_, m) \<leftarrow> read_file_at_offset (vwrite pagedir) n (sint (p_offset h)) (p_vaddr h)
                           (p_filesize h) d (fst s);
                Some (m, snd s)
              } else Some s);
        load_segments pagedir d n elfHeader (programHeader + of_nat sizeof_program_header) (j + 1) s
      } else Some s)"
  by pat_completeness auto
termination
proof (relation "measure (\<lambda>(pd, d, n, eh, ph, j, s). 2 ^ 16 - j)", goal_cases)
  case 1
  show ?case by simp
next
  case (2 pd d n eh ph j s s')
  then show ?case
    using unsigned_less [of "e_phnum (elf_at (fst s) eh)", where 'a = nat] by simp
qed

declare load_segments.simps [simp del]

text \<open>The entry point, or 0 (\<open>NULL\<close>) for a file that is not an ELF file.\<close>

definition loadProcess :: "u32 \<Rightarrow> disk \<Rightarrow> inode \<Rightarrow> mem \<times> u32 \<Rightarrow> (u32 \<times> (mem \<times> u32)) option" where
  "loadProcess pagedir d n s =
     (let (elfHeader, s) = alloc_page s in do {
        (_, m) \<leftarrow> read_file_at_offset (\<lambda>m p bs. Some (mem_write m p bs)) n 0 elfHeader (of_nat PAGESIZE) d (fst s);
        let s = (m, snd s);
        if magic (elf_at (fst s) elfHeader) \<noteq> ELF_MAGIC then Some (0, s)
        else do {
          let programHeader = elfHeader + e_phoff (elf_at (fst s) elfHeader);
          s \<leftarrow> load_segments pagedir d n elfHeader programHeader 0 s;
          Some (e_entry (elf_at (fst s) elfHeader), s)
        }
      })"

section \<open>Lemmas: process numbers\<close>

definition in_use :: "pcb list \<Rightarrow> nat \<Rightarrow> bool" where
  "in_use pcbs n \<longleftrightarrow> (\<exists>q \<in> set pcbs. pid q = of_nat n)"

lemma sint_of_nat: "n \<le> 61 \<Longrightarrow> sint (of_nat n :: u32) = int n"
  using unat_of_nat32 [of n] by simp

lemma getPid_step:
  assumes "n \<le> 60"
  shows "getPid pcbs (of_nat n) =
    (if in_use pcbs n then getPid pcbs (of_nat (n + 1))
     else if n < 60 then Some (int n, of_nat (n + 1)) else Some (-1, of_nat (n + 1)))"
proof -
  have "sint (of_nat n :: u32) = int n" using assms by (simp add: sint_of_nat)
  with assms show ?thesis by (subst getPid.simps) (simp add: Let_def add.commute in_use_def)
qed

lemma getPid_wrap:
  "getPid pcbs (of_nat 61) = (if in_use pcbs 1 then getPid pcbs (of_nat 1) else Some (1, 1))"
proof -
  have "sint (of_nat 61 :: u32) = 61"
    using sint_of_nat [of 61] by simp
  then show ?thesis by (subst getPid.simps) (simp add: Let_def in_use_def)
qed

lemma getPid_scan:
  "n \<le> k \<Longrightarrow> k \<le> 60 \<Longrightarrow> \<not> in_use pcbs k \<Longrightarrow> \<forall>j. n \<le> j \<longrightarrow> j < k \<longrightarrow> in_use pcbs j \<Longrightarrow>
   getPid pcbs (of_nat n) = Some (if k < 60 then int k else -1, of_nat (k + 1))"
proof (induction "k - n" arbitrary: n)
  case 0
  then show ?case by (simp add: getPid_step)
next
  case (Suc m)
  then have "getPid pcbs (of_nat (n + 1)) = Some (if k < 60 then int k else -1, of_nat (k + 1))"
    by (intro Suc.hyps(1)) auto
  moreover from Suc have "n \<le> 60" "in_use pcbs n" by auto
  ultimately show ?case by (simp only: getPid_step if_True)
qed

lemma getPid_skip:
  "n \<le> 61 \<Longrightarrow> \<forall>j. n \<le> j \<longrightarrow> j \<le> 60 \<longrightarrow> in_use pcbs j \<Longrightarrow> getPid pcbs (of_nat n) = getPid pcbs (of_nat 61)"
proof (induction "61 - n" arbitrary: n)
  case (Suc m)
  then have "getPid pcbs (of_nat (n + 1)) = getPid pcbs (of_nat 61)"
    by (intro Suc.hyps(1)) auto
  moreover from Suc have "n \<le> 60" "in_use pcbs n" by auto
  ultimately show ?case by (simp only: getPid_step if_True)
qed simp

lemma unused_number:
  assumes "length pcbs < 60"
  shows "\<exists>k. 1 \<le> k \<and> k \<le> 60 \<and> \<not> in_use pcbs k"
proof (rule ccontr)
  assume "\<not> ?thesis"
  then have all: "k \<in> {1..60} \<Longrightarrow> in_use pcbs k" for k by auto
  have inj: "inj_on (of_nat :: nat \<Rightarrow> u32) {1..60}"
    by (rule inj_on_inverseI [of _ unat]) (simp add: unat_of_nat32)
  have "(of_nat :: nat \<Rightarrow> u32) ` {1..60} \<subseteq> pid ` set pcbs"
    using all by (force simp: image_iff in_use_def)
  then have "card ((of_nat :: nat \<Rightarrow> u32) ` {1..60}) \<le> card (pid ` set pcbs)" by (intro card_mono) simp_all
  also have "\<dots> \<le> length pcbs" by (meson card_image_le card_length finite_set order_trans)
  finally show False using assms card_image [OF inj] by simp
qed

text \<open>The first unused number from \<open>n\<close> on.\<close>

lemma least_from:
  assumes "(n :: nat) \<le> k0" and "\<not> P k0"
  obtains k where "n \<le> k" "k \<le> k0" "\<not> P k" "\<forall>j. n \<le> j \<longrightarrow> j < k \<longrightarrow> P j"
proof -
  let ?k = "LEAST k. n \<le> k \<and> \<not> P k"
  have "n \<le> ?k \<and> \<not> P ?k" using assms LeastI [of "\<lambda>k. n \<le> k \<and> \<not> P k" k0] by blast
  moreover have "?k \<le> k0" using assms Least_le [of "\<lambda>k. n \<le> k \<and> \<not> P k" k0] by blast
  moreover have "\<forall>j. n \<le> j \<longrightarrow> j < ?k \<longrightarrow> P j"
    using not_less_Least [of _ "\<lambda>k. n \<le> k \<and> \<not> P k"] by blast
  ultimately show ?thesis using that by blast
qed

text \<open>
  The specification of \<open>getPid\<close>: the first number that no process has, from \<open>nextpid\<close> up to 60 and then
  from 1 on.
\<close>

definition next_number :: "pcb list \<Rightarrow> u32 \<Rightarrow> nat option" where
  "next_number pcbs next = find (\<lambda>n. \<not> in_use pcbs n) ([unat next..<61] @ [1..<61])"

lemma find_from:
  assumes "n \<le> k" and "k < m" and "\<not> P k" and "\<forall>j. n \<le> j \<longrightarrow> j < k \<longrightarrow> P j"
  shows "find (\<lambda>j. \<not> P j) ([n..<m] @ ys) = Some k"
  using assms
proof (induction "k - n" arbitrary: n)
  case (Suc d)
  then have "n < m" "P n" "find (\<lambda>j. \<not> P j) ([Suc n..<m] @ ys) = Some k" by simp_all
  then show ?case by (simp add: upt_conv_Cons del: upt_Suc)
qed (simp add: upt_conv_Cons del: upt_Suc)

lemma find_skip: "\<forall>x \<in> set xs. \<not> P x \<Longrightarrow> find P (xs @ ys) = find P ys"
  by (induction xs) auto

text \<open>
  \<open>getPid\<close> always returns, with a process table of fewer than 60 entries and \<open>nextpid\<close> between
  1 and 61: the next number if that is below 60, and \<open>-1\<close> if it is 60, though smaller numbers may be
  unused; and \<open>nextpid\<close> stays between 1 and 61.
\<close>

lemma getPid_fresh:
  assumes "length pcbs < 60" and "1 \<le> unat next" and "unat next \<le> 61"
  shows "\<exists>n next'. next_number pcbs next = Some n \<and> getPid pcbs next = Some (if n < 60 then int n else -1, next') \<and>
    1 \<le> unat next' \<and> unat next' \<le> 61 \<and> 1 \<le> n \<and> n \<le> 60 \<and> \<not> in_use pcbs n"
proof -
  have from_n: "\<exists>k next'. find (\<lambda>n. \<not> in_use pcbs n) ([n..<61] @ ys) = Some k \<and>
      getPid pcbs (of_nat n) = Some (if k < 60 then int k else -1, next') \<and>
      1 \<le> unat next' \<and> unat next' \<le> 61 \<and> 1 \<le> k \<and> k \<le> 60 \<and> \<not> in_use pcbs k"
    if "1 \<le> n" "n \<le> k" "k \<le> 60" "\<not> in_use pcbs k" for n k ys
  proof -
    from that obtain k' where k': "n \<le> k'" "k' \<le> k" "\<not> in_use pcbs k'"
      "\<forall>j. n \<le> j \<longrightarrow> j < k' \<longrightarrow> in_use pcbs j" by (auto elim: least_from)
    then have "getPid pcbs (of_nat n) = Some (if k' < 60 then int k' else -1, of_nat (k' + 1))"
      using that(3) by (intro getPid_scan) auto
    moreover have "unat (of_nat (k' + 1) :: u32) = k' + 1" using k'(2) that(3) by (intro unat_of_nat32) simp
    moreover have "find (\<lambda>n. \<not> in_use pcbs n) ([n..<61] @ ys) = Some k'"
      using k' that(3) by (intro find_from) auto
    ultimately show ?thesis using k' that by auto
  qed
  have nx: "next = of_nat (unat next)" by simp
  show ?thesis
  proof (cases "\<exists>k. unat next \<le> k \<and> k \<le> 60 \<and> \<not> in_use pcbs k")
    case True
    with from_n [OF assms(2)] show ?thesis unfolding next_number_def by (subst (2) nx) blast
  next
    case False
    then have skip: "getPid pcbs next = getPid pcbs (of_nat 61)"
      using assms(3) by (subst nx) (intro getPid_skip; blast)
    have number: "next_number pcbs next = find (\<lambda>n. \<not> in_use pcbs n) [1..<61]"
      unfolding next_number_def using False by (intro find_skip) auto
    show ?thesis
    proof (cases "in_use pcbs 1")
      case True
      from unused_number [OF assms(1)] obtain k where "1 \<le> k" "k \<le> 60" "\<not> in_use pcbs k" by blast
      from from_n [OF _ this, of "[]"] show ?thesis unfolding skip number getPid_wrap using True by auto
    next
      case False
      then have "find (\<lambda>n. \<not> in_use pcbs n) [1..<61] = Some 1"
        using find_from [of 1 1 61 "in_use pcbs" "[]"] by simp
      with False show ?thesis unfolding skip number getPid_wrap by auto
    qed
  qed
qed

text \<open>Control blocks and memory as they are before \<open>main\<close>: static storage is zero.\<close>

definition zero_context :: cpu_context where
  "zero_context = \<lparr>c_edi = 0, c_esi = 0, c_ebp = 0, c_nesp = 0, c_ebx = 0, c_edx = 0, c_ecx = 0,
     c_eax = 0, c_gs = 0, c_fs = 0, c_es = 0, c_ds = 0, c_eip = 0, c_cs = 0, c_eflags = 0,
     c_esp = 0, c_ss = 0\<rparr>"

definition zero_pcb :: pcb where
  "zero_pcb = \<lparr>p_ctx = zero_context, p_size = 0, p_sector = 0, pid = 0, father_pid = 0, pstate = FREE,
     p_pagedir = 0, next_vir_addr = 0, fdlist = replicate FILE_MAX_InPROCESS closed_fd\<rparr>"

section \<open>Lemmas: switching\<close>

text \<open>One process runs: the current one, and no other.\<close>

definition one_running :: "kernel \<Rightarrow> bool" where
  "one_running k \<longleftrightarrow> current_process k < length (pcblist k) \<and>
     (\<forall>i < length (pcblist k). pstate (pcblist k ! i) = RUNNING \<longleftrightarrow> i = current_process k)"

definition runnable :: "kernel \<Rightarrow> nat set" where
  "runnable k = {i. i < length (pcblist k) \<and> pstate (pcblist k ! i) = RUNNABLE}"

lemma length_update_pcb [simp]: "length (pcblist (update_pcb i f k)) = length (pcblist k)"
  by (simp add: update_pcb_def)

lemma nth_update_pcb:
  "i < length (pcblist k) \<Longrightarrow>
   pcblist (update_pcb i f k) ! j = (if j = i then f (pcblist k ! i) else pcblist k ! j)"
  by (simp add: update_pcb_def nth_list_update)

lemma update_pcb_other [simp]:
  "current_process (update_pcb i f k) = current_process k" "cr3 (update_pcb i f k) = cr3 k"
  "kmem (update_pcb i f k) = kmem k" "free_list (update_pcb i f k) = free_list k"
  "fileList (update_pcb i f k) = fileList k" "kdisk (update_pcb i f k) = kdisk k"
  "nextpid (update_pcb i f k) = nextpid k" "video_lock (update_pcb i f k) = video_lock k"
  "scr (update_pcb i f k) = scr k" "kb (update_pcb i f k) = kb k"
  by (simp_all add: update_pcb_def)

lemma first_runnable:
  "first_index (\<lambda>p. pstate p = RUNNABLE) (pcblist k) =
     (if runnable k = {} then None else Some (Min (runnable k)))"
  by (simp add: first_index_Min runnable_def)

text \<open>
  What a switch does to the table: the contract of \<open>schedule\<close>, which the timer handler shares.
\<close>

definition switches :: "kernel \<Rightarrow> nat \<Rightarrow> kernel \<Rightarrow> bool" where
  "switches k i k' \<longleftrightarrow>
     length (pcblist k') = length (pcblist k) \<and> current_process k' = i \<and>
     cr3 k' = VIR_2_PHY (p_pagedir (pcblist k ! i)) \<and>
     (\<forall>j < length (pcblist k). pstate (pcblist k' ! j) =
        (if j = i then RUNNING else if j = current_process k then RUNNABLE else pstate (pcblist k ! j)))"

lemma schedule_switches:
  assumes "current_process k < length (pcblist k)" and "runnable k \<noteq> {}"
  shows "\<exists>k'. schedule k = (Some (p_ctx (pcblist k ! Min (runnable k))), k') \<and>
    switches k (Min (runnable k)) k'"
proof -
  have i: "Min (runnable k) < length (pcblist k)"
    using Min_in [OF _ assms(2)] by (simp add: runnable_def)
  with assms show ?thesis
    by (auto simp: schedule_def first_runnable Let_def switches_def nth_update_pcb update_pcb_def nth_list_update)
qed

lemma switches_one_running:
  assumes "one_running k" and "i \<in> runnable k" and "switches k i k'"
  shows "one_running k'" and "runnable k' = insert (current_process k) (runnable k - {i})"
  using assms by (auto simp: one_running_def switches_def runnable_def split: if_splits)

text \<open>
  The contract shared by \<open>schedule\<close> and the timer: a step switches to the runnable process with the
  lowest index, and does nothing when there is none.
\<close>

locale lowest_first =
  fixes step :: "'a \<Rightarrow> kernel \<Rightarrow> kernel option" and ready :: "kernel \<Rightarrow> bool"
  assumes step_switch: "ready k \<Longrightarrow> one_running k \<Longrightarrow> runnable k \<noteq> {} \<Longrightarrow>
      \<exists>k'. step a k = Some k' \<and> switches k (Min (runnable k)) k' \<and> ready k'"
    and step_idle: "ready k \<Longrightarrow> runnable k = {} \<Longrightarrow> step a k = Some k"
begin

fun steps :: "'a list \<Rightarrow> kernel \<Rightarrow> kernel option" where
  "steps [] k = Some k"
| "steps (a # as) k = step a k \<bind> steps as"

lemma step_cases:
  assumes "ready k" and "one_running k"
  shows "\<exists>k'. step a k = Some k' \<and> ready k' \<and> one_running k' \<and>
    (if runnable k = {} then k' = k
     else current_process k' = Min (runnable k) \<and>
          runnable k' = insert (current_process k) (runnable k - {Min (runnable k)}))"
proof (cases "runnable k = {}")
  case True
  with step_idle assms show ?thesis by auto
next
  case False
  from step_switch [OF assms False] obtain k' where
    k': "step a k = Some k'" "switches k (Min (runnable k)) k'" "ready k'" by blast
  have "Min (runnable k) \<in> runnable k" using False by (intro Min_in) (auto simp: runnable_def)
  from switches_one_running [OF assms(2) this k'(2)] k' False show ?thesis
    by (auto simp: switches_def)
qed

lemma steps_one_running:
  "ready k \<Longrightarrow> one_running k \<Longrightarrow> \<exists>k'. steps as k = Some k' \<and> ready k' \<and> one_running k'"
proof (induction as arbitrary: k)
  case (Cons a as)
  from step_cases [OF Cons.prems] obtain k' where "step a k = Some k'" "ready k'" "one_running k'" by blast
  with Cons.IH [of k'] show ?case by simp
qed simp

text \<open>As long as processes 0 and 1 are willing to run, no other does.\<close>

lemma starvation:
  "ready k \<Longrightarrow> one_running k \<Longrightarrow> current_process k \<in> {0, 1} \<Longrightarrow>
   {0, 1} \<subseteq> insert (current_process k) (runnable k) \<Longrightarrow>
   \<exists>k'. steps as k = Some k' \<and> one_running k' \<and> current_process k' \<in> {0, 1} \<and>
     runnable k' - {0, 1} = runnable k - {0, 1}"
proof (induction as arbitrary: k)
  case (Cons a as)
  let ?i = "1 - current_process k"
  from Cons.prems(2) have cur: "current_process k \<notin> runnable k" by (auto simp: one_running_def runnable_def)
  from Cons.prems(3,4) have i: "?i \<in> runnable k" by auto
  have "finite (runnable k)" by (simp add: runnable_def)
  moreover have "?i \<le> j" if "j \<in> runnable k" for j
    using that cur Cons.prems(3) by (cases "j = 0") auto
  ultimately have min: "Min (runnable k) = ?i" using i by (intro Min_eqI) auto
  from i have ne: "runnable k \<noteq> {}" by auto
  from step_cases [OF Cons.prems(1,2), of a, unfolded min if_not_P [OF ne]] obtain k' where
    k': "step a k = Some k'" "ready k'" "one_running k'" "current_process k' = ?i"
    "runnable k' = insert (current_process k) (runnable k - {?i})" by blast
  have "current_process k = 0 \<or> current_process k = 1" using Cons.prems(3) by simp
  then have sets: "current_process k' \<in> {0, 1}" "{0, 1} \<subseteq> insert (current_process k') (runnable k')"
    "runnable k' - {0, 1} = runnable k - {0, 1}"
    unfolding k'(4,5) by (elim disjE; simp; blast)+
  from Cons.IH [OF k'(2,3) sets(1,2)] sets(3) k'(1) show ?case by simp
qed simp

end

interpretation scheduler: lowest_first "\<lambda>(_ :: unit) k. Some (snd (schedule k))" "\<lambda>_. True"
proof
  fix k
  assume "one_running k" "runnable k \<noteq> {}"
  then show "\<exists>k'. Some (snd (schedule k)) = Some k' \<and> switches k (Min (runnable k)) k' \<and> True"
    using schedule_switches [of k] by (auto simp: one_running_def)
next
  show "runnable k = {} \<Longrightarrow> Some (snd (schedule k)) = Some k" for k
    by (simp add: schedule_def first_runnable)
qed

section \<open>A small process table\<close>

definition demo_kernel :: kernel where
  "demo_kernel = \<lparr>pcblist = zero_pcb\<lparr>pstate := RUNNING, p_pagedir := 0xc0100000\<rparr>
       # zero_pcb\<lparr>pstate := RUNNABLE, pid := 1, p_pagedir := 0xc0200000\<rparr>
       # zero_pcb\<lparr>pstate := RUNNABLE, pid := 2, p_pagedir := 0xc0300000\<rparr> # replicate 17 zero_pcb,
     nextpid = 3, current_process = 0, fileList = [], kmem = (\<lambda>_. 0), free_list = 0xc1fff000,
     kdisk = (\<lambda>_. []), cr3 = 0x100000, video_lock = \<lparr>lock_value = 0\<rparr>,
     scr = \<lparr>vram = (\<lambda>_. 0), cursor = 0\<rparr>, kb = kbd_init\<rparr>"

lemma demo_kernel_running:
  "one_running demo_kernel" "runnable demo_kernel = {1, 2}" "current_process demo_kernel = 0"
proof -
  have nth: "pstate (pcblist demo_kernel ! i) = (if i = 0 then RUNNING else if i < 3 then RUNNABLE else FREE)"
    if "i < 20" for i
    using that by (auto simp: demo_kernel_def zero_pcb_def nth_Cons split: nat.splits)
  have len: "length (pcblist demo_kernel) = 20" by (simp add: demo_kernel_def)
  show cur: "current_process demo_kernel = 0" by (simp add: demo_kernel_def)
  show "one_running demo_kernel" using nth by (auto simp: one_running_def len cur)
  show "runnable demo_kernel = {1, 2}" using nth
    by (auto simp: runnable_def len split: if_splits)
qed

section \<open>Properties: scheduling and loading\<close>

text \<open>
  \<open>allocProcess\<close> always returns when a control block is free: \<open>NULL\<close> exactly when the next number is
  60, leaving the table alone, otherwise the first free block, made runnable with the next number
  and the current process as its father, all other blocks as before.  \<open>nextpid\<close> stays in range, so
  this holds again for the next call.
\<close>

lemma allocProcess_fresh:
  assumes "length (pcblist k) = PCB_MAX" and "1 \<le> unat (nextpid k)" and "unat (nextpid k) \<le> 61"
    and "\<exists>p \<in> set (pcblist k). pstate p = FREE"
  shows "\<exists>n r k'. next_number (pcblist k) (nextpid k) = Some n \<and> 1 \<le> n \<and> n \<le> 60 \<and>
    allocProcess k = Some (r, k') \<and> 1 \<le> unat (nextpid k') \<and> unat (nextpid k') \<le> 61 \<and>
    (case r of None \<Rightarrow> n = 60 \<and> pcblist k' = pcblist k
     | Some i \<Rightarrow> n < 60 \<and> i < PCB_MAX \<and> pstate (pcblist k ! i) = FREE \<and> (\<forall>j < i. pstate (pcblist k ! j) \<noteq> FREE) \<and>
         (let p = pcblist k' ! i in
          pstate p = RUNNABLE \<and> father_pid p = pid (current_pcb k) \<and>
          unat (pid p) = n \<and> (\<forall>q \<in> set (pcblist k). pid q \<noteq> pid p) \<and>
          pcblist k' = (pcblist k)[i := p]))"
proof -
  obtain n next' where n: "next_number (pcblist k) (nextpid k) = Some n"
    "getPid (pcblist k) (nextpid k) = Some (if n < 60 then int n else -1, next')"
    "1 \<le> unat next'" "unat next' \<le> 61" "1 \<le> n" "n \<le> 60" "\<not> in_use (pcblist k) n"
    using getPid_fresh [OF _ assms(2,3), of "pcblist k"] assms(1) by auto
  show ?thesis
  proof (cases "n < 60")
    case False
    with n show ?thesis by (auto simp: allocProcess_def)
  next
    case True
    from assms(4) obtain i where i: "first_index (\<lambda>p. pstate p = FREE) (pcblist k) = Some i"
      by (cases "first_index (\<lambda>p. pstate p = FREE) (pcblist k)") (auto simp: first_index_None)
    note f = first_index_SomeD [OF i]
    have "unat (of_nat n :: u32) = n" using True by (intro unat_of_nat32) simp
    moreover have "\<forall>q \<in> set (pcblist k). pid q \<noteq> of_nat n" using n(7) by (auto simp: in_use_def)
    ultimately show ?thesis
      using n True i f assms(1) by (auto simp: allocProcess_def update_pcb_def Let_def)
  qed
qed

text \<open>
  \<open>haveChildren\<close> returns one less than the number of children: 0 for a process with exactly one
  child, which \<open>sys_wait\<close> takes for none, and \<open>-1\<close>, which it takes for some, for one without.
\<close>

lemma haveChildren_eq:
  "haveChildren p k = int (length (filter (\<lambda>q. father_pid q = p) (pcblist k))) - 1"
proof -
  have "fold (\<lambda>q child. if father_pid q = p then child + 1 else child) qs c
      = c + int (length (filter (\<lambda>q. father_pid q = p) qs))" for qs c
    by (induction qs arbitrary: c) auto
  from this [of "pcblist k" "-1"] show ?thesis by (simp add: haveChildren_def)
qed

lemma allocProcess_nextpid:
  assumes "allocProcess k = Some (r, k')" and "length (pcblist k) = PCB_MAX"
    and "1 \<le> unat (nextpid k)" and "unat (nextpid k) \<le> 61"
  shows "1 \<le> unat (nextpid k') \<and> unat (nextpid k') \<le> 61"
proof -
  from getPid_fresh [OF _ assms(3,4), of "pcblist k"] assms(2) obtain p next' where
    "getPid (pcblist k) (nextpid k) = Some (p, next')" "1 \<le> unat next'" "unat next' \<le> 61" by auto
  with assms(1) show ?thesis by (auto simp: allocProcess_def Let_def split: bind_splits if_splits)
qed

lemma allocProcess_frame:
  assumes "allocProcess k = Some (r, k')"
  shows "current_process k' = current_process k" "free_list k' = free_list k" "kmem k' = kmem k"
    "fileList k' = fileList k" "kdisk k' = kdisk k"
  using assms by (auto simp: allocProcess_def Let_def split: Option.bind_splits prod.splits if_splits)

text \<open>
  C26: \<open>schedule\<close> keeps the process table consistent: with exactly one process running, the current
  one, it switches to the runnable process with the lowest index, whose context and page directory
  are the ones loaded, makes the old one runnable, and again exactly the current one is running;
  with no runnable process it does nothing.
\<close>

theorem schedule_correct:
  assumes "one_running k"
  shows "case schedule k of (c, k') \<Rightarrow> one_running k' \<and>
    (if runnable k = {} then c = None \<and> k' = k
     else let i = Min (runnable k) in
       c = Some (p_ctx (pcblist k ! i)) \<and> current_process k' = i \<and>
       cr3 k' = VIR_2_PHY (p_pagedir (pcblist k ! i)) \<and>
       runnable k' = insert (current_process k) (runnable k - {i}))"
proof (cases "runnable k = {}")
  case True
  with assms show ?thesis by (simp add: schedule_def first_runnable)
next
  case False
  from assms have "current_process k < length (pcblist k)" by (simp add: one_running_def)
  from schedule_switches [OF this False] obtain k' where
    k': "schedule k = (Some (p_ctx (pcblist k ! Min (runnable k))), k')" "switches k (Min (runnable k)) k'"
    by blast
  have "Min (runnable k) \<in> runnable k" using False by (intro Min_in) (auto simp: runnable_def)
  from switches_one_running [OF assms this k'(2)] k' False show ?thesis
    by (simp add: switches_def Let_def)
qed

theorem schedule_correct_witness:
  "case schedule demo_kernel of (c, k') \<Rightarrow>
     current_process k' = 1 \<and> cr3 k' = 0x200000 \<and> runnable k' = {0, 2}"
  using schedule_correct [OF demo_kernel_running(1)]
  by (auto simp: demo_kernel_running Let_def split_def)
     (simp add: demo_kernel_def VIR_2_PHY_def)

text \<open>
  C29: Of a segment of up to 16 MB, \<open>loadProcess\<close> maps the first page and no other: its page loop steps by
  4096 pages.  The first free page becomes the frame of the page at the start of the segment, open to
  user programs; every address in another page is translated as before, so when it was not mapped it
  still is not, and loading a larger segment faults.  The page, and one more if there was no page
  table, are taken from the free list.
\<close>

theorem map_segment_first_page_only:
  assumes "addr_space s pd (page # xs)"
    and "table_at (fst s) pd (dir_index cur) = None \<Longrightarrow> xs \<noteq> []"
    and "\<And>j t. unat j < 1024 \<Longrightarrow> table_at (fst s) pd (dir_index cur) = Some t \<Longrightarrow>
           table_at (fst s) pd j = Some t \<Longrightarrow> j = dir_index cur"
    and "cur < end" and "end \<le> cur + 0x1000000" and "unat cur < 0xff000000"
  shows "\<exists>s'. map_segment pd cur end s = Some s' \<and>
    addr_space s' pd (if table_at (fst s) pd (dir_index cur) = None then tl xs else xs) \<and>
    (\<forall>x. translate (fst s') pd x =
       (if drop_bit 12 x = drop_bit 12 cur
        then Some (VIR_2_PHY page OR (x AND 0xfff), entry_word (VIR_2_PHY page) 1)
        else translate (fst s) pd x))"
proof -
  let ?s1 = "(fst s, load32 (fst s) (snd s))" and ?s' = "page_map pd cur (VIR_2_PHY page) 1"
  from assms(1) have al: "alloc_page s = (page, ?s1)" and sp1: "addr_space ?s1 pd xs" and "page_aligned page"
    by (auto simp: addr_space_def page_list_def alloc_page_def)
  then have frame: "VIR_2_PHY page AND 0xfffff000 = VIR_2_PHY page"
    by (intro frame_of_aligned page_aligned_VIR_2_PHY)
  have "unat (cur + 0x1000000) = unat cur + 0x1000000"
    using assms(6) by (subst unat_add_small) simp_all
  then have no_wrap: "\<not> cur + 0x1000000 < cur" by (simp add: word_less_nat_alt)
  from assms(5) have "\<not> cur + 0x1000000 < end" by (simp only: not_less)
  then have stop: "map_segment pd (cur + 0x1000000) end t = Some t" for t
    by (subst map_segment.simps) simp
  have seg: "map_segment pd cur end s = Some (?s' ?s1)"
    using assms(4) no_wrap stop by (subst map_segment.simps) (simp add: al Let_def)
  note page = page_map_effect [OF sp1 _ _ refl, of cur "VIR_2_PHY page" 1, simplified, OF assms(2,3)]
  show ?thesis
    by (intro exI [of _ "?s' ?s1"] conjI allI seg) (use page frame in \<open>auto split: if_splits\<close>)
qed

theorem map_segment_first_page_only_witness:
  "\<exists>s'. map_segment 0xc1000000 0x08048000 0x0804a000
      (store32 (\<lambda>_. 0) 0xc1ffe000 0xc1fff000, 0xc1ffe000) = Some s' \<and>
    translate (fst s') 0xc1000000 0x08048123 = Some (0x1ffe123, 0x1ffe007) \<and>
    translate (fst s') 0xc1000000 0x08049000 = None"
proof -
  let ?m = "store32 (\<lambda>_. 0) 0xc1ffe000 0xc1fff000"
  have "load32 ?m (0xc1000000 + 4 * i) = 0" if "unat i < 1024" for i
    using load_entry_store [of "0xc1ffe000" "0xc1000000" 0 i "\<lambda>_. 0" "0xc1fff000"] that
    by (simp add: load32_zero)
  then have none: "table_at ?m 0xc1000000 i = None" if "unat i < 1024" for i
    using that by (simp add: table_at_def)
  then have "addr_space (?m, 0xc1ffe000) 0xc1000000 [0xc1ffe000, 0xc1fff000]"
    by (simp add: addr_space_def page_list_def)
  from map_segment_first_page_only [OF this, of "0x08048000" "0x0804a000"] none [OF dir_index_less]
  obtain s' where s': "map_segment 0xc1000000 0x08048000 0x0804a000 (?m, 0xc1ffe000) = Some s'"
    "\<And>x. translate (fst s') 0xc1000000 x =
       (if drop_bit 12 x = drop_bit 12 (0x08048000 :: u32)
        then Some (VIR_2_PHY 0xc1ffe000 OR (x AND 0xfff), entry_word (VIR_2_PHY 0xc1ffe000) 1)
        else translate ?m 0xc1000000 x)" by auto
  have "VIR_2_PHY 0xc1ffe000 OR (0x08048123 AND 0xfff) = 0x1ffe123" "entry_word (VIR_2_PHY 0xc1ffe000) 1 = 0x1ffe007"
    "drop_bit 12 (0x08048123 :: u32) = drop_bit 12 0x08048000" "drop_bit 12 (0x08049000 :: u32) \<noteq> drop_bit 12 0x08048000"
    by code_simp+
  with s'(2) [of "0x08048123"] s'(2) [of "0x08049000"] none [OF dir_index_less, of "0x08049000"] s'(1)
  show ?thesis by (auto simp: translate_def)
qed

end
