(* ===== verification/Syscall.thy ===== *)
theory Syscall
  imports Process
begin

text \<open>
  System calls (\<open>syscall.c\<close>).  Every handler takes the interrupt frame \<open>ptr\<close> and the kernel state
  and gives its result, which becomes the caller's \<open>eax\<close>, with the state after it; \<open>None\<close> is
  undefined behaviour, a page fault, or not returning.  User memory is reached through the page
  directory in \<open>cr3\<close>.
\<close>

abbreviation USER_STACK_START :: u32 where "USER_STACK_START \<equiv> 0xbffffffc"
abbreviation PAGE_PRIVILEGE_USER :: u32 where "PAGE_PRIVILEGE_USER \<equiv> 1"

text \<open>What uninitialised locals of the handlers hold.\<close>

record locals =
  l_superblock_tail :: "u8 list"
  l_inode :: inode
  l_filename :: "nat \<Rightarrow> u8 list"

abbreviation user_dir :: "kernel \<Rightarrow> u32" where "user_dir k \<equiv> PHY_2_VIR (cr3 k)"

text \<open>The bytes of a string argument, the terminating zero included.\<close>

partial_function (option) user_string :: "u32 \<Rightarrow> mem \<Rightarrow> u32 \<Rightarrow> u8 list option" where
  "user_string pagedir m p = do {
     (a, _) \<leftarrow> translate m pagedir p;
     if m (PHY_2_VIR a) = 0 then Some [0]
     else do { bs \<leftarrow> user_string pagedir m (p + 1); Some (m (PHY_2_VIR a) # bs) }
   }"

section \<open>Screen, files\<close>

definition sys_clear :: "kernel \<Rightarrow> (int \<times> kernel) option" where
  "sys_clear k = do {
     (l, s) \<leftarrow> clear_screen (video_lock k) (scr k);
     Some (0, k\<lparr>video_lock := l, scr := s\<rparr>)
   }"

definition sys_write :: "intr_context \<Rightarrow> kernel \<Rightarrow> (int \<times> kernel) option" where
  "sys_write ptr k =
     (let fdi = sint (i_ebx ptr); buf = i_ecx ptr; sz = i_edx ptr; p = current_pcb k in
      if int FILE_MAX_InPROCESS \<le> fdi \<or> fdi < 0 \<or> buf = 0 then Some (-1, k)
      else if isOpen (nat fdi) (fdlist p) = 0 then Some (-1, k)
      else do {
        i \<leftarrow> ofptr (fdlist p ! nat fdi);
        let file = fileList k ! i;
        if haveAccess file O_WRONLY = 0 \<and> haveAccess file O_RDWR = 0 then Some (-1, k)
        else if nat fdi = STDOUT_FILENO \<or> nat fdi = STDERR_FILENO then do {
          text \<leftarrow> user_string (user_dir k) (kmem k) buf;
          (l, s) \<leftarrow> print (video_lock k) (scr k) text;
          Some (sint sz, k\<lparr>video_lock := l, scr := s\<rparr>)
        }
        else if f_inode_block_no file = 0 \<or> of_nat INODE_BLOCK_SIZE < f_inode_block_no file then Some (-1, k)
        else do {
          n \<leftarrow> read_inode (kdisk k) (f_inode_block_no file) (f_inode_offset file);
          (file', n', d') \<leftarrow>
            (if i_mode n = REGULAR_FILE then do {
               (_, file', n', d') \<leftarrow> writeFile (vread (user_dir k) (kmem k)) file n buf sz (kdisk k);
               Some (file', n', d')
             } else Some (file, n, kdisk k));
          d'' \<leftarrow> writeInode d' (n'\<lparr>i_size := i_size n' + sz\<rparr>);
          Some (sint sz, k\<lparr>fileList := (fileList k)[i := file'], kdisk := d''\<rparr>)
        }
      })"

definition sys_read :: "intr_context \<Rightarrow> kernel \<Rightarrow> (int \<times> kernel) option" where
  "sys_read ptr k =
     (let fdi = sint (i_ebx ptr); buf = i_ecx ptr; sz = i_edx ptr; p = current_pcb k in
      if int FILE_MAX_InPROCESS \<le> fdi \<or> fdi < 0 \<or> buf = 0 then Some (-1, k)
      else if isOpen (nat fdi) (fdlist p) = 0 then Some (-1, k)
      else do {
        i \<leftarrow> ofptr (fdlist p ! nat fdi);
        let file = fileList k ! i;
        if haveAccess file O_RDONLY = 0 \<and> haveAccess file O_RDWR = 0 then Some (-1, k)
        else if nat fdi = STDIN_FILENO then
          (case readStdin (kb k) of (r, bytes, kb') \<Rightarrow> do {
             m \<leftarrow> vwrite (user_dir k) (kmem k) buf bytes;
             Some (r, k\<lparr>kmem := m, kb := kb'\<rparr>)
           })
        else if f_inode_block_no file = 0 \<or> of_nat INODE_BLOCK_SIZE < f_inode_block_no file then Some (-1, k)
        else do {
          n \<leftarrow> read_inode (kdisk k) (f_inode_block_no file) (f_inode_offset file);
          if i_mode n = REGULAR_FILE then do {
            (readSize, file', m) \<leftarrow> readFile (vwrite (user_dir k)) file n buf sz (kdisk k) (kmem k);
            d' \<leftarrow> writeInode (kdisk k) n;
            Some (readSize, k\<lparr>fileList := (fileList k)[i := file'], kmem := m, kdisk := d'\<rparr>)
          } else None
        }
      })"

definition sys_open :: "locals \<Rightarrow> intr_context \<Rightarrow> kernel \<Rightarrow> (int \<times> kernel) option" where
  "sys_open lo ptr k = do {
     path \<leftarrow> user_string (user_dir k) (kmem k) (i_ebx ptr);
     let oflag = sint (i_ecx ptr);
     (r, n) \<leftarrow> seekFileInode (kdisk k) (l_filename lo) path;
     if r = -1 then Some (-1, k)
     else
       let p = current_pcb k; fdi = getMinfd (fdlist p) in
       case (if 0 < fdi then setOpenFileList oflag n (fileList k) else None) of
         None \<Rightarrow> Some (fdi, k)
       | Some (ptr, fl) \<Rightarrow>
           Some (fdi, update_pcb (current_process k)
             (\<lambda>p. p\<lparr>fdlist := (fdlist p)[nat fdi := \<lparr>open_flag = OPEN, ofptr = Some ptr\<rparr>]\<rparr>)
             (k\<lparr>fileList := fl\<rparr>))
   }"

definition sys_close :: "intr_context \<Rightarrow> kernel \<Rightarrow> int \<times> kernel" where
  "sys_close ptr k =
     (let fdi = sint (i_ebx ptr); p = current_pcb k in
      if int FILE_MAX_InPROCESS \<le> fdi \<or> fdi < 0 then (-1, k)
      else if isOpen (nat fdi) (fdlist p) = 0 then (-1, k)
      else (0, update_pcb (current_process k)
                 (\<lambda>p. p\<lparr>fdlist := (fdlist p)[nat fdi := \<lparr>open_flag = CLOSE, ofptr = None\<rparr>]\<rparr>)
                 (k\<lparr>fileList := delFile (ofptr (fdlist p ! nat fdi)) (fileList k)\<rparr>)))"

definition sys_creat :: "locals \<Rightarrow> intr_context \<Rightarrow> kernel \<Rightarrow> (int \<times> kernel) option" where
  "sys_creat lo ptr k = do {
     (r, n, d) \<leftarrow> allocInode (kdisk k) (l_superblock_tail lo) (l_inode lo);
     if r = -1 then Some (-1, k\<lparr>kdisk := d\<rparr>) else do {
     (r, n, d) \<leftarrow> allocBlock d n;
     if r = -1 then Some (-1, k\<lparr>kdisk := d\<rparr>) else do {
     let n = n\<lparr>i_mode := ucast (i_ecx ptr)\<rparr>;
     path \<leftarrow> user_string (user_dir k) (kmem k) (i_ebx ptr);
     (r, base) \<leftarrow> seekBaseDirectory d (l_filename lo) path;
     if r = -1 then Some (-1, k\<lparr>kdisk := d\<rparr>) else do {
     (r, base, d) \<leftarrow> writeDirectory d base path n;
     if r = -1 then Some (-1, k\<lparr>kdisk := d\<rparr>) else do {
     d \<leftarrow> writeInode d n;
     sys_open lo (ptr\<lparr>i_ebx := i_ebx ptr, i_ecx := of_int O_RDWR\<rparr>) (k\<lparr>kdisk := d\<rparr>)
     }}}}
   }"

section \<open>Memory of processes\<close>

text \<open>One entry of a copied page table: the page it maps is copied to a new one.\<close>

definition copy_page_entry :: "u32 \<Rightarrow> nat \<Rightarrow> mem \<times> u32 \<Rightarrow> mem \<times> u32" where
  "copy_page_entry table j s =
     (let pte = table + 4 * of_nat j in
      if pt_present (load_pte (fst s) pte) = PAGE_PRESENT_TRUE then
        let (new_page, s) = alloc_page s;
            old_page = PHY_2_VIR (push_bit 12 (ucast (pt_address (load_pte (fst s) pte))));
            m = memcopy (fst s) old_page new_page PAGESIZE
        in (store_pte m pte (generate_page_table_item (load_pte m pte) (VIR_2_PHY new_page)
              PAGE_PRIVILEGE_USER), snd s)
      else s)"

definition copy_dir_entry :: "u32 \<Rightarrow> nat \<Rightarrow> mem \<times> u32 \<Rightarrow> mem \<times> u32" where
  "copy_dir_entry dir i s =
     (let pde = dir + 4 * of_nat i in
      if pd_present (load_pde (fst s) pde) = PAGE_PRESENT_TRUE then
        let (new_table, s) = alloc_page s;
            m = fill (fst s) new_table PAGESIZE 0;
            old_table = PHY_2_VIR (push_bit 12 (ucast (pd_address (load_pde m pde))));
            m = memcopy m old_table new_table PAGESIZE;
            m = store_pde m pde (generate_page_dir_item (load_pde m pde) (VIR_2_PHY new_table)
                  PAGE_PRIVILEGE_USER)
        in fold (copy_page_entry new_table) [0..<1024] (m, snd s)
      else s)"

text \<open>\<open>i\<close> is the index of the process that gets the copy.\<close>

definition copy_process_mem :: "nat \<Rightarrow> kernel \<Rightarrow> kernel" where
  "copy_process_mem i k =
     (let (dir, s) = alloc_page (pool k);
          m = fill (fst s) dir PAGESIZE 0;
          k = update_pcb i (\<lambda>p. p\<lparr>p_pagedir := dir\<rparr>) k;
          m = memcopy m (p_pagedir (current_pcb k)) dir PAGESIZE
      in set_pool (fold (copy_dir_entry dir) [0..<0x300] (m, snd s)) k)"

definition sys_fork :: "intr_context \<Rightarrow> kernel \<Rightarrow> (int \<times> kernel) option" where
  "sys_fork ptr k = do {
     (r, k) \<leftarrow> allocProcess k;
     case r of
       None \<Rightarrow> Some (-1, k)
     | Some i \<Rightarrow>
         let k = update_pcb i (\<lambda>p. p\<lparr>fdlist := fdlist (current_pcb k)\<rparr>) k;
             k = copy_process_mem i k;
             k = update_pcb i (copyContext ptr) k
         in Some (sint (pid (pcblist k ! i)), k)
   }"

definition free_table_entry :: "u32 \<Rightarrow> nat \<Rightarrow> mem \<times> u32 \<Rightarrow> mem \<times> u32" where
  "free_table_entry table j s =
     (let pte = load_pte (fst s) (table + 4 * of_nat j) in
      if pt_present pte = PAGE_PRESENT_TRUE
      then free_page (PHY_2_VIR (push_bit 12 (ucast (pt_address pte)))) s else s)"

definition free_dir_entry :: "u32 \<Rightarrow> nat \<Rightarrow> mem \<times> u32 \<Rightarrow> mem \<times> u32" where
  "free_dir_entry dir i s =
     (let pde = load_pde (fst s) (dir + 4 * of_nat i) in
      if pd_present pde = PAGE_PRESENT_TRUE
      then let table = PHY_2_VIR (push_bit 12 (ucast (pd_address pde)))
           in free_page table (fold (free_table_entry table) [0..<1024] s)
      else s)"

definition free_process_user_mem :: "kernel \<Rightarrow> kernel" where
  "free_process_user_mem k =
     set_pool (fold (free_dir_entry (p_pagedir (current_pcb k))) [0..<0x300] (pool k)) k"

text \<open>
  On success the function ends without a \<open>return\<close>: the inner option.  \<open>ptr\<close> is changed, so it is
  returned.
\<close>

definition sys_execve :: "locals \<Rightarrow> intr_context \<Rightarrow> kernel \<Rightarrow> (int option \<times> intr_context \<times> kernel) option" where
  "sys_execve lo ptr k =
     (if pid (current_pcb k) = 0 then Some (Some (-1), ptr, k)
      else do {
        path \<leftarrow> user_string (user_dir k) (kmem k) (i_ebx ptr);
        (_, n) \<leftarrow> seekFileInode (kdisk k) (l_filename lo) path;
        if i_mode n \<noteq> REGULAR_FILE then Some (Some (-1), ptr, k)
        else do {
          let k = free_process_user_mem k;
          let dir = p_pagedir (current_pcb k);
          (entry, s) \<leftarrow> loadProcess dir (kdisk k) n (pool k);
          if entry = 0 then Some (Some (-1), ptr, set_pool s k)
          else
            let (page, s) = alloc_page s;
                s = page_map dir (USER_STACK_START AND 0xfffff000) (VIR_2_PHY page) PAGE_PRIVILEGE_USER s
            in Some (None, ptr\<lparr>i_esp := USER_STACK_START, i_eip := entry\<rparr>, set_pool s k)
        }
      })"

section \<open>Waiting and exiting\<close>

text \<open>The endless loop around the scan of the table; interrupts are off.\<close>

partial_function (option) wait_loop :: "u32 \<Rightarrow> kernel \<Rightarrow> (int \<times> kernel) option" where
  "wait_loop parent k =
     (case first_index (\<lambda>p. father_pid p = parent \<and> pstate p = ZOMBIE) (pcblist k) of
        Some i \<Rightarrow>
          Some (sint (pid (pcblist k ! i)),
                update_pcb i (\<lambda>p. p\<lparr>p_pagedir := 0, pstate := FREE, father_pid := 0, pid := 0,
                                  next_vir_addr := 0\<rparr>) k)
      | None \<Rightarrow> wait_loop parent k)"

definition sys_wait :: "kernel \<Rightarrow> (int \<times> kernel) option" where
  "sys_wait k =
     (let parent = pid (current_pcb k) in
      if haveChildren parent k = 0 then Some (-1, k) else wait_loop parent k)"

text \<open>The loop over the descriptors of process \<open>i\<close>.\<close>

definition close_fd :: "nat \<Rightarrow> nat \<Rightarrow> kernel \<Rightarrow> kernel" where
  "close_fd i j k =
     (let f = fdlist (pcblist k ! i) ! j in
      if open_flag f = OPEN
      then update_pcb i (\<lambda>p. p\<lparr>fdlist := (fdlist p)[j := \<lparr>open_flag = CLOSE, ofptr = None\<rparr>]\<rparr>)
             (k\<lparr>fileList := delFile (ofptr f) (fileList k)\<rparr>)
      else k)"

text \<open>\<open>sys_exit\<close> ends in \<open>switchCtx\<close>; without a runnable process it follows an uninitialised pointer.\<close>

definition sys_exit :: "kernel \<Rightarrow> (cpu_context \<times> kernel) option" where
  "sys_exit k = do {
     i \<leftarrow> getPCB (pid (current_pcb k)) k;
     let k = set_pool (free_page (p_pagedir (pcblist k ! i)) (pool k)) k;
     let k = fold (close_fd i) [0..<FILE_MAX_InPROCESS] k;
     let k = update_pcb i (\<lambda>p. p\<lparr>pstate := ZOMBIE\<rparr>) k;
     next \<leftarrow> first_index (\<lambda>p. pstate p = RUNNABLE) (pcblist k);
     let k = k\<lparr>current_process := next, cr3 := VIR_2_PHY (p_pagedir (pcblist k ! next))\<rparr>;
     Some (p_ctx (pcblist k ! next), k)
   }"

section \<open>Lemmas\<close>

lemma wait_loop_zombie:
  assumes "wait_loop parent k = Some r"
  shows "first_index (\<lambda>p. father_pid p = parent \<and> pstate p = ZOMBIE) (pcblist k) \<noteq> None"
proof (rule wait_loop.raw_induct [OF _ assms, where P = "\<lambda>parent k r.
    first_index (\<lambda>p. father_pid p = parent \<and> pstate p = ZOMBIE) (pcblist k) \<noteq> None"])
  fix wl parent k r
  assume IH: "\<And>parent k r. wl parent k = Some r \<Longrightarrow>
      first_index (\<lambda>p. father_pid p = parent \<and> pstate p = ZOMBIE) (pcblist k) \<noteq> None"
    and body: "(case first_index (\<lambda>p. father_pid p = parent \<and> pstate p = ZOMBIE) (pcblist k) of
      Some i \<Rightarrow> Some (sint (pid (pcblist k ! i)),
        update_pcb i (\<lambda>p. p\<lparr>p_pagedir := 0, pstate := FREE, father_pid := 0, pid := 0, next_vir_addr := 0\<rparr>) k)
    | None \<Rightarrow> wl parent k) = Some r"
  then show "first_index (\<lambda>p. father_pid p = parent \<and> pstate p = ZOMBIE) (pcblist k) \<noteq> None"
    by (cases "first_index (\<lambda>p. father_pid p = parent \<and> pstate p = ZOMBIE) (pcblist k)")
       (simp_all, metis IH)
qed

lemma set_pool_simps [simp]:
  "pcblist (set_pool s k) = pcblist k" "current_process (set_pool s k) = current_process k"
  "fileList (set_pool s k) = fileList k" "nextpid (set_pool s k) = nextpid k"
  by simp_all

text \<open>Closing the descriptors of a process touches the states of none.\<close>

lemma close_fds:
  assumes "i < length (pcblist k)" and "n \<le> length (fdlist (pcblist k ! i))"
  shows "length (pcblist (fold (close_fd i) [0..<n] k)) = length (pcblist k) \<and>
    current_process (fold (close_fd i) [0..<n] k) = current_process k \<and>
    (\<forall>j < length (pcblist k). \<exists>fds. pcblist (fold (close_fd i) [0..<n] k) ! j = (pcblist k ! j)\<lparr>fdlist := fds\<rparr> \<and>
       length fds = length (fdlist (pcblist k ! j)) \<and> (j \<noteq> i \<longrightarrow> fds = fdlist (pcblist k ! j)) \<and>
       (j = i \<longrightarrow> (\<forall>m < n. open_flag (fds ! m) \<noteq> OPEN)))"
  using assms(2)
proof (induction n)
  case 0
  show ?case
    by (simp, intro allI impI, rule_tac x = "fdlist (pcblist k ! j)" in exI, simp)
next
  case (Suc n)
  let ?k = "fold (close_fd i) [0..<n] k"
  from Suc have IH: "length (pcblist ?k) = length (pcblist k)" "current_process ?k = current_process k"
    and each: "\<And>j. j < length (pcblist k) \<Longrightarrow> \<exists>fds. pcblist ?k ! j = (pcblist k ! j)\<lparr>fdlist := fds\<rparr> \<and>
       length fds = length (fdlist (pcblist k ! j)) \<and> (j \<noteq> i \<longrightarrow> fds = fdlist (pcblist k ! j)) \<and>
       (j = i \<longrightarrow> (\<forall>m < n. open_flag (fds ! m) \<noteq> OPEN))"
    by auto
  have step: "fold (close_fd i) [0..<Suc n] k = close_fd i n ?k" by simp
  show ?case
  proof (cases "open_flag (fdlist (pcblist ?k ! i) ! n) = OPEN")
    case False
    then have "close_fd i n ?k = ?k" by (simp add: close_fd_def)
    have "\<exists>fds. pcblist ?k ! j = (pcblist k ! j)\<lparr>fdlist := fds\<rparr> \<and>
       length fds = length (fdlist (pcblist k ! j)) \<and> (j \<noteq> i \<longrightarrow> fds = fdlist (pcblist k ! j)) \<and>
       (j = i \<longrightarrow> (\<forall>m < Suc n. open_flag (fds ! m) \<noteq> OPEN))" if j: "j < length (pcblist k)" for j
    proof -
      from each [OF j] obtain fds where fds: "pcblist ?k ! j = (pcblist k ! j)\<lparr>fdlist := fds\<rparr>"
        "length fds = length (fdlist (pcblist k ! j))" "j \<noteq> i \<longrightarrow> fds = fdlist (pcblist k ! j)"
        "j = i \<longrightarrow> (\<forall>m < n. open_flag (fds ! m) \<noteq> OPEN)" by blast
      moreover have "j = i \<Longrightarrow> open_flag (fds ! n) \<noteq> OPEN" using False fds(1) by simp
      ultimately show ?thesis by (intro exI [of _ fds]) (simp add: less_Suc_eq)
    qed
    with IH \<open>close_fd i n ?k = ?k\<close> show ?thesis unfolding step by simp
  next
    case True
    let ?e = "\<lparr>open_flag = CLOSE, ofptr = None\<rparr>"
    have p: "pcblist (close_fd i n ?k) = (pcblist ?k)[i := (pcblist ?k ! i)\<lparr>fdlist := (fdlist (pcblist ?k ! i))[n := ?e]\<rparr>]"
      "current_process (close_fd i n ?k) = current_process ?k"
      using True by (simp_all add: close_fd_def update_pcb_def Let_def)
    have "\<exists>fds. pcblist (close_fd i n ?k) ! j = (pcblist k ! j)\<lparr>fdlist := fds\<rparr> \<and>
       length fds = length (fdlist (pcblist k ! j)) \<and> (j \<noteq> i \<longrightarrow> fds = fdlist (pcblist k ! j)) \<and>
       (j = i \<longrightarrow> (\<forall>m < Suc n. open_flag (fds ! m) \<noteq> OPEN))" if j: "j < length (pcblist k)" for j
    proof -
      from each [OF j] obtain fds where fds: "pcblist ?k ! j = (pcblist k ! j)\<lparr>fdlist := fds\<rparr>"
        "length fds = length (fdlist (pcblist k ! j))" "j \<noteq> i \<longrightarrow> fds = fdlist (pcblist k ! j)"
        "j = i \<longrightarrow> (\<forall>m < n. open_flag (fds ! m) \<noteq> OPEN)" by blast
      show ?thesis
      proof (cases "j = i")
        case True
        with fds Suc.prems j IH(1) show ?thesis
          by (intro exI [of _ "fds[n := ?e]"]) (auto simp: p nth_list_update less_Suc_eq)
      next
        case False
        with fds show ?thesis by (intro exI [of _ fds]) (simp add: p)
      qed
    qed
    with IH show ?thesis unfolding step by (simp add: p)
  qed
qed


lemma getPCB_unique:
  assumes "i < length (pcblist k)" and "pid (pcblist k ! i) = n"
    and "\<And>j. j < length (pcblist k) \<Longrightarrow> pid (pcblist k ! j) = n \<Longrightarrow> j = i"
  shows "getPCB n k = Some i"
proof (cases "getPCB n k")
  case None
  then have "\<forall>q \<in> set (pcblist k). pid q \<noteq> n" by (simp add: getPCB_def last_index_None)
  with nth_mem [OF assms(1)] assms(2) show ?thesis by metis
next
  case (Some j)
  then have "j < length (pcblist k)" "pid (pcblist k ! j) = n"
    using last_index_SomeD [of "\<lambda>q. pid q = n" "pcblist k" j] by (simp_all add: getPCB_def)
  with assms(3) Some show ?thesis by simp
qed

lemma fold_close_fd_nextpid [simp]: "nextpid (fold (close_fd i) js k) = nextpid k"
  by (induction js arbitrary: k) (simp_all add: close_fd_def Let_def)

text \<open>The table when \<open>sys_exit\<close> has found a control block with its number and looks for the next process.\<close>

lemma sys_exit_state:
  assumes me: "z < length (pcblist k)" and g: "getPCB (pid (current_pcb k)) k = Some z"
    and fdl: "length (fdlist (pcblist k ! z)) = FILE_MAX_InPROCESS"
  shows "\<exists>k3. length (pcblist k3) = length (pcblist k) \<and> nextpid k3 = nextpid k \<and>
    (\<forall>j < length (pcblist k).
      pstate (pcblist k3 ! j) = (if j = z then ZOMBIE else pstate (pcblist k ! j)) \<and>
      pid (pcblist k3 ! j) = pid (pcblist k ! j) \<and> p_ctx (pcblist k3 ! j) = p_ctx (pcblist k ! j) \<and>
      p_pagedir (pcblist k3 ! j) = p_pagedir (pcblist k ! j) \<and>
      length (fdlist (pcblist k3 ! j)) = length (fdlist (pcblist k ! j))) \<and>
    (\<forall>m < FILE_MAX_InPROCESS. open_flag (fdlist (pcblist k3 ! z) ! m) \<noteq> OPEN) \<and>
    sys_exit k = (case first_index (\<lambda>p. pstate p = RUNNABLE) (pcblist k3) of None \<Rightarrow> None
     | Some i \<Rightarrow> Some (p_ctx (pcblist k3 ! i),
         k3\<lparr>current_process := i, cr3 := VIR_2_PHY (p_pagedir (pcblist k3 ! i))\<rparr>))"
proof -
  let ?k1 = "set_pool (free_page (p_pagedir (pcblist k ! z)) (pool k)) k"
  define k2 where "k2 = fold (close_fd z) [0..<FILE_MAX_InPROCESS] ?k1"
  define k3 where "k3 = update_pcb z (\<lambda>p. p\<lparr>pstate := ZOMBIE\<rparr>) k2"
  from close_fds [of z ?k1 FILE_MAX_InPROCESS] me fdl
  have len: "length (pcblist k2) = length (pcblist k)"
    and each: "\<And>j. j < length (pcblist k) \<Longrightarrow> \<exists>fds. pcblist k2 ! j = (pcblist k ! j)\<lparr>fdlist := fds\<rparr> \<and>
      length fds = length (fdlist (pcblist k ! j)) \<and>
      (j = z \<longrightarrow> (\<forall>m < FILE_MAX_InPROCESS. open_flag (fds ! m) \<noteq> OPEN))"
    by (simp_all del: upt_Suc upt_rec_numeral add: k2_def) blast
  have nth: "pcblist k3 ! j = (if j = z then (pcblist k2 ! z)\<lparr>pstate := ZOMBIE\<rparr> else pcblist k2 ! j)" for j
    using me by (simp add: k3_def nth_update_pcb len)
  have "sys_exit k = (case first_index (\<lambda>p. pstate p = RUNNABLE) (pcblist k3) of None \<Rightarrow> None
     | Some i \<Rightarrow> Some (p_ctx (pcblist k3 ! i),
         k3\<lparr>current_process := i, cr3 := VIR_2_PHY (p_pagedir (pcblist k3 ! i))\<rparr>))"
    unfolding k3_def k2_def
    by (simp add: sys_exit_def g Let_def del: upt_Suc upt_rec_numeral split: option.splits)
  moreover have "length (pcblist k3) = length (pcblist k)" "nextpid k3 = nextpid k"
    by (simp_all add: k3_def len) (simp add: k2_def del: upt_Suc upt_rec_numeral)
  moreover have "pstate (pcblist k3 ! j) = (if j = z then ZOMBIE else pstate (pcblist k ! j)) \<and>
      pid (pcblist k3 ! j) = pid (pcblist k ! j) \<and> p_ctx (pcblist k3 ! j) = p_ctx (pcblist k ! j) \<and>
      p_pagedir (pcblist k3 ! j) = p_pagedir (pcblist k ! j) \<and>
      length (fdlist (pcblist k3 ! j)) = length (fdlist (pcblist k ! j))" if "j < length (pcblist k)" for j
    using each [OF that] by (auto simp: nth)
  moreover have "open_flag (fdlist (pcblist k3 ! z) ! m) \<noteq> OPEN" if "m < FILE_MAX_InPROCESS" for m
    using each [OF me] that by (auto simp: nth)
  ultimately show ?thesis by blast
qed

section \<open>Properties: waiting and exiting\<close>

text \<open>
  C32: What \<open>sys_wait\<close> does in every case.  With exactly one child it fails.  Otherwise, when some child
  is a zombie it returns the number of the first one and frees its control block; when none is,
  it never returns, even for a process that has no children.
\<close>

theorem sys_wait_cases:
  "let parent = pid (current_pcb k);
       children = {i. i < length (pcblist k) \<and> father_pid (pcblist k ! i) = parent};
       zombies = {i \<in> children. pstate (pcblist k ! i) = ZOMBIE}
   in sys_wait k =
     (if card children = 1 then Some (-1, k)
      else if zombies = {} then None
      else let i = Min zombies; p = pcblist k ! i in
        Some (sint (pid p), k\<lparr>pcblist := (pcblist k)[i := p\<lparr>p_pagedir := 0, pstate := FREE, father_pid := 0,
          pid := 0, next_vir_addr := 0\<rparr>]\<rparr>))"
proof -
  let ?parent = "pid (current_pcb k)"
  let ?P = "\<lambda>p. father_pid p = ?parent \<and> pstate p = ZOMBIE"
  let ?children = "{i. i < length (pcblist k) \<and> father_pid (pcblist k ! i) = ?parent}"
  let ?zombies = "{i \<in> ?children. pstate (pcblist k ! i) = ZOMBIE}"
  have count: "haveChildren ?parent k = int (card ?children) - 1"
    by (simp add: haveChildren_eq length_filter_conv_card)
  define Z where "Z = ?zombies"
  have first: "first_index ?P (pcblist k) = (if Z = {} then None else Some (Min Z))"
    unfolding first_index_Min by (simp add: Z_def conj_assoc)
  have none: "wait_loop ?parent k = None" if "Z = {}"
    using that first wait_loop_zombie [of ?parent k] by (cases "wait_loop ?parent k") simp_all
  have some: "wait_loop ?parent k = Some (sint (pid (pcblist k ! Min Z)),
      update_pcb (Min Z) (\<lambda>p. p\<lparr>p_pagedir := 0, pstate := FREE, father_pid := 0, pid := 0,
        next_vir_addr := 0\<rparr>) k)" if "Z \<noteq> {}"
    using that first by (subst wait_loop.simps) simp
  have "sys_wait k = (if card ?children = 1 then Some (-1, k) else wait_loop ?parent k)"
    by (simp only: sys_wait_def Let_def count) simp
  then show ?thesis
    unfolding Let_def Z_def [symmetric] using none some by (simp add: update_pcb_def)
qed

text \<open>
  C33: \<open>sys_exit\<close> closes every descriptor of the calling process, makes it a zombie and switches to
  the runnable process with the lowest index, loading its context and page directory.  It does not
  set that process \<open>RUNNING\<close>: afterwards no process is, and the current one is still counted as
  runnable.  Without a runnable process it follows an uninitialised pointer.
\<close>

theorem sys_exit_leaves_none_running:
  assumes "one_running k" and "length (fdlist (current_pcb k)) = FILE_MAX_InPROCESS"
    and "\<And>j. j < length (pcblist k) \<Longrightarrow> pid (pcblist k ! j) = pid (current_pcb k) \<Longrightarrow> j = current_process k"
  shows "if runnable k = {} then sys_exit k = None
    else let i = Min (runnable k); me = current_process k in
      \<exists>k'. sys_exit k = Some (p_ctx (pcblist k ! i), k') \<and>
        current_process k' = i \<and> cr3 k' = VIR_2_PHY (p_pagedir (pcblist k ! i)) \<and>
        pstate (pcblist k' ! me) = ZOMBIE \<and>
        (\<forall>m < FILE_MAX_InPROCESS. open_flag (fdlist (pcblist k' ! me) ! m) \<noteq> OPEN) \<and>
        (\<forall>j < length (pcblist k'). pstate (pcblist k' ! j) \<noteq> RUNNING) \<and> runnable k' = runnable k"
proof -
  let ?me = "current_process k" and ?i = "Min (runnable k)"
  have me: "?me < length (pcblist k)" using assms(1) by (simp add: one_running_def)
  have run: "pstate (pcblist k ! j) = RUNNING \<longleftrightarrow> j = ?me" if "j < length (pcblist k)" for j
    using assms(1) that by (simp add: one_running_def)
  have g: "getPCB (pid (current_pcb k)) k = Some ?me" using getPCB_unique [OF me refl assms(3)] .
  from sys_exit_state [OF me g assms(2)] obtain k3 where
    len: "length (pcblist k3) = length (pcblist k)" and
    nth: "\<And>j. j < length (pcblist k) \<Longrightarrow>
      pstate (pcblist k3 ! j) = (if j = ?me then ZOMBIE else pstate (pcblist k ! j)) \<and>
      p_ctx (pcblist k3 ! j) = p_ctx (pcblist k ! j) \<and> p_pagedir (pcblist k3 ! j) = p_pagedir (pcblist k ! j)" and
    fds: "\<And>m. m < FILE_MAX_InPROCESS \<Longrightarrow> open_flag (fdlist (pcblist k3 ! ?me) ! m) \<noteq> OPEN" and
    exit: "sys_exit k = (case first_index (\<lambda>p. pstate p = RUNNABLE) (pcblist k3) of None \<Rightarrow> None
     | Some i \<Rightarrow> Some (p_ctx (pcblist k3 ! i),
         k3\<lparr>current_process := i, cr3 := VIR_2_PHY (p_pagedir (pcblist k3 ! i))\<rparr>))" by blast
  have runnable3: "runnable k3 = runnable k"
    using run [OF me] me nth by (auto simp: runnable_def len split: if_splits)
  show ?thesis
  proof (cases "runnable k = {}")
    case True
    then show ?thesis by (simp add: exit first_runnable runnable3)
  next
    case False
    have "?i \<in> runnable k" using False by (intro Min_in) (auto simp: runnable_def)
    then have i: "?i < length (pcblist k)" "?i \<noteq> ?me" using run [OF me] by (auto simp: runnable_def)
    let ?k4 = "k3\<lparr>current_process := ?i, cr3 := VIR_2_PHY (p_pagedir (pcblist k ! ?i))\<rparr>"
    have "sys_exit k = Some (p_ctx (pcblist k ! ?i), ?k4)"
      using False i nth [OF i(1)] by (simp add: exit first_runnable runnable3)
    moreover have "runnable ?k4 = runnable k" using runnable3 by (simp add: runnable_def)
    moreover have "\<forall>j < length (pcblist ?k4). pstate (pcblist ?k4 ! j) \<noteq> RUNNING"
      using run nth by (auto simp: len)
    ultimately show ?thesis
      using False fds nth [OF me] by (simp add: Let_def)
  qed
qed

definition second_running :: kernel where
  "second_running = (update_pcb 1 (\<lambda>p. p\<lparr>pstate := RUNNING\<rparr>)
     (update_pcb 0 (\<lambda>p. p\<lparr>pstate := RUNNABLE\<rparr>) demo_kernel))\<lparr>current_process := 1\<rparr>"

lemma second_running:
  "one_running second_running" "runnable second_running = {0, 2}" "current_process second_running = 1"
  "length (pcblist second_running) = 20" "pid (pcblist second_running ! j) = 1 \<Longrightarrow> j < 20 \<Longrightarrow> j = 1"
  "pid (pcblist second_running ! 1) = 1" "length (fdlist (pcblist second_running ! 1)) = 20"
proof -
  have table: "pcblist second_running = zero_pcb\<lparr>pstate := RUNNABLE, p_pagedir := 0xc0100000\<rparr>
       # zero_pcb\<lparr>pstate := RUNNING, pid := 1, p_pagedir := 0xc0200000\<rparr>
       # zero_pcb\<lparr>pstate := RUNNABLE, pid := 2, p_pagedir := 0xc0300000\<rparr> # replicate 17 zero_pcb"
    by (simp add: second_running_def demo_kernel_def update_pcb_def)
  show "current_process second_running = 1" "length (pcblist second_running) = 20"
    "pid (pcblist second_running ! 1) = 1" "length (fdlist (pcblist second_running ! 1)) = 20"
    by (simp_all add: table zero_pcb_def) (simp add: second_running_def)
  note this(1,2)
  moreover have "pstate (pcblist second_running ! i) = (if i = 1 then RUNNING else if i < 3 then RUNNABLE else FREE)"
    if "i < 20" for i
    using that by (auto simp: table zero_pcb_def nth_Cons split: nat.splits)
  ultimately show "one_running second_running" "runnable second_running = {0, 2}"
    by (auto simp: one_running_def runnable_def split: if_splits)
  show "j = 1" if "pid (pcblist second_running ! j) = 1" "j < 20"
    using that by (auto simp: table zero_pcb_def nth_Cons split: nat.splits)
qed

theorem sys_exit_leaves_none_running_witness:
  "\<exists>k'. sys_exit second_running = Some (p_ctx (pcblist second_running ! 0), k') \<and> current_process k' = 0 \<and>
     pstate (pcblist k' ! 1) = ZOMBIE \<and> runnable k' = {0, 2}"
proof -
  let ?k = second_running
  have min: "Min {0, 2 :: nat} = 0" by simp
  have "j = current_process ?k" if "j < length (pcblist ?k)" "pid (pcblist ?k ! j) = pid (current_pcb ?k)" for j
    using second_running(5) [of j] that unfolding second_running(3,4) second_running(6) by blast
  moreover have "length (fdlist (current_pcb ?k)) = FILE_MAX_InPROCESS"
    unfolding second_running(3) by (rule second_running(7))
  ultimately show ?thesis
    using sys_exit_leaves_none_running [OF second_running(1)]
    unfolding second_running(2,3) min Let_def by auto
qed

section \<open>Properties: creating processes and closing files\<close>

lemma copy_process_mem_frame:
  assumes "i < length (pcblist k)"
  shows "pcblist (copy_process_mem i k) = (pcblist k)[i := (pcblist k ! i)\<lparr>p_pagedir := free_list k\<rparr>] \<and>
    current_process (copy_process_mem i k) = current_process k \<and> fileList (copy_process_mem i k) = fileList k \<and>
    nextpid (copy_process_mem i k) = nextpid k \<and> kdisk (copy_process_mem i k) = kdisk k"
  by (simp add: copy_process_mem_def Let_def alloc_page_def [of "pool k"] update_pcb_def
      del: upt_Suc upt_rec_numeral)

text \<open>What \<open>sys_fork\<close> does after it got a control block.\<close>

lemma sys_fork_child:
  assumes "allocProcess k = Some (Some i, k1)" and "i < length (pcblist k1)"
  shows "\<exists>k'. sys_fork ptr k = Some (sint (pid (pcblist k' ! i)), k') \<and>
    pcblist k' = (pcblist k1)[i := copyContext ptr
      ((pcblist k1 ! i)\<lparr>fdlist := fdlist (current_pcb k1), p_pagedir := free_list k\<rparr>)] \<and>
    nextpid k' = nextpid k1 \<and> current_process k' = current_process k"
proof -
  note frame = allocProcess_frame [OF assms(1)]
  define k2 where "k2 = update_pcb i (\<lambda>p. p\<lparr>fdlist := fdlist (current_pcb k1)\<rparr>) k1"
  define k4 where "k4 = update_pcb i (copyContext ptr) (copy_process_mem i k2)"
  have fork: "sys_fork ptr k = Some (sint (pid (pcblist k4 ! i)), k4)"
    by (simp add: sys_fork_def assms(1) k2_def k4_def Let_def)
  have k2: "pcblist k2 = (pcblist k1)[i := (pcblist k1 ! i)\<lparr>fdlist := fdlist (current_pcb k1)\<rparr>]"
    "free_list k2 = free_list k" "nextpid k2 = nextpid k1" "current_process k2 = current_process k"
    unfolding k2_def by (simp_all add: update_pcb_def frame)
  from copy_process_mem_frame [of i k2] assms(2) have
    "pcblist (copy_process_mem i k2) = (pcblist k2)[i := (pcblist k2 ! i)\<lparr>p_pagedir := free_list k\<rparr>]"
    "nextpid (copy_process_mem i k2) = nextpid k1" "current_process (copy_process_mem i k2) = current_process k"
    by (simp_all add: k2)
  then have "pcblist k4 = (pcblist k1)[i := copyContext ptr
      ((pcblist k1 ! i)\<lparr>fdlist := fdlist (current_pcb k1), p_pagedir := free_list k\<rparr>)]"
    "nextpid k4 = nextpid k1" "current_process k4 = current_process k"
    using assms(2) by (simp_all add: k4_def k2 update_pcb_def)
  with fork show ?thesis by blast
qed

text \<open>
  C30: \<open>sys_fork\<close> takes the next number: the first one that no process has, from \<open>nextpid\<close> up to 60 and then from
  1 on.  Exactly when that is 60 it fails and leaves the process table alone, whatever smaller numbers are
  unused.  Otherwise the number is its result, and the first free control block becomes a runnable child
  of the current process with that number: it has the caller's descriptors, all user and segment
  registers of the caller's interrupt frame except that its \<open>eax\<close> is 0, and the first free page as its page
  directory; no other control block changes.
\<close>

theorem sys_fork_correct:
  assumes "length (pcblist k) = PCB_MAX" and "1 \<le> unat (nextpid k)" and "unat (nextpid k) \<le> 61"
    and "\<exists>p \<in> set (pcblist k). pstate p = FREE" and "pstate (current_pcb k) \<noteq> FREE"
  shows "\<exists>n r k'. next_number (pcblist k) (nextpid k) = Some n \<and> sys_fork ptr k = Some (r, k') \<and>
    1 \<le> unat (nextpid k') \<and> unat (nextpid k') \<le> 61 \<and>
    (if n = 60 then r = -1 \<and> pcblist k' = pcblist k
     else \<exists>i < PCB_MAX. pstate (pcblist k ! i) = FREE \<and> (\<forall>j < i. pstate (pcblist k ! j) \<noteq> FREE) \<and>
       (\<forall>j. j \<noteq> i \<longrightarrow> pcblist k' ! j = pcblist k ! j) \<and>
       (let p = pcblist k' ! i; c = p_ctx p in
        r = int n \<and> 1 \<le> n \<and> n < 60 \<and> unat (pid p) = n \<and> (\<forall>q \<in> set (pcblist k). pid q \<noteq> pid p) \<and>
        pstate p = RUNNABLE \<and> father_pid p = pid (current_pcb k) \<and>
        fdlist p = fdlist (current_pcb k) \<and> p_pagedir p = free_list k \<and>
        c_eax c = 0 \<and> c_ebx c = i_ebx ptr \<and> c_ecx c = i_ecx ptr \<and> c_edx c = i_edx ptr \<and>
        c_esi c = i_esi ptr \<and> c_edi c = i_edi ptr \<and> c_ebp c = i_ebp ptr \<and> c_esp c = i_esp ptr \<and>
        c_eip c = i_eip ptr \<and> c_eflags c = i_eflags ptr \<and> c_cs c = i_cs ptr \<and> c_ss c = i_ss ptr \<and>
        c_ds c = i_ds ptr \<and> c_es c = i_es ptr \<and> c_fs c = i_fs ptr \<and> c_gs c = i_gs ptr))"
proof -
  from allocProcess_fresh [OF assms(1-4)] obtain n r k1 where
    n: "next_number (pcblist k) (nextpid k) = Some n" "1 \<le> n" "n \<le> 60" and
    k1: "allocProcess k = Some (r, k1)" "1 \<le> unat (nextpid k1)" "unat (nextpid k1) \<le> 61"
    and r: "case r of None \<Rightarrow> n = 60 \<and> pcblist k1 = pcblist k
     | Some i \<Rightarrow> n < 60 \<and> i < PCB_MAX \<and> pstate (pcblist k ! i) = FREE \<and> (\<forall>j < i. pstate (pcblist k ! j) \<noteq> FREE) \<and>
         (let p = pcblist k1 ! i in
          pstate p = RUNNABLE \<and> father_pid p = pid (current_pcb k) \<and>
          unat (pid p) = n \<and> (\<forall>q \<in> set (pcblist k). pid q \<noteq> pid p) \<and>
          pcblist k1 = (pcblist k)[i := p])" by blast
  note frame = allocProcess_frame [OF k1(1)]
  show ?thesis
  proof (cases r)
    case None
    with k1 r n show ?thesis by (auto simp: sys_fork_def)
  next
    case (Some i)
    let ?p = "pcblist k1 ! i"
    from r Some have i: "i < PCB_MAX" "pstate (pcblist k ! i) = FREE" "\<forall>j < i. pstate (pcblist k ! j) \<noteq> FREE"
      and p: "pstate ?p = RUNNABLE" "father_pid ?p = pid (current_pcb k)" "n < 60" "unat (pid ?p) = n"
        "\<forall>q \<in> set (pcblist k). pid q \<noteq> pid ?p"
      and table: "pcblist k1 = (pcblist k)[i := ?p]" by (simp_all add: Let_def)
    have ne: "i \<noteq> current_process k" using i(2) assms(5) by auto
    have len: "i < length (pcblist k1)" using i(1) assms(1) by (subst table) simp
    have cur: "current_pcb k1 = current_pcb k" unfolding frame(1) using ne by (subst table) simp
    obtain k4 where fork: "sys_fork ptr k = Some (sint (pid (pcblist k4 ! i)), k4)" and
      k4: "pcblist k4 = (pcblist k1)[i := copyContext ptr
        (?p\<lparr>fdlist := fdlist (current_pcb k), p_pagedir := free_list k\<rparr>)]" "nextpid k4 = nextpid k1"
      using sys_fork_child [of k i k1 ptr] k1(1) Some len unfolding cur by auto
    have at_i: "pcblist k4 ! i = copyContext ptr (?p\<lparr>fdlist := fdlist (current_pcb k), p_pagedir := free_list k\<rparr>)"
      using len by (simp add: k4)
    have others: "pcblist k4 ! j = pcblist k ! j" if "j \<noteq> i" for j
      using that by (simp add: k4) (subst table, simp)
    have "unat (pid ?p) < 2 ^ 31" using p(3,4) by simp
    from sint_small [OF this] have s: "sint (pid (pcblist k4 ! i)) = int n" using p(4) by (simp add: at_i copyContext_def)
    from p(3) have ne60: "n \<noteq> 60" by simp
    show ?thesis
      unfolding fork s if_not_P [OF ne60]
      by (intro exI [of _ n] exI [of _ "int n"] exI [of _ k4] conjI refl exI [of _ i])
         (use p k1(2,3) i n others ne60 in \<open>auto simp: Let_def at_i copyContext_def k4(2)\<close>)
  qed
qed

definition zero_frame :: intr_context where
  "zero_frame = \<lparr>i_edi = 0, i_esi = 0, i_ebp = 0, i_esp_current = 0, i_ebx = 0, i_edx = 0, i_ecx = 0,
     i_eax = 0, i_gs = 0, i_fs = 0, i_es = 0, i_ds = 0, inter_no = 0, i_error_code = 0, i_eip = 0,
     i_cs = 0, i_eflags = 0, i_esp = 0, i_ss = 0\<rparr>"

text \<open>A table in which process 59 exists and \<open>nextpid\<close> is 59: the number 3 is unused, but \<open>sys_fork\<close> fails.\<close>

definition full_kernel :: kernel where
  "full_kernel = (update_pcb 2 (\<lambda>p. p\<lparr>pid := 59\<rparr>) demo_kernel)\<lparr>nextpid := 59\<rparr>"

theorem sys_fork_correct_witness:
  "(\<exists>k'. sys_fork (zero_frame\<lparr>i_eip := 0x1234, i_es := 0x23\<rparr>) demo_kernel = Some (3, k') \<and>
     pid (pcblist k' ! 3) = 3 \<and> c_eip (p_ctx (pcblist k' ! 3)) = 0x1234 \<and> c_es (p_ctx (pcblist k' ! 3)) = 0x23) \<and>
   (\<exists>k'. sys_fork zero_frame full_kernel = Some (-1, k') \<and> pcblist k' = pcblist full_kernel)"
proof
  have k: "length (pcblist demo_kernel) = PCB_MAX" "1 \<le> unat (nextpid demo_kernel)"
    "unat (nextpid demo_kernel) \<le> 61" "\<exists>p \<in> set (pcblist demo_kernel). pstate p = FREE"
    "pstate (current_pcb demo_kernel) \<noteq> FREE"
    by (simp_all add: demo_kernel_def zero_pcb_def)
  have n: "next_number (pcblist demo_kernel) (nextpid demo_kernel) = Some 3"
    by (simp add: next_number_def demo_kernel_def zero_pcb_def in_use_def upt_conv_Cons del: upt_Suc upt_rec_numeral)
  have first: "i = 3" if "i < PCB_MAX" "pstate (pcblist demo_kernel ! i) = FREE"
      "\<forall>j < i. pstate (pcblist demo_kernel ! j) \<noteq> FREE" for i
  proof (rule ccontr)
    assume "i \<noteq> 3"
    then consider "3 < i" | "i = 0" | "i = 1" | "i = 2" by linarith
    then show False using that by cases (auto simp: demo_kernel_def zero_pcb_def dest: spec [of _ 3])
  qed
  let ?f = "zero_frame\<lparr>i_eip := 0x1234, i_es := 0x23\<rparr>"
  from sys_fork_correct [OF k, of ?f] n obtain r k' i where
    "sys_fork ?f demo_kernel = Some (r, k')" "r = 3" "unat (pid (pcblist k' ! i)) = 3" and
    i: "i < PCB_MAX" "pstate (pcblist demo_kernel ! i) = FREE" "\<forall>j < i. pstate (pcblist demo_kernel ! j) \<noteq> FREE" and
    "c_eip (p_ctx (pcblist k' ! i)) = 0x1234" "c_es (p_ctx (pcblist k' ! i)) = 0x23"
    by (auto simp: Let_def)
  moreover from first [OF i] have "i = 3" .
  ultimately show "\<exists>k'. sys_fork ?f demo_kernel = Some (3, k') \<and> pid (pcblist k' ! 3) = 3 \<and>
      c_eip (p_ctx (pcblist k' ! 3)) = 0x1234 \<and> c_es (p_ctx (pcblist k' ! 3)) = 0x23"
    by (auto simp: word_unat_eq_iff)
  have f: "length (pcblist full_kernel) = PCB_MAX" "1 \<le> unat (nextpid full_kernel)"
    "unat (nextpid full_kernel) \<le> 61" "\<exists>p \<in> set (pcblist full_kernel). pstate p = FREE"
    "pstate (current_pcb full_kernel) \<noteq> FREE"
    by (simp_all add: full_kernel_def demo_kernel_def zero_pcb_def update_pcb_def)
  have "next_number (pcblist full_kernel) (nextpid full_kernel) = Some 60"
    by (simp add: next_number_def full_kernel_def demo_kernel_def zero_pcb_def update_pcb_def in_use_def upt_conv_Cons
        del: upt_Suc upt_rec_numeral)
  with sys_fork_correct [OF f, of zero_frame]
  show "\<exists>k'. sys_fork zero_frame full_kernel = Some (-1, k') \<and> pcblist k' = pcblist full_kernel" by auto
qed

text \<open>
  C34: Closing a descriptor frees its entry of the table of open files, even when another process
  has a descriptor for the same entry, as every child of \<open>sys_fork\<close> has: that descriptor stays
  marked open, but the entry is free for the next file to be opened, and until then every read
  and write through it fails.
\<close>

theorem close_shared_entry:
  assumes "m < length (fdlist (current_pcb k))" and "i_ebx ptr = of_nat m" and "m < FILE_MAX_InPROCESS"
    and "fdlist (current_pcb k) ! m = \<lparr>open_flag = OPEN, ofptr = Some e\<rparr>" and "e < length (fileList k)"
    and "other \<noteq> current_process k" and "i_ebx ptr' = of_nat n" and "3 \<le> n" and "n < FILE_MAX_InPROCESS"
    and "fdlist (pcblist k ! other) ! n = \<lparr>open_flag = OPEN, ofptr = Some e\<rparr>"
  shows "case sys_close ptr k of (r, k') \<Rightarrow>
    r = 0 \<and> closed_entry (fileList k') e \<and>
    isOpen n (fdlist (pcblist k' ! other)) = 1 \<and>
    (let k'' = k'\<lparr>current_process := other\<rparr> in
      sys_read ptr' k'' = Some (-1, k'') \<and> sys_write ptr' k'' = Some (-1, k''))"
proof -
  have m: "sint (of_nat m :: u32) = int m" "sint (of_nat n :: u32) = int n"
    using assms(3,9) by (simp_all add: sint_of_nat)
  let ?k' = "update_pcb (current_process k)
      (\<lambda>p. p\<lparr>fdlist := (fdlist p)[m := \<lparr>open_flag = CLOSE, ofptr = None\<rparr>]\<rparr>)
      (k\<lparr>fileList := delFile (Some e) (fileList k)\<rparr>)"
  have close: "sys_close ptr k = (0, ?k')"
    using assms(3,4) by (simp add: sys_close_def assms(2) m isOpen_def)
  have entry: "fileList ?k' ! e = (fileList k ! e)\<lparr>of_isopen := CLOSE, of_offset := 0, oflags := 0,
      f_inode_offset := 0, f_inode_block_no := 0\<rparr>"
    using assms(5) by (simp add: delFile_def)
  have fd: "fdlist (pcblist ?k' ! other) ! n = \<lparr>open_flag = OPEN, ofptr = Some e\<rparr>"
    using assms(6,10) by (simp add: update_pcb_def)
  have "sys_read ptr' (?k'\<lparr>current_process := other\<rparr>) = Some (-1, ?k'\<lparr>current_process := other\<rparr>)"
    using assms(8,9) entry fd
    by (simp add: sys_read_def assms(7) m isOpen_def haveAccess_def Let_def del: update_pcb_other)
  moreover have "sys_write ptr' (?k'\<lparr>current_process := other\<rparr>) = Some (-1, ?k'\<lparr>current_process := other\<rparr>)"
    using assms(8,9) entry fd
    by (simp add: sys_write_def assms(7) m isOpen_def haveAccess_def Let_def del: update_pcb_other)
  ultimately show ?thesis
    unfolding close Let_def prod.case using entry fd by (simp add: isOpen_def)
qed

definition shared_file :: kernel where
  "shared_file = demo_kernel\<lparr>
     fileList := [\<lparr>oflags = O_RDWR, of_offset = 0, f_inode_block_no = 1, f_inode_offset = 5, of_isopen = OPEN\<rparr>],
     pcblist := map (\<lambda>p. p\<lparr>fdlist := (fdlist p)[3 := \<lparr>open_flag = OPEN, ofptr = Some 0\<rparr>]\<rparr>) (pcblist demo_kernel)\<rparr>"

theorem close_shared_entry_witness:
  "case sys_close (zero_frame\<lparr>i_ebx := 3\<rparr>) shared_file of (r, k') \<Rightarrow>
     r = 0 \<and> closed_entry (fileList k') 0 \<and> isOpen 3 (fdlist (pcblist k' ! 1)) = 1"
proof -
  have f: "fdlist (pcblist shared_file ! 0) ! 3 = \<lparr>open_flag = OPEN, ofptr = Some 0\<rparr>"
    "fdlist (pcblist shared_file ! 1) ! 3 = \<lparr>open_flag = OPEN, ofptr = Some 0\<rparr>"
    "length (fdlist (pcblist shared_file ! 0)) = 20" "current_process shared_file = 0"
    "length (fileList shared_file) = 1"
    by (simp_all add: shared_file_def demo_kernel_def zero_pcb_def)
  show ?thesis
    using close_shared_entry [of 3 shared_file "zero_frame\<lparr>i_ebx := 3\<rparr>" 0 1 "zero_frame\<lparr>i_ebx := 3\<rparr>" 3] f
    by (simp add: split_def Let_def)
qed

end
