(* ===== verification/Interrupt.thy ===== *)
theory Interrupt
  imports Syscall
begin

text \<open>
  Interrupts (\<open>interrupt.c\<close>, structures from \<open>kernel.h\<close>, ports from \<open>x86.h\<close>): programming the
  interrupt controllers and the clock, the table of gates, the handlers for page faults, other
  exceptions and the clock, and the dispatcher, system calls included.  The entry code in
  \<open>interrupt_handler.s\<close> builds the frame \<open>intr_context\<close> and calls \<open>interrupt_assign\<close>; the addresses
  of its entry points are the record \<open>handlers\<close>, and what a handler leaves to it is an \<open>outcome\<close>.
\<close>

section \<open>Controllers and clock\<close>

abbreviation PIC_M1 :: u16 where "PIC_M1 \<equiv> 0x20"
abbreviation PIC_M2 :: u16 where "PIC_M2 \<equiv> 0x21"
abbreviation PIC_S1 :: u16 where "PIC_S1 \<equiv> 0xa0"
abbreviation PIC_S2 :: u16 where "PIC_S2 \<equiv> 0xa1"
abbreviation COUNTER0 :: u16 where "COUNTER0 \<equiv> 0x40"
abbreviation MODE_CONTROL :: u16 where "MODE_CONTROL \<equiv> 0x43"
abbreviation FREQUENCY :: nat where "FREQUENCY \<equiv> 1193180"
abbreviation COUNT :: nat where "COUNT \<equiv> FREQUENCY div 100"

definition init_clock :: "'d ports \<Rightarrow> 'd \<Rightarrow> 'd" where
  "init_clock io d = outs io d
     [(MODE_CONTROL, 0x34), (COUNTER0, of_nat COUNT), (COUNTER0, of_nat (COUNT div 2 ^ 8))]"

text \<open>Printing a string constant, and a number, on the state of the kernel.\<close>

definition print_k :: "string \<Rightarrow> kernel \<Rightarrow> kernel option" where
  "print_k str k = do {
     (l, s) \<leftarrow> print (video_lock k) (scr k) (cstring str);
     Some (k\<lparr>video_lock := l, scr := s\<rparr>)
   }"

definition printn_k :: "u32 \<Rightarrow> kernel \<Rightarrow> kernel option" where
  "printn_k n k = do {
     (l, s) \<leftarrow> printn (video_lock k) (scr k) n;
     Some (k\<lparr>video_lock := l, scr := s\<rparr>)
   }"

definition init_pic :: "'d ports \<Rightarrow> 'd \<Rightarrow> kernel \<Rightarrow> ('d \<times> kernel) option" where
  "init_pic io d k = do {
     k \<leftarrow> print_k ''Initial PIC!\<newline>'' k;
     let d = outs io d [(PIC_M1, 0x11), (PIC_M2, 0x20), (PIC_M2, 0x04), (PIC_M2, 0x01),
                        (PIC_S1, 0x11), (PIC_S2, 0x28), (PIC_S2, 0x02), (PIC_S2, 0x01)];
     let d = init_clock io d;
     let d = outs io d [(PIC_M2, 0xfc), (PIC_S2, 0xff)];
     k \<leftarrow> print_k ''Init_pic done!\<newline>'' k;
     Some (d, k)
   }"

section \<open>The table of gates\<close>

abbreviation IDT_ENTRIES :: nat where "IDT_ENTRIES \<equiv> 256"
abbreviation INTERRUPT_GATE_ATTRIBUTE :: u16 where "INTERRUPT_GATE_ATTRIBUTE \<equiv> 0x8e00"
abbreviation SYSCALL_INTERRUPT_GATE_ATTRIBUTE :: u16 where "SYSCALL_INTERRUPT_GATE_ATTRIBUTE \<equiv> 0xee00"
abbreviation KCODE_SELECTOR :: u16 where "KCODE_SELECTOR \<equiv> 0x08"

record gate_desc =
  offset_low :: u16
  selector :: u16
  gate_attribute :: u16
  offset_high :: u16

record idtr_structure =
  idt_size :: u16
  idt_addr_low :: u16
  idt_addr_high :: u16

record intr_tables =
  idt :: "gate_desc list"
  intr_name :: "string list"
  idtr :: idtr_structure

record handlers =
  divide_error_handler :: u32
  debug_handler :: u32
  nmi_handler :: u32
  breakpoint_handler :: u32
  overflow_handler :: u32
  bound_handler :: u32
  invalid_opcode_handler :: u32
  double_fault_handler :: u32
  invalid_tss_handler :: u32
  segment_not_present_handler :: u32
  stack_segment_handler :: u32
  general_protection_handler :: u32
  page_fault_handler :: u32
  syscall_handler :: u32
  other_exception_handler :: u32
  timer_handler :: u32
  keyboard_handler :: u32

definition make_idt_desc :: "u32 \<Rightarrow> u16 \<Rightarrow> gate_desc" where
  "make_idt_desc function attribute =
     \<lparr>offset_low = ucast (function AND 0x0000ffff), selector = KCODE_SELECTOR, gate_attribute = attribute,
      offset_high = ucast (drop_bit 16 (function AND 0xffff0000))\<rparr>"

text \<open>One assignment \<open>idt[v] = ...; intr_name[v] = ...\<close> of \<open>init_interrupt\<close>.\<close>

definition install :: "nat \<Rightarrow> u32 \<Rightarrow> u16 \<Rightarrow> string \<Rightarrow> intr_tables \<Rightarrow> intr_tables" where
  "install v function attribute name t =
     t\<lparr>idt := (idt t)[v := make_idt_desc function attribute], intr_name := (intr_name t)[v := name]\<rparr>"

text \<open>The assignments to \<open>idt\<close> and \<open>intr_name\<close>.\<close>

definition fill_gates :: "handlers \<Rightarrow> intr_tables \<Rightarrow> intr_tables" where
  "fill_gates h t =
     (let t = fold (\<lambda>i. install i (other_exception_handler h) INTERRUPT_GATE_ATTRIBUTE ''unknown'') [0..<256] t;
          t = install 0 (divide_error_handler h) INTERRUPT_GATE_ATTRIBUTE ''#DE Divide Error'' t;
          t = install 1 (debug_handler h) INTERRUPT_GATE_ATTRIBUTE ''#DB Debug'' t;
          t = install 2 (nmi_handler h) INTERRUPT_GATE_ATTRIBUTE ''NMI Interrupt'' t;
          t = install 3 (breakpoint_handler h) INTERRUPT_GATE_ATTRIBUTE ''#BP Breakpoint'' t;
          t = install 4 (overflow_handler h) INTERRUPT_GATE_ATTRIBUTE ''#OF Overflow'' t;
          t = install 5 (bound_handler h) INTERRUPT_GATE_ATTRIBUTE ''#BR Bound Range Exceeded'' t;
          t = install 6 (invalid_opcode_handler h) INTERRUPT_GATE_ATTRIBUTE
       ''#UD Invalid Opcode(Undefined Opcode)'' t;
          t = install 8 (double_fault_handler h) INTERRUPT_GATE_ATTRIBUTE ''#DF Double Fault'' t;
          t = install 10 (invalid_tss_handler h) INTERRUPT_GATE_ATTRIBUTE ''#TS Invalid TSS'' t;
          t = install 11 (segment_not_present_handler h) INTERRUPT_GATE_ATTRIBUTE ''#NP Segment Not Present'' t;
          t = install 12 (stack_segment_handler h) INTERRUPT_GATE_ATTRIBUTE ''#SS Stack Segment Fault'' t;
          t = install 13 (general_protection_handler h) INTERRUPT_GATE_ATTRIBUTE ''#GP General Protection'' t;
          t = install 14 (page_fault_handler h) INTERRUPT_GATE_ATTRIBUTE ''#PF Page Fault'' t;
          t = install 32 (timer_handler h) INTERRUPT_GATE_ATTRIBUTE ''#Timer INTERRUPT'' t;
          t = install 33 (keyboard_handler h) INTERRUPT_GATE_ATTRIBUTE ''# Keyboard Interrupt!'' t
      in install 128 (syscall_handler h) SYSCALL_INTERRUPT_GATE_ATTRIBUTE ''SYSTEM CALL'' t)"

text \<open>\<open>idt_addr\<close> is the address of the array \<open>idt\<close>.\<close>

definition init_interrupt :: "handlers \<Rightarrow> u32 \<Rightarrow> intr_tables \<Rightarrow> kernel \<Rightarrow> (intr_tables \<times> kernel) option" where
  "init_interrupt h idt_addr t k = do {
     k \<leftarrow> print_k ''Initial interrupt!\<newline>'' k;
     let t = fill_gates h t;
     let t = t\<lparr>idtr := \<lparr>idt_size = 256 * 8 - 1, idt_addr_low = ucast (idt_addr AND 0x0000ffff),
       idt_addr_high = ucast (drop_bit 16 (idt_addr AND 0xffff0000))\<rparr>\<rparr>;
     k \<leftarrow> print_k ''Init_interrupt done!\<newline>'' k;
     Some (t, k)
   }"

text \<open>The second assignment is not in an \<open>else\<close> branch.  An index behind the table is \<open>None\<close>.\<close>

definition renew_handler :: "u32 \<Rightarrow> u32 \<Rightarrow> gate_desc list \<Rightarrow> gate_desc list option" where
  "renew_handler vector function gates =
     (if IDT_ENTRIES \<le> unat vector then None
      else
        let gates = (if vector = 0x80
              then gates[unat vector := make_idt_desc function SYSCALL_INTERRUPT_GATE_ATTRIBUTE] else gates)
        in Some (gates[unat vector := make_idt_desc function INTERRUPT_GATE_ATTRIBUTE]))"

section \<open>Handlers\<close>

abbreviation tab :: string where "tab \<equiv> [CHR 0x09]"

text \<open>
  What is left to the entry code: resume, with \<open>eax\<close> set for a result of a system call (\<open>NoResult\<close>:
  the function ended without a \<open>return\<close>); load another context; or halt.
\<close>

datatype outcome = Resume | Result int | NoResult | SwitchTo cpu_context | Halted

definition do_page_fault :: "intr_context \<Rightarrow> kernel \<Rightarrow> kernel option" where
  "do_page_fault ptr k =
     (let errorcode = i_error_code ptr in
      if errorcode AND 0x00000001 \<noteq> 0 then print_k ''Other page fault!\<newline>'' k
      else do {
        k \<leftarrow> print_k ''Page is not present!\<newline>'' k;
        k \<leftarrow> print_k ''\<newline>Error Code:'' k;
        k \<leftarrow> printn_k errorcode k;
        k \<leftarrow> print_k (''\<newline>CS'' @ tab @ ''EIP'' @ tab @ ''EFLAGS\<newline>'') k;
        k \<leftarrow> printn_k (ucast (i_cs ptr)) k;
        k \<leftarrow> print_k tab k;
        k \<leftarrow> printn_k (i_eip ptr) k;
        k \<leftarrow> print_k tab k;
        printn_k (i_eflags ptr) k
      })"

text \<open>It ends in \<open>hlt\<close>.  A name behind the end of \<open>intr_name\<close> is \<open>None\<close>.\<close>

definition general_intr_handler :: "string list \<Rightarrow> intr_context \<Rightarrow> kernel \<Rightarrow> kernel option" where
  "general_intr_handler names ptr k = do {
     k \<leftarrow> print_k ''Exception Occur!\<newline>'' k;
     k \<leftarrow> print_k ''Vector NO.:'' k;
     k \<leftarrow> printn_k (inter_no ptr) k;
     k \<leftarrow> print_k ''\<newline>Exception name:'' k;
     k \<leftarrow> (if unat (inter_no ptr) < length names then print_k (names ! unat (inter_no ptr)) k else None);
     k \<leftarrow> print_k ''\<newline>Error Code:'' k;
     k \<leftarrow> printn_k (i_error_code ptr) k;
     k \<leftarrow> print_k (''\<newline>CS'' @ tab @ ''EIP'' @ tab @ ''EFLAGS\<newline>'') k;
     k \<leftarrow> printn_k (ucast (i_cs ptr)) k;
     k \<leftarrow> print_k tab k;
     k \<leftarrow> printn_k (i_eip ptr) k;
     k \<leftarrow> print_k tab k;
     printn_k (i_eflags ptr) k
   }"

definition save_context :: "intr_context \<Rightarrow> cpu_context \<Rightarrow> cpu_context" where
  "save_context ptr c = c
     \<lparr>c_eip := i_eip ptr, c_eflags := i_eflags ptr, c_edi := i_edi ptr, c_eax := i_eax ptr,
      c_ecx := i_ecx ptr, c_esp := i_esp ptr, c_nesp := i_esp_current ptr, c_ebp := i_ebp ptr,
      c_ebx := i_ebx ptr, c_edx := i_edx ptr, c_esi := i_esi ptr\<rparr>"

definition do_timer_handler :: "intr_context \<Rightarrow> kernel \<Rightarrow> (outcome \<times> kernel) option" where
  "do_timer_handler ptr k =
     (case first_index (\<lambda>p. pstate p = RUNNABLE) (pcblist k) of
        None \<Rightarrow> Some (Resume, k)
      | Some i \<Rightarrow> do {
          let last = current_process k;
          let k = k\<lparr>current_process := i\<rparr>;
          k \<leftarrow> print_k ''process:'' k;
          k \<leftarrow> printn_k (pid (current_pcb k)) k;
          let k = k\<lparr>cr3 := VIR_2_PHY (p_pagedir (pcblist k ! i))\<rparr>;
          let k = update_pcb last (\<lambda>p. p\<lparr>pstate := RUNNABLE\<rparr>) k;
          let k = update_pcb i (\<lambda>p. p\<lparr>pstate := RUNNING\<rparr>) k;
          let k = update_pcb last (\<lambda>p. p\<lparr>p_ctx := save_context ptr (p_ctx p)\<rparr>) k;
          Some (SwitchTo (p_ctx (pcblist k ! i)), k)
        })"

section \<open>Dispatch\<close>

abbreviation SYS_exit :: u32 where "SYS_exit \<equiv> 1"
abbreviation SYS_fork :: u32 where "SYS_fork \<equiv> 2"
abbreviation SYS_read :: u32 where "SYS_read \<equiv> 3"
abbreviation SYS_write :: u32 where "SYS_write \<equiv> 4"
abbreviation SYS_open :: u32 where "SYS_open \<equiv> 5"
abbreviation SYS_close :: u32 where "SYS_close \<equiv> 6"
abbreviation SYS_wait :: u32 where "SYS_wait \<equiv> 7"
abbreviation SYS_creat :: u32 where "SYS_creat \<equiv> 8"
abbreviation SYS_execve :: u32 where "SYS_execve \<equiv> 11"
abbreviation SYS_clear_screen :: u32 where "SYS_clear_screen \<equiv> 72"

text \<open>The outcome of a handler with a result, and one that keeps the frame.\<close>

abbreviation returning :: "intr_context \<Rightarrow> (int \<times> kernel) option \<Rightarrow> (outcome \<times> intr_context \<times> kernel) option" where
  "returning ptr r \<equiv> map_option (\<lambda>(n, k). (Result n, ptr, k)) r"

text \<open>
  The table of functions; a number without an entry is a call through a null pointer or behind the
  table.
\<close>

definition sys_call_table ::
  "(u32 \<times> (locals \<Rightarrow> intr_context \<Rightarrow> kernel \<Rightarrow> (outcome \<times> intr_context \<times> kernel) option)) list" where
  "sys_call_table =
     [(1, \<lambda>lo ptr k. map_option (\<lambda>(c, k). (SwitchTo c, ptr, k)) (sys_exit k)),
      (2, \<lambda>lo ptr k. returning ptr (sys_fork ptr k)),
      (3, \<lambda>lo ptr k. returning ptr (sys_read ptr k)),
      (4, \<lambda>lo ptr k. returning ptr (sys_write ptr k)),
      (5, \<lambda>lo ptr k. returning ptr (sys_open lo ptr k)),
      (6, \<lambda>lo ptr k. returning ptr (Some (sys_close ptr k))),
      (7, \<lambda>lo ptr k. returning ptr (sys_wait k)),
      (8, \<lambda>lo ptr k. returning ptr (sys_creat lo ptr k)),
      (11, \<lambda>lo ptr k. map_option (\<lambda>(r, ptr, k). (case r of Some n \<Rightarrow> Result n | None \<Rightarrow> NoResult, ptr, k))
              (sys_execve lo ptr k)),
      (72, \<lambda>lo ptr k. returning ptr (sys_clear k))]"

text \<open>\<open>scancode\<close> is the byte that the keyboard handler reads from its port.\<close>

definition interrupt_assign ::
  "string list \<Rightarrow> u8 \<Rightarrow> locals \<Rightarrow> intr_context \<Rightarrow> kernel \<Rightarrow> (outcome \<times> intr_context \<times> kernel) option" where
  "interrupt_assign names scancode lo ptr k =
     (let intr_no = inter_no ptr in
      if intr_no = 0x80 then
        (case map_of sys_call_table (i_eax ptr) of None \<Rightarrow> None | Some f \<Rightarrow> f lo ptr k)
      else if intr_no = 0x20 then
        map_option (\<lambda>(out, k). (out, ptr, k)) (do_timer_handler ptr k)
      else if intr_no = 0x21 then do {
        (b, s) \<leftarrow> do_keyboard_handler (kb k) (scr k) scancode;
        Some (Resume, ptr, k\<lparr>kb := b, scr := s\<rparr>)
      }
      else if intr_no = 14 then map_option (\<lambda>k. (Resume, ptr, k)) (do_page_fault ptr k)
      else map_option (\<lambda>k. (Halted, ptr, k)) (general_intr_handler names ptr k))"

section \<open>Lemmas: printing\<close>

lemma zero_in_cstring: "0 \<in> set (cstring str)" "0 \<in> set (num2ascii n)"
  by (simp_all add: cstring_def num2ascii_def)

lemma print_k_ends:
  "lock_value (video_lock k) = 0 \<Longrightarrow> \<exists>l s. lock_value l = 0 \<and> print_k str k = Some (k\<lparr>video_lock := l, scr := s\<rparr>)"
  using print_ends [OF _ zero_in_cstring(1) [of str], of "video_lock k" "scr k"] 
  by (auto simp: print_k_def intro!: exI [of _ "video_lock k\<lparr>lock_value := 0\<rparr>"])

lemma printn_k_ends:
  "lock_value (video_lock k) = 0 \<Longrightarrow> \<exists>l s. lock_value l = 0 \<and> printn_k n k = Some (k\<lparr>video_lock := l, scr := s\<rparr>)"
  using print_ends [OF _ zero_in_cstring(2) [of n], of "video_lock k" "scr k"]
  by (auto simp: printn_k_def printn_def intro!: exI [of _ "video_lock k\<lparr>lock_value := 0\<rparr>"])

text \<open>Code that only prints: with the video lock free it ends, and the lock is free again.\<close>

definition prints :: "(kernel \<Rightarrow> kernel option) \<Rightarrow> bool" where
  "prints f \<longleftrightarrow> (\<forall>k. lock_value (video_lock k) = 0 \<longrightarrow>
     (\<exists>l s. lock_value l = 0 \<and> f k = Some (k\<lparr>video_lock := l, scr := s\<rparr>)))"

lemma printsD:
  "prints f \<Longrightarrow> lock_value (video_lock k) = 0 \<Longrightarrow>
   \<exists>l s. lock_value l = 0 \<and> f k = Some (k\<lparr>video_lock := l, scr := s\<rparr>)"
  by (simp add: prints_def)

lemma prints_intros [intro!]:
  "prints (print_k str)" "prints (printn_k n)"
  "prints f \<Longrightarrow> prints g \<Longrightarrow> prints (\<lambda>k. f k \<bind> g)"
proof -
  show "prints (print_k str)" "prints (printn_k n)"
    using print_k_ends printn_k_ends unfolding prints_def by blast+
  assume f: "prints f" and g: "prints g"
  show "prints (\<lambda>k. f k \<bind> g)"
    unfolding prints_def
  proof (intro allI impI)
    fix k :: kernel
    assume "lock_value (video_lock k) = 0"
    from printsD [OF f this] obtain l s where
      1: "lock_value l = 0" "f k = Some (k\<lparr>video_lock := l, scr := s\<rparr>)" by blast
    with printsD [OF g, of "k\<lparr>video_lock := l, scr := s\<rparr>"]
    show "\<exists>l s. lock_value l = 0 \<and> (f k \<bind> g) = Some (k\<lparr>video_lock := l, scr := s\<rparr>)" by auto
  qed
qed

lemma prints_if [intro!]:
  "prints f \<Longrightarrow> prints g \<Longrightarrow> prints (\<lambda>k. if b then f k else g k)"
  by (simp add: prints_def)

lemma do_page_fault_prints: "prints (do_page_fault ptr)"
  unfolding do_page_fault_def Let_def by (intro prints_if prints_intros)

lemma general_intr_handler_prints:
  assumes "unat (inter_no ptr) < length names"
  shows "prints (general_intr_handler names ptr)"
  using assms unfolding general_intr_handler_def if_P [OF assms] by (intro prints_intros)

section \<open>Lemmas: the clock\<close>

text \<open>One clock interrupt that finds a runnable process, with the video lock free.\<close>

lemma do_timer_handler_switch:
  assumes "lock_value (video_lock k) = 0" and "one_running k" and "runnable k \<noteq> {}"
  shows "\<exists>k'. do_timer_handler ptr k = Some (SwitchTo (p_ctx (pcblist k ! Min (runnable k))), k') \<and>
    switches k (Min (runnable k)) k' \<and> lock_value (video_lock k') = 0 \<and>
    p_ctx (pcblist k' ! current_process k) = save_context ptr (p_ctx (current_pcb k)) \<and>
    (\<forall>j. j \<noteq> current_process k \<longrightarrow> p_ctx (pcblist k' ! j) = p_ctx (pcblist k ! j))"
proof -
  let ?i = "Min (runnable k)" and ?last = "current_process k"
  have "?i \<in> runnable k" using assms(3) by (intro Min_in) (auto simp: runnable_def)
  with assms(2) have i: "?i < length (pcblist k)" "?last < length (pcblist k)" "?i \<noteq> ?last"
    by (auto simp: runnable_def one_running_def)
  let ?k1 = "k\<lparr>current_process := ?i\<rparr>"
  from assms(1) print_k_ends [of ?k1 "''process:''"] obtain l s where
    p1: "lock_value l = 0" "print_k ''process:'' ?k1 = Some (?k1\<lparr>video_lock := l, scr := s\<rparr>)" by auto
  let ?k2 = "?k1\<lparr>video_lock := l, scr := s\<rparr>"
  from p1(1) printn_k_ends [of ?k2 "pid (current_pcb ?k2)"] obtain l' s' where
    p2: "lock_value l' = 0" "printn_k (pid (current_pcb ?k2)) ?k2 = Some (?k2\<lparr>video_lock := l', scr := s'\<rparr>)"
    by auto
  show ?thesis
    using assms(3) i p1 p2
    by (auto simp: do_timer_handler_def first_runnable Let_def switches_def nth_update_pcb update_pcb_def
        nth_list_update)
qed

text \<open>The clock keeps the scheduler's contract, whatever the interrupted programs' frames are.\<close>

interpretation timer: lowest_first "\<lambda>ptr k. map_option snd (do_timer_handler ptr k)"
  "\<lambda>k. lock_value (video_lock k) = 0"
proof
  fix k a
  assume "lock_value (video_lock k) = 0" "one_running k" "runnable k \<noteq> {}"
  from do_timer_handler_switch [OF this] show
    "\<exists>k'. map_option snd (do_timer_handler a k) = Some k' \<and> switches k (Min (runnable k)) k' \<and>
      lock_value (video_lock k') = 0" by (metis option.simps(9) snd_conv)
next
  show "runnable k = {} \<Longrightarrow> map_option snd (do_timer_handler a k) = Some k" for k a
    by (simp add: do_timer_handler_def first_runnable)
qed

section \<open>Properties: the clock\<close>

text \<open>A sequence of clock interrupts, each with the frame of the program it interrupts.\<close>

fun timer_ticks :: "intr_context list \<Rightarrow> kernel \<Rightarrow> kernel option" where
  "timer_ticks [] k = Some k"
| "timer_ticks (ptr # ptrs) k = do { (out, k) \<leftarrow> do_timer_handler ptr k; timer_ticks ptrs k }"

lemma timer_ticks_steps: "timer_ticks ptrs k = timer.steps ptrs k"
proof (induction ptrs arbitrary: k)
  case (Cons ptr ptrs)
  then show ?case by (cases "do_timer_handler ptr k") (auto simp: split_def)
qed simp

text \<open>
  C35: The clock starves every process but the first two: while the processes in blocks 0 and 1 are
  willing to run, one of them is the running process after any number of clock interrupts,
  and no other process is ever started or stopped, though exactly one process is running all the time.
\<close>

theorem timer_starvation:
  assumes "lock_value (video_lock k) = 0" and "one_running k" and "current_process k \<in> {0, 1}"
    and "{0, 1} \<subseteq> insert (current_process k) (runnable k)"
  shows "\<exists>k'. timer_ticks ptrs k = Some k' \<and> one_running k' \<and> current_process k' \<in> {0, 1} \<and>
    runnable k' - {0, 1} = runnable k - {0, 1}"
  using timer.starvation [OF assms] by (simp add: timer_ticks_steps)

theorem timer_starvation_witness:
  "\<exists>k'. timer_ticks [zero_frame, zero_frame, zero_frame] demo_kernel = Some k' \<and> current_process k' \<in> {0, 1} \<and> 2 \<in> runnable k'"
proof -
  have "lock_value (video_lock demo_kernel) = 0" by (simp add: demo_kernel_def)
  moreover have "{0, 1} \<subseteq> insert (current_process demo_kernel) (runnable demo_kernel)"
    "current_process demo_kernel \<in> {0, 1}" by (auto simp: demo_kernel_running)
  ultimately obtain k' where "timer_ticks [zero_frame, zero_frame, zero_frame] demo_kernel = Some k'" "current_process k' \<in> {0, 1}"
    "runnable k' - {0, 1} = runnable demo_kernel - {0, 1}"
    using timer_starvation [OF _ demo_kernel_running(1), of "[zero_frame, zero_frame, zero_frame]"] by blast
  moreover from this(3) have "2 \<in> runnable k'" by (auto simp: demo_kernel_running)
  ultimately show ?thesis by blast
qed

section \<open>Properties: gates\<close>

text \<open>How the processor reads a gate: address, privilege level and present bit.\<close>

definition gate_offset :: "gate_desc \<Rightarrow> u32" where
  "gate_offset g = push_bit 16 (ucast (offset_high g)) OR ucast (offset_low g)"

definition gate_dpl :: "gate_desc \<Rightarrow> nat" where
  "gate_dpl g = unat (drop_bit 13 (gate_attribute g) AND 3)"

definition gate_present :: "gate_desc \<Rightarrow> bool" where
  "gate_present g = bit (gate_attribute g) 15"

lemma halves: "push_bit 16 (ucast (ucast (drop_bit 16 (a AND 0xffff0000)) :: u16))
    OR ucast (ucast (a AND 0x0000ffff) :: u16) = (a :: u32)"
proof -
  have m: "(0x0000ffff :: u32) = mask 16" "(0xffff0000 :: u32) = push_bit 16 (mask 16)"
    by (simp_all add: mask_eq_exp_minus_1)
  show ?thesis unfolding m by (rule bit_word_eqI) (auto simp: bit_simps)
qed

lemmas halves_simp = halves [simplified]

lemma make_idt_desc_decoded:
  "gate_offset (make_idt_desc f attribute) = f" "selector (make_idt_desc f attribute) = KCODE_SELECTOR"
  "gate_dpl (make_idt_desc f INTERRUPT_GATE_ATTRIBUTE) = 0"
  "gate_dpl (make_idt_desc f SYSCALL_INTERRUPT_GATE_ATTRIBUTE) = 3"
  "gate_present (make_idt_desc f INTERRUPT_GATE_ATTRIBUTE)"
  "gate_present (make_idt_desc f SYSCALL_INTERRUPT_GATE_ATTRIBUTE)"
  by (simp_all add: make_idt_desc_def gate_offset_def gate_dpl_def gate_present_def halves_simp)

lemma install_simps [simp]:
  "length (idt (install v f a n t)) = length (idt t)"
  "length (intr_name (install v f a n t)) = length (intr_name t)"
  "v < length (idt t) \<Longrightarrow> idt (install v f a n t) ! u = (if u = v then make_idt_desc f a else idt t ! u)"
  by (simp_all add: install_def nth_list_update)

lemma install_all:
  "n \<le> length (idt t) \<Longrightarrow>
   length (idt (fold (\<lambda>i. install i f a nm) [0..<n] t)) = length (idt t) \<and>
   (\<forall>u < n. idt (fold (\<lambda>i. install i f a nm) [0..<n] t) ! u = make_idt_desc f a)"
  by (induction n) (auto simp: less_Suc_eq)

text \<open>The entry point each vector belongs to.\<close>

definition vector_handler :: "handlers \<Rightarrow> nat \<Rightarrow> u32" where
  "vector_handler h v =
     (case map_of [(0, divide_error_handler h), (1, debug_handler h), (2, nmi_handler h),
        (3, breakpoint_handler h), (4, overflow_handler h), (5, bound_handler h),
        (6, invalid_opcode_handler h), (8, double_fault_handler h), (10, invalid_tss_handler h),
        (11, segment_not_present_handler h), (12, stack_segment_handler h),
        (13, general_protection_handler h), (14, page_fault_handler h), (32, timer_handler h),
        (33, keyboard_handler h), (128, syscall_handler h)] v of
      None \<Rightarrow> other_exception_handler h | Some f \<Rightarrow> f)"

lemma fill_gates_nth:
  assumes "length (idt t) = IDT_ENTRIES" and "v < IDT_ENTRIES"
  shows "idt (fill_gates h t) ! v = make_idt_desc (vector_handler h v)
    (if v = 128 then SYSCALL_INTERRUPT_GATE_ATTRIBUTE else INTERRUPT_GATE_ATTRIBUTE)"
proof -
  define t0 where "t0 = fold (\<lambda>i. install i (other_exception_handler h) INTERRUPT_GATE_ATTRIBUTE ''unknown'') [0..<256] t"
  from install_all [of 256 t] assms have t0: "length (idt t0) = IDT_ENTRIES"
    "idt t0 ! v = make_idt_desc (other_exception_handler h) INTERRUPT_GATE_ATTRIBUTE"
    by (simp_all add: t0_def del: upt_Suc upt_rec_numeral)
  show ?thesis
    unfolding fill_gates_def t0_def [symmetric] Let_def
    by (simp add: t0 vector_handler_def del: numeral_eq_Suc)
qed

text \<open>
  C37: With the video lock free, \<open>init_interrupt\<close> fills all 256 gates: each is present and leads to the
  entry point of its vector in the kernel's code segment, and only the gate of the system call can
  be entered from user mode.  The register \<open>idtr\<close> is loaded with the table's address and limit.
\<close>

theorem init_interrupt_gates:
  assumes "lock_value (video_lock k) = 0" and "length (idt t) = IDT_ENTRIES"
  shows "\<exists>t' k'. init_interrupt h idt_addr t k = Some (t', k') \<and> lock_value (video_lock k') = 0 \<and>
    (\<forall>v < IDT_ENTRIES. let g = idt t' ! v in
       gate_offset g = vector_handler h v \<and> selector g = KCODE_SELECTOR \<and> gate_present g \<and>
       gate_dpl g = (if v = 128 then 3 else 0)) \<and>
    unat (idt_size (idtr t')) + 1 = IDT_ENTRIES * 8 \<and>
    push_bit 16 (ucast (idt_addr_high (idtr t'))) OR ucast (idt_addr_low (idtr t')) = idt_addr"
proof -
  from print_k_ends [OF assms(1), of "''Initial interrupt!\<newline>''"] obtain l1 s1 where
    p1: "lock_value l1 = 0" "print_k ''Initial interrupt!\<newline>'' k = Some (k\<lparr>video_lock := l1, scr := s1\<rparr>)" by blast
  let ?k1 = "k\<lparr>video_lock := l1, scr := s1\<rparr>"
  from p1(1) print_k_ends [of ?k1 "''Init_interrupt done!\<newline>''"] obtain l2 s2 where
    p2: "lock_value l2 = 0" "print_k ''Init_interrupt done!\<newline>'' ?k1 = Some (?k1\<lparr>video_lock := l2, scr := s2\<rparr>)"
    by auto
  let ?t' = "(fill_gates h t)\<lparr>idtr := \<lparr>idt_size = 256 * 8 - 1, idt_addr_low = ucast (idt_addr AND 0x0000ffff),
       idt_addr_high = ucast (drop_bit 16 (idt_addr AND 0xffff0000))\<rparr>\<rparr>"
  have "init_interrupt h idt_addr t k = Some (?t', ?k1\<lparr>video_lock := l2, scr := s2\<rparr>)"
    using p1 p2 by (simp add: init_interrupt_def Let_def)
  then show ?thesis
    using p2(1) fill_gates_nth [OF assms(2)]
    by (intro exI [of _ ?t'] exI [of _ "?k1\<lparr>video_lock := l2, scr := s2\<rparr>"])
       (auto simp: Let_def make_idt_desc_decoded halves_simp)
qed

definition demo_handlers :: handlers where
  "demo_handlers = \<lparr>divide_error_handler = 0xc0011000, debug_handler = 0xc0011010, nmi_handler = 0xc0011020,
     breakpoint_handler = 0xc0011030, overflow_handler = 0xc0011040, bound_handler = 0xc0011050,
     invalid_opcode_handler = 0xc0011060, double_fault_handler = 0xc0011080, invalid_tss_handler = 0xc00110a0,
     segment_not_present_handler = 0xc00110b0, stack_segment_handler = 0xc00110c0,
     general_protection_handler = 0xc00110d0, page_fault_handler = 0xc0011160, syscall_handler = 0xc0011180,
     other_exception_handler = 0xc00111f0, timer_handler = 0xc0011120, keyboard_handler = 0xc0011130\<rparr>"

theorem init_interrupt_gates_witness:
  "\<exists>t' k'. init_interrupt demo_handlers 0xc0012345 \<lparr>idt = replicate 256 (make_idt_desc 0 0), intr_name = replicate 256 [], idtr = \<lparr>idt_size = 0, idt_addr_low = 0, idt_addr_high = 0\<rparr>\<rparr> demo_kernel
     = Some (t', k') \<and> gate_offset (idt t' ! 14) = 0xc0011160 \<and> gate_dpl (idt t' ! 128) = 3 \<and>
     gate_offset (idt t' ! 200) = 0xc00111f0"
proof -
  let ?t = "\<lparr>idt = replicate 256 (make_idt_desc 0 0), intr_name = replicate 256 [], idtr = \<lparr>idt_size = 0, idt_addr_low = 0, idt_addr_high = 0\<rparr>\<rparr>"
  have "lock_value (video_lock demo_kernel) = 0" "length (idt ?t) = IDT_ENTRIES"
    by (simp_all add: demo_kernel_def)
  from init_interrupt_gates [OF this, of demo_handlers "0xc0012345"] obtain t' k' where
    t': "init_interrupt demo_handlers 0xc0012345 ?t demo_kernel = Some (t', k')"
    "\<And>v. v < IDT_ENTRIES \<Longrightarrow> gate_offset (idt t' ! v) = vector_handler demo_handlers v \<and>
       gate_dpl (idt t' ! v) = (if v = 128 then 3 else 0)"
    by (auto simp: Let_def)
  with t'(2) [of 14] t'(2) [of 128] t'(2) [of 200] show ?thesis by (auto simp: vector_handler_def demo_handlers_def)
qed

text \<open>
  \<open>renew_handler\<close> changes the entry point of the given vector only, but every gate it writes is
  closed to user mode: for the system call's vector its second assignment, which is not in an \<open>else\<close>
  branch, undoes the first, so programs can make no system call afterwards.
\<close>

theorem renew_handler_closes_gate:
  assumes "length gates = IDT_ENTRIES" and "unat vector < IDT_ENTRIES"
  shows "\<exists>gates'. renew_handler vector function gates = Some gates' \<and>
    gate_offset (gates' ! unat vector) = function \<and> gate_present (gates' ! unat vector) \<and>
    gate_dpl (gates' ! unat vector) = 0 \<and> (\<forall>v. v \<noteq> unat vector \<longrightarrow> gates' ! v = gates ! v)"
  using assms by (simp add: renew_handler_def make_idt_desc_decoded Let_def)

theorem renew_handler_closes_gate_witness:
  "\<exists>gates'. renew_handler 0x80 0xc0010000 (replicate 256 (make_idt_desc 0 0)) = Some gates' \<and> gate_dpl (gates' ! 128) = 0 \<and>
     gates' ! 127 = make_idt_desc 0 0"
proof -
  have "unat (0x80 :: u32) = 128" by simp
  with renew_handler_closes_gate [of "replicate 256 (make_idt_desc 0 0)" "0x80" "0xc0010000"] show ?thesis by auto
qed

text \<open>
  A vector without an entry of its own leads to \<open>other_exception_handler\<close>, which pushes the number
  257; the handler of such an exception then reads the name at index 257 of the 256 names, instead
  of printing \<open>unknown\<close>.  An exception with a name is reported and the processor halts.
\<close>

theorem exception_names:
  assumes "length names = IDT_ENTRIES" and "lock_value (video_lock k) = 0"
    and "inter_no ptr \<notin> {0x80, 0x20, 0x21, 14}"
  shows "if unat (inter_no ptr) < IDT_ENTRIES
    then \<exists>l s. interrupt_assign names scancode lo ptr k = Some (Halted, ptr, k\<lparr>video_lock := l, scr := s\<rparr>) \<and>
      lock_value l = 0
    else interrupt_assign names scancode lo ptr k = None"
proof -
  have dispatch: "interrupt_assign names scancode lo ptr k =
      map_option (\<lambda>k. (Halted, ptr, k)) (general_intr_handler names ptr k)"
    using assms(3) by (simp add: interrupt_assign_def)
  show ?thesis
  proof (cases "unat (inter_no ptr) < IDT_ENTRIES")
    case True
    with general_intr_handler_prints [of ptr names] assms(1) have "prints (general_intr_handler names ptr)" by simp
    from printsD [OF this assms(2)] True show ?thesis by (auto simp: dispatch)
  next
    case False
    then show ?thesis using assms(1) by (simp add: dispatch general_intr_handler_def)
  qed
qed

theorem exception_names_witness:
  "(\<exists>l s. interrupt_assign (replicate 256 []) 0 lo (ptr\<lparr>inter_no := 13\<rparr>) demo_kernel
      = Some (Halted, ptr\<lparr>inter_no := 13\<rparr>, demo_kernel\<lparr>video_lock := l, scr := s\<rparr>)) \<and>
   interrupt_assign (replicate 256 []) 0 lo (ptr\<lparr>inter_no := 257\<rparr>) demo_kernel = None"
proof -
  have "lock_value (video_lock demo_kernel) = 0" by (simp add: demo_kernel_def)
  then show ?thesis
    using exception_names [of "replicate 256 []" demo_kernel "ptr\<lparr>inter_no := 13\<rparr>" 0 lo]
      exception_names [of "replicate 256 []" demo_kernel "ptr\<lparr>inter_no := 257\<rparr>" 0 lo]
    by auto
qed

end
