(* ===== verification/TableMachine.thy ===== *)
theory TableMachine
  imports Interrupt
begin

text \<open>
  The kernel as a state machine: every entry into it is one interrupt, handled by
  \<open>interrupt_assign\<close> (\<open>kernel_step\<close>, \<open>reachable\<close>).  What an interrupt does to the process table is one of
  five steps of a smaller machine (\<open>table_step\<close>); the invariants of the table are proved over these steps,
  and every interrupt is shown to be one.
\<close>

section \<open>Steps\<close>

text \<open>One interrupt, with the frame that the entry code builds.\<close>

inductive kernel_step :: "intr_context \<Rightarrow> kernel \<Rightarrow> kernel \<Rightarrow> bool" where
  interrupt: "interrupt_assign names scancode lo ptr k = Some (out, ptr', k') \<Longrightarrow> kernel_step ptr k k'"

text \<open>A call of \<open>_exit\<close> by a process with number 0: the first process, which \<open>main\<close> becomes.\<close>

definition exit_by_first :: "intr_context \<Rightarrow> kernel \<Rightarrow> bool" where
  "exit_by_first ptr k \<longleftrightarrow> inter_no ptr = 0x80 \<and> i_eax ptr = SYS_exit \<and> pid (current_pcb k) = 0"

text \<open>Any sequence of interrupts; the flag records whether there was such a call among them.\<close>

inductive reachable :: "kernel \<Rightarrow> bool \<Rightarrow> kernel \<Rightarrow> bool" for k0 where
  start: "reachable k0 False k0"
| step: "reachable k0 e k \<Longrightarrow> kernel_step ptr k k' \<Longrightarrow> reachable k0 (e \<or> exit_by_first ptr k) k'"

inductive_cases kernel_stepE: "kernel_step ptr k k'"

text \<open>What every interrupt keeps, but for the calls above, holds as long as there was none.\<close>

locale quiet_invariant =
  fixes I :: "kernel \<Rightarrow> bool"
  assumes quiet_keeps: "kernel_step ptr k k' \<Longrightarrow> \<not> exit_by_first ptr k \<Longrightarrow> I k \<Longrightarrow> I k'"
begin

lemma quiet_reachable: "reachable k0 e k \<Longrightarrow> \<not> e \<Longrightarrow> I k0 \<Longrightarrow> I k"
  by (induction rule: reachable.induct) (auto intro: quiet_keeps)

end

text \<open>What every interrupt keeps holds in every reachable state.\<close>

locale step_invariant =
  fixes I :: "kernel \<Rightarrow> bool"
  assumes step_keeps: "kernel_step ptr k k' \<Longrightarrow> I k \<Longrightarrow> I k'"
begin

lemma reachable_keeps: "reachable k0 e k \<Longrightarrow> I k0 \<Longrightarrow> I k"
  by (induction rule: reachable.induct) (auto intro: step_keeps)

end

sublocale step_invariant \<subseteq> quiet_invariant
  by unfold_locales (rule step_keeps)

section \<open>Frame lemmas: operations that leave the process table alone\<close>

text \<open>Operations that leave numbers, states and contexts alone.\<close>

definition same_table :: "kernel \<Rightarrow> kernel \<Rightarrow> bool" where
  "same_table k k' \<longleftrightarrow>
     length (pcblist k') = length (pcblist k) \<and> current_process k' = current_process k \<and>
     nextpid k' = nextpid k \<and>
     (\<forall>i. pstate (pcblist k' ! i) = pstate (pcblist k ! i) \<and> pid (pcblist k' ! i) = pid (pcblist k ! i) \<and>
       p_ctx (pcblist k' ! i) = p_ctx (pcblist k ! i) \<and> length (fdlist (pcblist k' ! i)) = length (fdlist (pcblist k ! i)))"

lemma same_table_refl [simp]: "same_table k k"
  by (simp add: same_table_def)

lemma same_table_trans: "same_table k k' \<Longrightarrow> same_table k' k'' \<Longrightarrow> same_table k k''"
  by (simp add: same_table_def)

lemma same_table_eq:
  "pcblist k' = pcblist k \<Longrightarrow> current_process k' = current_process k \<Longrightarrow> nextpid k' = nextpid k \<Longrightarrow>
   same_table k k'"
  by (simp add: same_table_def)

lemma same_table_fdlist:
  assumes "i < length (pcblist k)"
  shows "same_table k (update_pcb i (\<lambda>p. p\<lparr>fdlist := (fdlist p)[n := e]\<rparr>) k)"
  using assms by (auto simp: same_table_def nth_update_pcb)

lemma print_k_same:
  "print_k str k = Some k' \<Longrightarrow> same_table k k'" "printn_k n k = Some k' \<Longrightarrow> same_table k k'"
  by (auto simp: print_k_def printn_k_def split: bind_splits prod.splits intro: same_table_eq)

definition keeps_table :: "(kernel \<Rightarrow> kernel option) \<Rightarrow> bool" where
  "keeps_table f \<longleftrightarrow> (\<forall>k k'. f k = Some k' \<longrightarrow> same_table k k')"

lemma keeps_tableD: "keeps_table f \<Longrightarrow> f k = Some k' \<Longrightarrow> same_table k k'"
  by (simp add: keeps_table_def)

lemma keeps_table_intros:
  "keeps_table (print_k str)" "keeps_table (printn_k n)" "keeps_table (\<lambda>k. None)"
  "keeps_table f \<Longrightarrow> keeps_table g \<Longrightarrow> keeps_table (\<lambda>k. f k \<bind> g)"
  "keeps_table f \<Longrightarrow> keeps_table g \<Longrightarrow> keeps_table (\<lambda>k. if b then f k else g k)"
  unfolding keeps_table_def
  by (auto split: bind_splits dest: print_k_same) (blast intro: same_table_trans)

lemma do_page_fault_same: "keeps_table (do_page_fault ptr)"
  unfolding do_page_fault_def Let_def by (intro keeps_table_intros)

lemma general_intr_handler_same: "keeps_table (general_intr_handler names ptr)"
  unfolding general_intr_handler_def by (intro keeps_table_intros)

section \<open>Frame lemmas\<close>

text \<open>What holds of the result of a partial operation, if there is one, by the operation's structure.\<close>

definition on_result :: "('a \<Rightarrow> bool) \<Rightarrow> 'a option \<Rightarrow> bool" where
  "on_result P x \<longleftrightarrow> (\<forall>v. x = Some v \<longrightarrow> P v)"

lemma on_resultD: "on_result P x \<Longrightarrow> x = Some v \<Longrightarrow> P v"
  by (simp add: on_result_def)

lemma on_result_intros:
  "on_result P None"
  "P v \<Longrightarrow> on_result P (Some v)"
  "(\<And>v. x = Some v \<Longrightarrow> on_result P (f v)) \<Longrightarrow> on_result P (x \<bind> f)"
  "(b \<Longrightarrow> on_result P y) \<Longrightarrow> (\<not> b \<Longrightarrow> on_result P z) \<Longrightarrow> on_result P (if b then y else z)"
  "(\<And>a c. p = (a, c) \<Longrightarrow> on_result P (g a c)) \<Longrightarrow> on_result P (case p of (a, c) \<Rightarrow> g a c)"
  "(o' = None \<Longrightarrow> on_result P y) \<Longrightarrow> (\<And>a. o' = Some a \<Longrightarrow> on_result P (h a)) \<Longrightarrow>
   on_result P (case o' of None \<Rightarrow> y | Some a \<Rightarrow> h a)"
  by (auto simp: on_result_def split: bind_splits option.splits prod.splits)

abbreviation result_same :: "kernel \<Rightarrow> (int \<times> kernel) option \<Rightarrow> bool" where
  "result_same k \<equiv> on_result (\<lambda>(r, k'). same_table k k')"

lemma sys_clear_same: "result_same k (sys_clear k)"
  unfolding sys_clear_def Let_def
  by (intro on_result_intros) (simp_all add: same_table_def)

lemma sys_write_same: "result_same k (sys_write ptr k)"
  unfolding sys_write_def Let_def
  by (intro on_result_intros) (simp_all add: same_table_def)

lemma sys_read_same: "result_same k (sys_read ptr k)"
  unfolding sys_read_def Let_def
  by (intro on_result_intros) (simp_all add: same_table_def)

lemma sys_open_same: "current_process k < length (pcblist k) \<Longrightarrow> result_same k (sys_open lo ptr k)"
  unfolding sys_open_def Let_def
  by (intro on_result_intros) (simp_all add: same_table_def nth_update_pcb)

lemma sys_close_same: "current_process k < length (pcblist k) \<Longrightarrow> result_same k (Some (sys_close ptr k))"
  by (simp add: sys_close_def Let_def on_result_def same_table_def nth_update_pcb)

lemma sys_creat_same:
  assumes "current_process k < length (pcblist k)"
  shows "result_same k (sys_creat lo ptr k)"
proof -
  have "result_same k (sys_open lo p (k\<lparr>kdisk := d\<rparr>))" for p d
    using sys_open_same [of "k\<lparr>kdisk := d\<rparr>" lo p] assms by (auto simp: on_result_def same_table_def)
  then show ?thesis
    unfolding sys_creat_def Let_def
    by (intro on_result_intros) (simp_all add: same_table_def)
qed

lemma sys_execve_same: "on_result (\<lambda>(r, p, k'). same_table k k') (sys_execve lo ptr k)"
  unfolding sys_execve_def free_process_user_mem_def Let_def
  by (intro on_result_intros) (simp_all add: same_table_def del: upt_Suc upt_rec_numeral)

section \<open>The process table as a machine of its own\<close>

abbreviation state_of :: "kernel \<Rightarrow> nat \<Rightarrow> run_state" where "state_of k j \<equiv> pstate (pcblist k ! j)"
abbreviation number_of :: "kernel \<Rightarrow> nat \<Rightarrow> u32" where "number_of k j \<equiv> pid (pcblist k ! j)"
abbreviation context_of :: "kernel \<Rightarrow> nat \<Rightarrow> cpu_context" where "context_of k j \<equiv> p_ctx (pcblist k ! j)"

definition shape :: "kernel \<Rightarrow> bool" where
  "shape k \<longleftrightarrow> length (pcblist k) = PCB_MAX \<and> current_process k < PCB_MAX \<and>
     1 \<le> unat (nextpid k) \<and> unat (nextpid k) \<le> 61 \<and>
     (\<forall>i < PCB_MAX. length (fdlist (pcblist k ! i)) = FILE_MAX_InPROCESS)"

definition segments :: "cpu_context \<Rightarrow> u16 list" where
  "segments c = [c_cs c, c_ss c, c_ds c, c_es c, c_fs c, c_gs c]"

text \<open>
  What an interrupt can do to the process table: nothing, let the clock switch to block \<open>i\<close>, turn a free
  block \<open>i\<close> into a child, free a zombie \<open>i\<close>, or make a zombie of the last block \<open>z\<close> that has the number of
  the current process and switch to \<open>i\<close>.  The flag is raised when that number is 0.
\<close>

inductive table_step :: "bool \<Rightarrow> kernel \<Rightarrow> kernel \<Rightarrow> bool" for e k k' where
  stay: "shape k' \<Longrightarrow> current_process k' = current_process k \<Longrightarrow>
    \<forall>j < PCB_MAX. state_of k' j = state_of k j \<and> number_of k' j = number_of k j \<and> context_of k' j = context_of k j \<Longrightarrow>
    table_step e k k'"
| switch: "shape k' \<Longrightarrow> current_process k' = i \<Longrightarrow> state_of k i = RUNNABLE \<Longrightarrow>
    \<forall>j < PCB_MAX. state_of k' j = (if j = i then RUNNING else if j = current_process k then RUNNABLE else state_of k j) \<and>
      number_of k' j = number_of k j \<and> segments (context_of k' j) = segments (context_of k j) \<and>
      (j \<noteq> current_process k \<longrightarrow> context_of k' j = context_of k j) \<Longrightarrow>
    table_step e k k'"
| child: "shape k' \<Longrightarrow> current_process k' = current_process k \<Longrightarrow> i < PCB_MAX \<Longrightarrow>
    state_of k i = FREE \<Longrightarrow> state_of k' i = RUNNABLE \<Longrightarrow> number_of k' i \<noteq> 0 \<Longrightarrow>
    \<forall>j < PCB_MAX. number_of k j \<noteq> number_of k' i \<Longrightarrow> \<forall>j. j \<noteq> i \<longrightarrow> pcblist k' ! j = pcblist k ! j \<Longrightarrow>
    table_step e k k'"
| reap: "shape k' \<Longrightarrow> current_process k' = current_process k \<Longrightarrow> state_of k i = ZOMBIE \<Longrightarrow>
    \<forall>j < PCB_MAX. state_of k' j = (if j = i then FREE else state_of k j) \<and>
      number_of k' j = (if j = i then 0 else number_of k j) \<and> context_of k' j = context_of k j \<Longrightarrow>
    table_step e k k'"
| quit: "shape k' \<Longrightarrow> getPCB (pid (current_pcb k)) k = Some z \<Longrightarrow> (pid (current_pcb k) = 0 \<Longrightarrow> e) \<Longrightarrow>
    state_of k' (current_process k') = RUNNABLE \<Longrightarrow>
    \<forall>j < PCB_MAX. state_of k' j = (if j = z then ZOMBIE else state_of k j) \<and>
      number_of k' j = number_of k j \<and> context_of k' j = context_of k j \<Longrightarrow>
    table_step e k k'"

text \<open>
  What always holds: processes in use have distinct numbers, except for the number 0, which free blocks
  have; only the current process, or one with the number 0, is marked as running; the current process
  is one that is running or willing to.
\<close>

definition table_ok :: "kernel \<Rightarrow> bool" where
  "table_ok k \<longleftrightarrow> shape k \<and> state_of k (current_process k) \<in> {RUNNING, RUNNABLE} \<and>
     (\<forall>i < PCB_MAX. state_of k i = RUNNING \<longrightarrow> i = current_process k \<or> number_of k i = 0) \<and>
     (\<forall>i < PCB_MAX. state_of k i = FREE \<longrightarrow> number_of k i = 0) \<and>
     (\<forall>i < PCB_MAX. \<forall>j < PCB_MAX. number_of k i \<noteq> 0 \<longrightarrow> number_of k i = number_of k j \<longrightarrow> i = j)"

text \<open>
  What holds until the first process calls \<open>_exit\<close>: at most one process is running, and only the current
  one; processes in use have distinct numbers, and free blocks have the number 0.
\<close>

definition table_inv :: "kernel \<Rightarrow> bool" where
  "table_inv k \<longleftrightarrow>
     length (pcblist k) = PCB_MAX \<and> current_process k < PCB_MAX \<and>
     1 \<le> unat (nextpid k) \<and> unat (nextpid k) \<le> 61 \<and>
     pstate (current_pcb k) \<in> {RUNNING, RUNNABLE} \<and>
     (\<forall>i < PCB_MAX. length (fdlist (pcblist k ! i)) = FILE_MAX_InPROCESS) \<and>
     (\<forall>i < PCB_MAX. pstate (pcblist k ! i) = RUNNING \<longrightarrow> i = current_process k) \<and>
     (\<forall>i < PCB_MAX. pstate (pcblist k ! i) = FREE \<longrightarrow> pid (pcblist k ! i) = 0) \<and>
     (\<forall>i < PCB_MAX. \<forall>j < PCB_MAX. pstate (pcblist k ! i) \<noteq> FREE \<longrightarrow> pstate (pcblist k ! j) \<noteq> FREE \<longrightarrow>
        pid (pcblist k ! i) = pid (pcblist k ! j) \<longrightarrow> i = j)"

lemma table_okD:
  assumes "table_ok k"
  shows "shape k" "state_of k (current_process k) = RUNNING \<or> state_of k (current_process k) = RUNNABLE"
    "\<And>i. i < PCB_MAX \<Longrightarrow> state_of k i = RUNNING \<Longrightarrow> i = current_process k \<or> number_of k i = 0"
    "\<And>i. i < PCB_MAX \<Longrightarrow> state_of k i = FREE \<Longrightarrow> number_of k i = 0"
    "\<And>i j. i < PCB_MAX \<Longrightarrow> j < PCB_MAX \<Longrightarrow> number_of k i \<noteq> 0 \<Longrightarrow> number_of k i = number_of k j \<Longrightarrow> i = j"
  using assms unfolding table_ok_def by blast+

lemma table_okI:
  assumes "shape k" "state_of k (current_process k) = RUNNING \<or> state_of k (current_process k) = RUNNABLE"
    "\<And>i. i < PCB_MAX \<Longrightarrow> state_of k i = RUNNING \<Longrightarrow> i = current_process k \<or> number_of k i = 0"
    "\<And>i. i < PCB_MAX \<Longrightarrow> state_of k i = FREE \<Longrightarrow> number_of k i = 0"
    "\<And>i j. i < PCB_MAX \<Longrightarrow> j < PCB_MAX \<Longrightarrow> number_of k i \<noteq> 0 \<Longrightarrow> number_of k i = number_of k j \<Longrightarrow> i = j"
  shows "table_ok k"
  using assms unfolding table_ok_def by blast

lemma shapeD:
  assumes "shape k"
  shows "length (pcblist k) = PCB_MAX" "current_process k < PCB_MAX" "1 \<le> unat (nextpid k)" "unat (nextpid k) \<le> 61"
    "\<And>i. i < PCB_MAX \<Longrightarrow> length (fdlist (pcblist k ! i)) = FILE_MAX_InPROCESS"
  using assms unfolding shape_def by blast+

lemma table_invD:
  assumes "table_inv k"
  shows "shape k" "state_of k (current_process k) = RUNNING \<or> state_of k (current_process k) = RUNNABLE"
    "\<And>i. i < PCB_MAX \<Longrightarrow> state_of k i = RUNNING \<Longrightarrow> i = current_process k"
    "\<And>i. i < PCB_MAX \<Longrightarrow> state_of k i = FREE \<Longrightarrow> number_of k i = 0"
    "\<And>i j. i < PCB_MAX \<Longrightarrow> j < PCB_MAX \<Longrightarrow> state_of k i \<noteq> FREE \<Longrightarrow> state_of k j \<noteq> FREE \<Longrightarrow>
       number_of k i = number_of k j \<Longrightarrow> i = j"
  using assms unfolding table_inv_def shape_def by blast+

lemma table_invI:
  assumes "shape k" "state_of k (current_process k) = RUNNING \<or> state_of k (current_process k) = RUNNABLE"
    "\<And>i. i < PCB_MAX \<Longrightarrow> state_of k i = RUNNING \<Longrightarrow> i = current_process k"
    "\<And>i. i < PCB_MAX \<Longrightarrow> state_of k i = FREE \<Longrightarrow> number_of k i = 0"
    "\<And>i j. i < PCB_MAX \<Longrightarrow> j < PCB_MAX \<Longrightarrow> state_of k i \<noteq> FREE \<Longrightarrow> state_of k j \<noteq> FREE \<Longrightarrow>
       number_of k i = number_of k j \<Longrightarrow> i = j"
  shows "table_inv k"
  using assms unfolding table_inv_def shape_def by blast

lemma table_inv_ok: "table_inv k \<Longrightarrow> table_ok k"
  by (rule table_okI) (auto dest: table_invD, metis table_invD(4,5))

text \<open>The block that \<open>sys_exit\<close> finds.\<close>

lemma getPCB_SomeD: "getPCB n k = Some z \<Longrightarrow> z < length (pcblist k) \<and> number_of k z = n"
  using last_index_SomeD [of "\<lambda>q. pid q = n" "pcblist k" z] by (simp add: getPCB_def)

lemma quit_self:
  assumes "table_ok k" and "getPCB (pid (current_pcb k)) k = Some z" and "pid (current_pcb k) \<noteq> 0"
  shows "z = current_process k"
  using getPCB_SomeD [OF assms(2)] table_okD(5) [OF assms(1), of z "current_process k"] assms(3)
    shapeD(1,2) [OF table_okD(1) [OF assms(1)]] by auto

text \<open>The two invariants of the machine.\<close>

lemma table_step_ok:
  assumes "table_step e k k'" and ok: "table_ok k"
  shows "table_ok k'"
  using assms(1)
proof cases
  case stay
  then show ?thesis
    using table_okD [OF ok] shapeD(2) [OF stay(1)] by (intro table_okI) auto
next
  case (switch i)
  note k = table_okD [OF ok] and st = switch(4) [rule_format]
  note cur = shapeD(2) [OF k(1)] and cur' = shapeD(2) [OF switch(1)]
  show ?thesis
  proof (rule table_okI)
    show "j = current_process k' \<or> number_of k' j = 0" if "j < PCB_MAX" "state_of k' j = RUNNING" for j
      using that st [of j] k(3) [of j] switch(2) by (auto split: if_splits)
    show "number_of k' j = 0" if "j < PCB_MAX" "state_of k' j = FREE" for j
      using that st [of j] k(4) [of j] by (auto split: if_splits)
    show "x = y" if "x < PCB_MAX" "y < PCB_MAX" "number_of k' x \<noteq> 0" "number_of k' x = number_of k' y" for x y
      using that st [of x] st [of y] k(5) [of x y] by auto
  qed (use switch cur' st [of i] in auto)
next
  case (child i)
  note k = table_okD [OF ok]
  note cur = shapeD(2) [OF k(1)]
  have ne: "i \<noteq> current_process k" using child(4) k(2) by auto
  show ?thesis
  proof (rule table_okI)
    show "j = current_process k' \<or> number_of k' j = 0" if "j < PCB_MAX" "state_of k' j = RUNNING" for j
      using that child k(3) [of j] by (cases "j = i") auto
    show "number_of k' j = 0" if "j < PCB_MAX" "state_of k' j = FREE" for j
      using that child k(4) [of j] by (cases "j = i") auto
    show "x = y" if "x < PCB_MAX" "y < PCB_MAX" "number_of k' x \<noteq> 0" "number_of k' x = number_of k' y" for x y
      using that child(7) [rule_format, of x] child(7) [rule_format, of y] child(8) k(5) [of x y]
      by (cases "x = i"; cases "y = i") auto
  qed (use child k(2) ne in auto)
next
  case (reap i)
  note k = table_okD [OF ok] and st = reap(4) [rule_format]
  note cur = shapeD(2) [OF k(1)]
  show ?thesis
  proof (rule table_okI)
    show "j = current_process k' \<or> number_of k' j = 0" if "j < PCB_MAX" "state_of k' j = RUNNING" for j
      using that st [of j] k(3) [of j] reap(2) by (auto split: if_splits)
    show "number_of k' j = 0" if "j < PCB_MAX" "state_of k' j = FREE" for j
      using that st [of j] k(4) [of j] by (auto split: if_splits)
    show "x = y" if "x < PCB_MAX" "y < PCB_MAX" "number_of k' x \<noteq> 0" "number_of k' x = number_of k' y" for x y
      using that st [of x] st [of y] k(5) [of x y] by (auto split: if_splits)
  qed (use reap(1-3) st [OF cur] k(2) in auto)
next
  case (quit z)
  note k = table_okD [OF ok] and st = quit(5) [rule_format]
  show ?thesis
  proof (rule table_okI)
    show "j = current_process k' \<or> number_of k' j = 0" if "j < PCB_MAX" "state_of k' j = RUNNING" for j
    proof -
      from that st [of j] have r: "j \<noteq> z" "state_of k j = RUNNING" "number_of k' j = number_of k j" by (auto split: if_splits)
      with k(3) [OF that(1)] quit_self [OF ok quit(2)] show ?thesis by auto
    qed
    show "number_of k' j = 0" if "j < PCB_MAX" "state_of k' j = FREE" for j
      using that st [of j] k(4) [of j] by (auto split: if_splits)
    show "x = y" if "x < PCB_MAX" "y < PCB_MAX" "number_of k' x \<noteq> 0" "number_of k' x = number_of k' y" for x y
      using that st [of x] st [of y] k(5) [of x y] by auto
  qed (use quit in auto)
qed

lemma table_step_inv:
  assumes "table_step e k k'" and "\<not> e" and inv: "table_inv k"
  shows "table_inv k'"
  using assms(1)
proof cases
  case stay
  have eq: "state_of k' j = state_of k j" "number_of k' j = number_of k j" if "j < PCB_MAX" for j
    using stay(3) that by blast+
  show ?thesis
  proof (rule table_invI)
    show "x = y" if "x < PCB_MAX" "y < PCB_MAX" "state_of k' x \<noteq> FREE" "state_of k' y \<noteq> FREE"
      "number_of k' x = number_of k' y" for x y
      using that eq table_invD(5) [OF inv, of x y] by simp
  qed (use table_invD(1-4) [OF inv] shapeD(2) [OF stay(1)] stay(1,2) eq in auto)
next
  case (switch i)
  note k = table_invD [OF inv] and st = switch(4) [rule_format]
  note cur = shapeD(2) [OF k(1)] and cur' = shapeD(2) [OF switch(1)]
  show ?thesis
  proof (rule table_invI)
    show "j = current_process k'" if "j < PCB_MAX" "state_of k' j = RUNNING" for j
      using that st [of j] k(3) [of j] switch(2) by (auto split: if_splits)
    show "number_of k' j = 0" if "j < PCB_MAX" "state_of k' j = FREE" for j
      using that st [of j] k(4) [of j] by (auto split: if_splits)
    show "x = y" if "x < PCB_MAX" "y < PCB_MAX" "state_of k' x \<noteq> FREE" "state_of k' y \<noteq> FREE"
      "number_of k' x = number_of k' y" for x y
    proof -
      have "state_of k j \<noteq> FREE" if "j < PCB_MAX" "state_of k' j \<noteq> FREE" for j
        using that st [of j] k(2) switch(3) by (auto split: if_splits)
      with that st [of x] st [of y] k(5) [of x y] show ?thesis by auto
    qed
  qed (use switch cur' st [of i] in auto)
next
  case (child i)
  note k = table_invD [OF inv]
  have ne: "i \<noteq> current_process k" using child(4) k(2) by auto
  show ?thesis
  proof (rule table_invI)
    show "j = current_process k'" if "j < PCB_MAX" "state_of k' j = RUNNING" for j
      using that child k(3) [of j] by (cases "j = i") auto
    show "number_of k' j = 0" if "j < PCB_MAX" "state_of k' j = FREE" for j
      using that child k(4) [of j] by (cases "j = i") auto
    show "x = y" if "x < PCB_MAX" "y < PCB_MAX" "state_of k' x \<noteq> FREE" "state_of k' y \<noteq> FREE"
      "number_of k' x = number_of k' y" for x y
      using that child(7) [rule_format, of x] child(7) [rule_format, of y] child(8) k(5) [of x y]
      by (cases "x = i"; cases "y = i") auto
  qed (use child k(2) ne in auto)
next
  case (reap i)
  note k = table_invD [OF inv] and st = reap(4) [rule_format]
  note cur = shapeD(2) [OF k(1)]
  show ?thesis
  proof (rule table_invI)
    show "j = current_process k'" if "j < PCB_MAX" "state_of k' j = RUNNING" for j
      using that st [of j] k(3) [of j] reap(2) by (auto split: if_splits)
    show "number_of k' j = 0" if "j < PCB_MAX" "state_of k' j = FREE" for j
      using that st [of j] k(4) [of j] by (auto split: if_splits)
    show "x = y" if "x < PCB_MAX" "y < PCB_MAX" "state_of k' x \<noteq> FREE" "state_of k' y \<noteq> FREE"
      "number_of k' x = number_of k' y" for x y
      using that st [of x] st [of y] k(5) [of x y] by (auto split: if_splits)
  qed (use reap(1-3) st [OF cur] k(2) in auto)
next
  case (quit z)
  note k = table_invD [OF inv] and st = quit(5) [rule_format]
  have z: "z = current_process k" using quit_self [OF table_inv_ok [OF inv] quit(2)] quit(3) assms(2) by auto
  show ?thesis
  proof (rule table_invI)
    show "j = current_process k'" if "j < PCB_MAX" "state_of k' j = RUNNING" for j
      using that st [of j] k(3) [of j] z by (auto split: if_splits)
    show "number_of k' j = 0" if "j < PCB_MAX" "state_of k' j = FREE" for j
      using that st [of j] k(4) [of j] by (auto split: if_splits)
    show "x = y" if "x < PCB_MAX" "y < PCB_MAX" "state_of k' x \<noteq> FREE" "state_of k' y \<noteq> FREE"
      "number_of k' x = number_of k' y" for x y
    proof -
      have "state_of k j \<noteq> FREE" if "j < PCB_MAX" "state_of k' j \<noteq> FREE" for j
        using that st [of j] k(2) z by (auto split: if_splits)
      with that st [of x] st [of y] k(5) [of x y] show ?thesis by auto
    qed
  qed (use quit in auto)
qed

section \<open>Every interrupt is a step of that machine\<close>

lemma same_table_step: "shape k \<Longrightarrow> same_table k k' \<Longrightarrow> table_step e k k'"
  by (rule stay) (auto simp: same_table_def shape_def)

lemma timer_step:
  assumes sh: "shape k" and "do_timer_handler ptr k = Some (out, k')"
  shows "table_step e k k'"
    and "out = SwitchTo c \<Longrightarrow> c = context_of k' (current_process k') \<and>
      context_of k' (current_process k) = save_context ptr (context_of k (current_process k)) \<and>
      (current_process k' \<noteq> current_process k \<longrightarrow> state_of k' (current_process k) = RUNNABLE)"
proof -
  note I = shapeD [OF sh]
  have "table_step e k k' \<and> (\<forall>c. out = SwitchTo c \<longrightarrow> c = context_of k' (current_process k') \<and>
      context_of k' (current_process k) = save_context ptr (context_of k (current_process k)) \<and>
      (current_process k' \<noteq> current_process k \<longrightarrow> state_of k' (current_process k) = RUNNABLE))"
  proof (cases "first_index (\<lambda>p. pstate p = RUNNABLE) (pcblist k)")
    case None
    with assms(2) have "out = Resume" "k' = k" by (simp_all add: do_timer_handler_def)
    with same_table_step [OF sh same_table_refl] show ?thesis by simp
  next
    case (Some i)
    note i = first_index_SomeD [OF Some]
    let ?last = "current_process k"
    from assms(2) Some obtain k1 k2 where
      p1: "print_k ''process:'' (k\<lparr>current_process := i\<rparr>) = Some k1" and
      p2: "printn_k (pid (current_pcb k1)) k1 = Some k2" and
      k': "k' = update_pcb ?last (\<lambda>p. p\<lparr>p_ctx := save_context ptr (p_ctx p)\<rparr>)
        (update_pcb i (\<lambda>p. p\<lparr>pstate := RUNNING\<rparr>)
          (update_pcb ?last (\<lambda>p. p\<lparr>pstate := RUNNABLE\<rparr>) (k2\<lparr>cr3 := VIR_2_PHY (p_pagedir (pcblist k2 ! i))\<rparr>)))"
      and out: "out = SwitchTo (context_of k' i)"
      by (auto simp: do_timer_handler_def Let_def split: bind_splits)
    from same_table_trans [OF print_k_same(1) [OF p1] print_k_same(2) [OF p2]]
    have same: "length (pcblist k2) = PCB_MAX" "current_process k2 = i" "nextpid k2 = nextpid k"
      "\<And>j. state_of k2 j = state_of k j" "\<And>j. number_of k2 j = number_of k j" "\<And>j. context_of k2 j = context_of k j"
      "\<And>j. length (fdlist (pcblist k2 ! j)) = length (fdlist (pcblist k ! j))"
      using I(1) by (simp_all add: same_table_def)
    have st: "length (pcblist k') = PCB_MAX" "current_process k' = i" "nextpid k' = nextpid k"
      "\<And>j. state_of k' j = (if j = i then RUNNING else if j = ?last then RUNNABLE else state_of k j)"
      "\<And>j. number_of k' j = number_of k j"
      "\<And>j. context_of k' j = (if j = ?last then save_context ptr (context_of k j) else context_of k j)"
      "\<And>j. length (fdlist (pcblist k' ! j)) = length (fdlist (pcblist k ! j))"
      using i I(1,2) same by (auto simp: k' nth_update_pcb)
    have seg: "segments (save_context ptr c) = segments c" for c by (simp add: segments_def save_context_def)
    have "shape k'" using I i st by (simp add: shape_def)
    then have "table_step e k k'"
      using i st(4-6) seg by (intro switch [where i = i] st(2)) simp_all
    with st(2,4,6) out show ?thesis by simp
  qed
  then show "table_step e k k'"
    and "out = SwitchTo c \<Longrightarrow> c = context_of k' (current_process k') \<and>
      context_of k' (current_process k) = save_context ptr (context_of k (current_process k)) \<and>
      (current_process k' \<noteq> current_process k \<longrightarrow> state_of k' (current_process k) = RUNNABLE)" by blast+
qed

lemma fork_step:
  assumes ok: "table_ok k" and fork: "sys_fork ptr k = Some (r, k')"
  shows "table_step e k k'"
proof -
  note K = table_okD [OF ok] and I = shapeD [OF table_okD(1) [OF ok]]
  from fork obtain a k1 where a: "allocProcess k = Some (a, k1)"
    by (auto simp: sys_fork_def split: bind_splits)
  note frame = allocProcess_frame [OF a]
  note n = allocProcess_nextpid [OF a I(1,3,4)]
  show ?thesis
  proof (cases a)
    case None
    with fork a have "k' = k1" "pcblist k1 = pcblist k"
      by (auto simp: sys_fork_def allocProcess_def Let_def split: bind_splits if_splits prod.splits)
    with frame n I show ?thesis by (intro stay) (simp_all add: shape_def)
  next
    case (Some i)
    from a Some have "first_index (\<lambda>p. pstate p = FREE) (pcblist k) = Some i"
      by (auto simp: allocProcess_def Let_def split: bind_splits if_splits prod.splits)
    note i = first_index_SomeD [OF this]
    then have "\<exists>p \<in> set (pcblist k). pstate p = FREE" using nth_mem by blast
    from allocProcess_fresh [OF I(1,3,4) this] a Some obtain m where
      p: "state_of k1 i = RUNNABLE" "unat (number_of k1 i) = m" "1 \<le> m" "\<forall>q \<in> set (pcblist k). pid q \<noteq> number_of k1 i"
      and table: "pcblist k1 = (pcblist k)[i := pcblist k1 ! i]"
      by (auto simp: Let_def)
    have len: "length (pcblist k1) = PCB_MAX" using I(1) by (subst table) simp
    have ne: "i \<noteq> current_process k" using i K(2) by auto
    have cur: "current_pcb k1 = current_pcb k" unfolding frame(1) using ne by (subst table) simp
    from sys_fork_child [of k i k1 ptr] a Some i I(1) len fork have
      k': "pcblist k' = (pcblist k1)[i := copyContext ptr
        ((pcblist k1 ! i)\<lparr>fdlist := fdlist (current_pcb k), p_pagedir := free_list k\<rparr>)]"
      "nextpid k' = nextpid k1" "current_process k' = current_process k" unfolding cur by auto
    have st: "state_of k' i = RUNNABLE" "number_of k' i = number_of k1 i"
      "length (fdlist (pcblist k' ! i)) = FILE_MAX_InPROCESS"
      "\<And>j. j \<noteq> i \<Longrightarrow> pcblist k' ! j = pcblist k ! j" "length (pcblist k') = PCB_MAX"
      using i I(1) len p(1) I(5) [OF I(2)] by (auto simp: k' copyContext_def) (subst table, simp)
    have "length (fdlist (pcblist k' ! j)) = FILE_MAX_InPROCESS" if "j < PCB_MAX" for j
      using st(3) st(4) [of j] I(5) [OF that] by (cases "j = i") simp_all
    then have "shape k'" using st(5) I n k'(2,3) by (simp add: shape_def)
    moreover have "number_of k j \<noteq> number_of k' i" if "j < PCB_MAX" for j using p(4) that I(1) by (simp add: st(2))
    moreover have "number_of k' i \<noteq> 0" using p(2,3) by (auto simp: st(2))
    ultimately show ?thesis using i I(1) k'(3) st(1,4) by (intro child [where i = i]) auto
  qed
qed

lemma wait_step:
  assumes sh: "shape k" and wait: "sys_wait k = Some (r, k')"
  shows "table_step e k k'"
proof (cases "haveChildren (pid (current_pcb k)) k = 0")
  case True
  with wait same_table_step [OF sh same_table_refl] show ?thesis by (simp add: sys_wait_def)
next
  case False
  let ?P = "\<lambda>p. father_pid p = pid (current_pcb k) \<and> pstate p = ZOMBIE"
  note I = shapeD [OF sh]
  from wait False have loop: "wait_loop (pid (current_pcb k)) k = Some (r, k')"
    by (simp add: sys_wait_def Let_def)
  from wait_loop_zombie [OF this] obtain i where i: "first_index ?P (pcblist k) = Some i" by auto
  note z = first_index_SomeD [OF i]
  from loop i have k': "k' = update_pcb i (\<lambda>p. p\<lparr>p_pagedir := 0, pstate := FREE, father_pid := 0, pid := 0,
      next_vir_addr := 0\<rparr>) k" by (subst (asm) wait_loop.simps) simp
  have cur: "current_process k' = current_process k" by (simp add: k')
  moreover have "shape k'" using I z by (simp add: k' shape_def nth_update_pcb)
  ultimately show ?thesis using z by (intro reap [where i = i]) (auto simp: k' nth_update_pcb)
qed

lemma exit_step:
  assumes sh: "shape k" and exit: "sys_exit k = Some (c, k')" and e: "pid (current_pcb k) = 0 \<Longrightarrow> e"
  shows "table_step e k k'"
proof -
  note I = shapeD [OF sh]
  from exit obtain z where g: "getPCB (pid (current_pcb k)) k = Some z"
    by (auto simp: sys_exit_def split: bind_splits)
  have z: "z < PCB_MAX" using getPCB_SomeD [OF g] I(1) by simp
  from sys_exit_state [OF _ g] z I(1) I(5) [OF z] obtain k3 where
    k3: "length (pcblist k3) = PCB_MAX" "nextpid k3 = nextpid k" "\<And>j. j < PCB_MAX \<Longrightarrow>
      state_of k3 j = (if j = z then ZOMBIE else state_of k j) \<and> number_of k3 j = number_of k j \<and>
      context_of k3 j = context_of k j \<and> length (fdlist (pcblist k3 ! j)) = length (fdlist (pcblist k ! j))" and
    ex: "sys_exit k = (case first_index (\<lambda>p. pstate p = RUNNABLE) (pcblist k3) of None \<Rightarrow> None
       | Some i \<Rightarrow> Some (p_ctx (pcblist k3 ! i),
           k3\<lparr>current_process := i, cr3 := VIR_2_PHY (p_pagedir (pcblist k3 ! i))\<rparr>))"
    by auto
  from ex exit obtain i where i: "first_index (\<lambda>p. pstate p = RUNNABLE) (pcblist k3) = Some i" and
    k': "k' = k3\<lparr>current_process := i, cr3 := VIR_2_PHY (p_pagedir (pcblist k3 ! i))\<rparr>"
    by (auto split: option.splits)
  note n = first_index_SomeD [OF i]
  have "shape k'" using I k3 n by (simp add: shape_def k')
  then show ?thesis using n k3(3) e by (intro quit [OF _ g]) (simp_all add: k')
qed

lemma kernel_table_step:
  assumes "kernel_step ptr k k'" and ok: "table_ok k"
  shows "table_step (exit_by_first ptr k) k k'"
proof -
  from assms(1) obtain names scancode lo out ptr' where
    1: "interrupt_assign names scancode lo ptr k = Some (out, ptr', k')"
    by (blast elim: kernel_stepE)
  note sh = table_okD(1) [OF ok]
  have cur: "current_process k < length (pcblist k)" using shapeD(1,2) [OF sh] by simp
  have same: "same_table k k'" if "result_same k y" "y = Some (r, k')" for y r
    using that by (auto dest: on_resultD)
  note int = 1 [unfolded interrupt_assign_def Let_def]
  consider (call) "inter_no ptr = 0x80" | (timer) "inter_no ptr = 0x20" | (keyboard) "inter_no ptr = 0x21"
    | (fault) "inter_no ptr = 14" | (other) "inter_no ptr \<notin> {0x80, 0x20, 0x21, 14}" by auto
  then show ?thesis
  proof cases
    case call
    with int obtain f where f: "map_of sys_call_table (i_eax ptr) = Some f" "f lo ptr k = Some (out, ptr', k')"
      by (auto split: option.splits)
    then consider "i_eax ptr = SYS_exit" "\<exists>c. sys_exit k = Some (c, k')"
      | "\<exists>r. sys_fork ptr k = Some (r, k')" | "\<exists>r. sys_wait k = Some (r, k')"
      | "same_table k k'" | "\<exists>r p. sys_execve lo ptr k = Some (r, p, k')"
      unfolding sys_call_table_def
      using same [OF sys_read_same] same [OF sys_write_same] same [OF sys_open_same [OF cur]]
        same [OF sys_close_same [OF cur]] same [OF sys_creat_same [OF cur]] same [OF sys_clear_same]
      by (auto split: if_splits prod.splits)
    then show ?thesis
    proof cases
      case 1
      with call exit_step [OF sh] show ?thesis by (auto simp: exit_by_first_def)
    next
      case 4
      with sh show ?thesis by (rule same_table_step)
    next
      case 5
      with on_resultD [OF sys_execve_same] have "same_table k k'" by fastforce
      with sh show ?thesis by (rule same_table_step)
    qed (use fork_step [OF ok] wait_step [OF sh] in blast)+
  next
    case timer
    with int show ?thesis by (auto intro: timer_step(1) [OF sh])
  next
    case keyboard
    with int have "same_table k k'" by (auto split: bind_splits intro: same_table_eq)
    with sh show ?thesis by (rule same_table_step)
  next
    case fault
    with int have "same_table k k'" by (auto intro: keeps_tableD [OF do_page_fault_same])
    with sh show ?thesis by (rule same_table_step)
  next
    case other
    with int have "same_table k k'" by (auto intro: keeps_tableD [OF general_intr_handler_same])
    with sh show ?thesis by (rule same_table_step)
  qed
qed

interpretation table: step_invariant table_ok
  by unfold_locales (rule table_step_ok [OF kernel_table_step])

interpretation quiet: quiet_invariant table_inv
  by unfold_locales (blast intro: table_step_inv kernel_table_step table_inv_ok)

end
