(* ===== verification/System.thy ===== *)
theory System
  imports TableMachine
begin

text \<open>
  The process table over any sequence of interrupts, from the state that \<open>init_pcb\<close> sets up: the first
  process and what its \<open>_exit\<close> does, processes that wait for their turn, and a run from the start.
\<close>

section \<open>The first process\<close>

text \<open>
  Until it calls \<open>_exit\<close>, the first process stays in block 0 with the number 0; the segment registers in
  its control block stay zero, since nothing but \<open>copyContext\<close> for a child writes those of a block.
\<close>

definition first_inv :: "kernel \<Rightarrow> bool" where
  "first_inv k \<longleftrightarrow> state_of k 0 \<in> {RUNNING, RUNNABLE} \<and> number_of k 0 = 0 \<and> segments (context_of k 0) = replicate 6 0"

lemma first_inv_step:
  assumes "table_step e k k'" and "\<not> e" and inv: "table_inv k" and first: "first_inv k"
  shows "first_inv k'"
  using assms(1)
proof cases
  case (child i)
  with first show ?thesis by (cases "i = 0") (auto simp: first_inv_def)
next
  case (quit z)
  have "z = current_process k" using quit_self [OF table_inv_ok [OF inv] quit(2)] quit(3) assms(2) by auto
  moreover have "pid (current_pcb k) \<noteq> 0" using quit(3) assms(2) by blast
  ultimately have "z \<noteq> 0" using first by (intro notI) (simp add: first_inv_def)
  with first quit(5) show ?thesis by (simp add: first_inv_def)
next
  case (switch i)
  with first show ?thesis using switch(4) [rule_format, of 0] by (auto simp: first_inv_def)
next
  case (reap i)
  then have "i \<noteq> 0" using first by (intro notI) (auto simp: first_inv_def)
  with first reap(4) show ?thesis by (simp add: first_inv_def)
qed (use first in \<open>auto simp: first_inv_def\<close>)

interpretation quiet_first: quiet_invariant "\<lambda>k. table_inv k \<and> first_inv k"
  by unfold_locales (blast intro: table_step_inv first_inv_step kernel_table_step table_inv_ok)

text \<open>
  What its \<open>_exit\<close> does: \<open>getPCB\<close> finds the last block with the number 0, a free one, which becomes a zombie.
\<close>

lemma first_exit:
  assumes inv: "table_inv k" and first: "first_inv k" and step: "kernel_step ptr k k'" and "exit_by_first ptr k"
    and running: "state_of k 0 = RUNNING" and free: "j < PCB_MAX" "state_of k j = FREE"
  shows "(\<exists>z < PCB_MAX. state_of k z = FREE \<and> state_of k' z = ZOMBIE) \<and> state_of k' 0 = RUNNING \<and> current_process k' \<noteq> 0"
proof -
  note K = table_invD [OF inv] and I = shapeD [OF table_invD(1) [OF inv]]
  have cur: "current_process k = 0" using K(3) [of 0] running by simp
  from step assms(4) obtain c where exit: "sys_exit k = Some (c, k')"
    by (auto elim!: kernel_stepE simp: exit_by_first_def interrupt_assign_def sys_call_table_def Let_def
        split: bind_splits option.splits)
  from exit obtain z where g: "getPCB (pid (current_pcb k)) k = Some z"
    by (auto simp: sys_exit_def split: bind_splits)
  have n0: "pid (current_pcb k) = 0" using first by (simp add: cur first_inv_def)
  have z: "z < PCB_MAX" "number_of k z = 0" using getPCB_SomeD [OF g] I(1) n0 by auto
  have "j \<le> z" using last_index_SomeD [of "\<lambda>q. pid q = 0" "pcblist k" z] g n0 K(4) [OF free] free(1) I(1)
    by (auto simp: getPCB_def not_le [symmetric])
  moreover have "j \<noteq> 0" using free(2) running by (intro notI) simp
  ultimately have "z \<noteq> 0" by simp
  then have zf: "state_of k z = FREE" using K(5) [of z 0] z first running by (auto simp: first_inv_def)
  from sys_exit_state [OF _ g] z I(1) I(5) [OF z(1)] obtain k3 where
    k3: "\<And>j. j < PCB_MAX \<Longrightarrow> state_of k3 j = (if j = z then ZOMBIE else state_of k j)" "length (pcblist k3) = PCB_MAX" and
    ex: "sys_exit k = (case first_index (\<lambda>p. pstate p = RUNNABLE) (pcblist k3) of None \<Rightarrow> None
       | Some i \<Rightarrow> Some (p_ctx (pcblist k3 ! i),
           k3\<lparr>current_process := i, cr3 := VIR_2_PHY (p_pagedir (pcblist k3 ! i))\<rparr>))"
    by auto
  from ex exit obtain i where i: "first_index (\<lambda>p. pstate p = RUNNABLE) (pcblist k3) = Some i" and
    k': "k' = k3\<lparr>current_process := i, cr3 := VIR_2_PHY (p_pagedir (pcblist k3 ! i))\<rparr>"
    by (auto split: option.splits)
  note n = first_index_SomeD [OF i]
  have "i \<noteq> 0" using n k3(1) [of 0] running by (intro notI) (simp split: if_splits)
  with n k3 z \<open>z \<noteq> 0\<close> running zf show ?thesis
    by (intro conjI exI [of _ z]) (simp_all add: k')
qed

section \<open>A process that waits for its turn\<close>

text \<open>Interrupts while the process in block \<open>b\<close> is not the current one.\<close>

inductive paused :: "nat \<Rightarrow> kernel \<Rightarrow> kernel \<Rightarrow> bool" for b k0 where
  switched: "paused b k0 k0"
| others: "paused b k0 k \<Longrightarrow> kernel_step ptr k k' \<Longrightarrow> \<not> exit_by_first ptr k \<Longrightarrow> current_process k' \<noteq> b \<Longrightarrow> paused b k0 k'"

lemma table_step_paused:
  assumes "table_step e k k'" and "\<not> e" and inv: "table_inv k" and b: "b < PCB_MAX" "b \<noteq> current_process k"
    and "state_of k b = RUNNABLE" and "current_process k' \<noteq> b"
  shows "state_of k' b = RUNNABLE \<and> context_of k' b = context_of k b"
  using assms(1)
proof cases
  case (quit z)
  have "z = current_process k" using quit_self [OF table_inv_ok [OF inv] quit(2)] quit(3) assms(2) by auto
  with quit b assms(6) show ?thesis by simp
next
  case (child i)
  with assms(6) show ?thesis by (cases "i = b") auto
qed (use b assms(6,7) in auto)

lemma paused_keeps:
  assumes "paused b k0 k" and "b < PCB_MAX" and "b \<noteq> current_process k0" and "table_inv k0" and "state_of k0 b = RUNNABLE"
  shows "table_inv k \<and> b \<noteq> current_process k \<and> state_of k b = RUNNABLE \<and> context_of k b = context_of k0 b"
  using assms(1)
proof induction
  case (others k ptr k')
  then have "table_inv k'" by (blast intro: quiet.quiet_keeps)
  moreover have "table_step (exit_by_first ptr k) k k'" using others by (blast intro: kernel_table_step table_inv_ok)
  ultimately show ?case using others table_step_paused [of _ k k' b] assms(2) by auto
qed (use assms in simp)

section \<open>The start\<close>

lemma init_pcb_invs:
  assumes "pcblist k0 = replicate PCB_MAX zero_pcb" and "nextpid k0 = 1"
  shows "table_inv (init_pcb pagedir k0)" and "first_inv (init_pcb pagedir k0)"
proof -
  let ?k = "init_pcb pagedir k0"
  have st: "length (pcblist ?k) = PCB_MAX" "current_process ?k = 0" "nextpid ?k = 1"
    "\<And>i. i < PCB_MAX \<Longrightarrow> state_of ?k i = (if i = 0 then RUNNING else FREE)"
    "\<And>i. i < PCB_MAX \<Longrightarrow> number_of ?k i = 0" "\<And>i. i < PCB_MAX \<Longrightarrow> context_of ?k i = zero_context"
    "\<And>i. i < PCB_MAX \<Longrightarrow> length (fdlist (pcblist ?k ! i)) = FILE_MAX_InPROCESS"
    using assms by (simp_all add: init_pcb_def Let_def update_pcb_def nth_list_update zero_pcb_def)
  have "shape ?k" by (simp add: shape_def st)
  then show "table_inv ?k" by (rule table_invI) (auto simp: st split: if_splits)
  show "first_inv ?k" by (simp add: first_inv_def st segments_def zero_context_def numeral_eq_Suc)
qed

lemmas table_inv_init = init_pcb_invs(1)

section \<open>A run from the start\<close>

text \<open>The first process forks, and the clock interrupts it twice.\<close>

definition boot_kernel :: kernel where
  "boot_kernel = demo_kernel\<lparr>pcblist := replicate PCB_MAX zero_pcb, nextpid := 1\<rparr>"

definition fork_frame :: intr_context where
  "fork_frame = zero_frame\<lparr>inter_no := 0x80, i_eax := SYS_fork\<rparr>"

definition clock_frame :: intr_context where
  "clock_frame = zero_frame\<lparr>inter_no := 0x20, i_eip := 0x1234, i_cs := 0x1b\<rparr>"

definition exit_frame :: intr_context where
  "exit_frame = zero_frame\<lparr>inter_no := 0x80, i_eax := SYS_exit\<rparr>"

definition run_locals :: locals where
  "run_locals = \<lparr>l_superblock_tail = [], l_inode = undefined, l_filename = (\<lambda>_. [])\<rparr>"

abbreviation boot_state :: kernel where "boot_state \<equiv> init_pcb 0xc0100000 boot_kernel"

lemma sys_fork_lock: "sys_fork ptr k = Some (r, k') \<Longrightarrow> video_lock k' = video_lock k"
  by (auto simp: sys_fork_def allocProcess_def copy_process_mem_def Let_def update_pcb_def
      simp del: upt_Suc upt_rec_numeral split: bind_splits option.splits prod.splits if_splits)

lemma boot_state:
  "length (pcblist boot_state) = 20" "current_process boot_state = 0" "nextpid boot_state = 1"
  "\<And>i. i < 20 \<Longrightarrow> state_of boot_state i = (if i = 0 then RUNNING else FREE)"
  "\<And>q. q \<in> set (pcblist boot_state) \<Longrightarrow> pid q = 0" "lock_value (video_lock boot_state) = 0"
  by (auto simp: init_pcb_def Let_def update_pcb_def nth_list_update zero_pcb_def boot_kernel_def demo_kernel_def
      dest!: subsetD [OF set_update_subset_insert])

lemma boot_fork:
  obtains k1 where "kernel_step fork_frame boot_state k1" and "\<not> exit_by_first fork_frame boot_state"
    and "current_process k1 = 0" and "lock_value (video_lock k1) = 0" and "length (pcblist k1) = 20"
    and "\<forall>i < 20. state_of k1 i = (if i = 0 then RUNNING else if i = 1 then RUNNABLE else FREE)"
proof -
  let ?k = boot_state
  have "next_number (pcblist ?k) (nextpid ?k) = Some 1"
    using find_from [of 1 1 61 "in_use (pcblist ?k)" "[1..<61]"] boot_state(5)
    unfolding next_number_def boot_state(3) by (auto simp: in_use_def simp del: upt_Suc upt_rec_numeral)
  moreover have first: "first_index (\<lambda>p. pstate p = FREE) (pcblist ?k) = Some 1"
    by (rule first_index_eqI) (auto simp: boot_state)
  moreover have "\<exists>p \<in> set (pcblist ?k). pstate p = FREE"
    using boot_state(1) boot_state(4) [of 1] by (intro bexI [of _ "pcblist ?k ! 1"]) simp_all
  moreover have "allocProcess ?k = Some (Some i, k1) \<Longrightarrow> i = 1" for i k1
    using first by (auto simp: allocProcess_def Let_def split: bind_splits if_splits prod.splits)
  ultimately obtain r k1 where r: "allocProcess ?k = Some (r, k1)" "case r of None \<Rightarrow> False
     | Some i \<Rightarrow> i = 1 \<and> state_of k1 i = RUNNABLE \<and> pcblist k1 = (pcblist ?k)[i := pcblist k1 ! i]"
    using allocProcess_fresh [of ?k] boot_state(1,3) by (fastforce simp: Let_def split: option.splits)
  then have a: "allocProcess ?k = Some (Some 1, k1)" "state_of k1 1 = RUNNABLE"
    "pcblist k1 = (pcblist ?k)[1 := pcblist k1 ! 1]" by (simp_all split: option.splits)
  have len: "length (pcblist k1) = 20" by (subst a(3)) (simp add: boot_state(1))
  have others: "pcblist k1 ! j = pcblist ?k ! j" if "j \<noteq> 1" for j
    by (subst a(3)) (use that in simp)
  from sys_fork_child [OF a(1), of fork_frame] len obtain r k2 where
    f: "sys_fork fork_frame ?k = Some (r, k2)" "current_process k2 = 0" and
    p: "pcblist k2 = (pcblist k1)[1 := copyContext fork_frame
      ((pcblist k1 ! 1)\<lparr>fdlist := fdlist (current_pcb k1), p_pagedir := free_list ?k\<rparr>)]"
    by (auto simp: boot_state(2))
  have "\<exists>out ptr'. interrupt_assign [] 0 run_locals fork_frame ?k = Some (out, ptr', k2)"
    using f(1) by (simp add: interrupt_assign_def sys_call_table_def fork_frame_def)
  then have "kernel_step fork_frame ?k k2" by (blast intro: interrupt)
  moreover have "state_of k2 i = (if i = 0 then RUNNING else if i = 1 then RUNNABLE else FREE)" if "i < 20" for i
    using that a(2) boot_state(4) [OF that] len others [of i]
    by (cases "i = 1") (simp_all add: p copyContext_def)
  moreover have "\<not> exit_by_first fork_frame ?k" by (simp add: exit_by_first_def fork_frame_def)
  moreover have "lock_value (video_lock k2) = 0" using sys_fork_lock [OF f(1)] boot_state(6) by simp
  moreover have "length (pcblist k2) = 20" by (simp add: p len)
  ultimately show thesis using f(2) by (intro that [of k2]) blast+
qed

lemma boot_run:
  obtains k1 k2 k3 c1 c where "reachable boot_state False k1" and "current_process k1 = 0"
    and "state_of k1 0 = RUNNING" and "state_of k1 1 = RUNNABLE" and "state_of k1 2 = FREE"
    and "kernel_step clock_frame k1 k2" and "do_timer_handler clock_frame k1 = Some (SwitchTo c1, k2)"
    and "current_process k2 = 1" and "do_timer_handler zero_frame k2 = Some (SwitchTo c, k3)" and "current_process k3 = 0"
proof -
  obtain k1 where k1: "kernel_step fork_frame boot_state k1" "\<not> exit_by_first fork_frame boot_state"
    "current_process k1 = 0" "lock_value (video_lock k1) = 0" "length (pcblist k1) = 20"
    "\<forall>i < 20. state_of k1 i = (if i = 0 then RUNNING else if i = 1 then RUNNABLE else FREE)"
    by (rule boot_fork)
  have r1: "reachable boot_state False k1" using step [OF start k1(1)] k1(2) by simp
  have run1: "one_running k1" "runnable k1 = {1}"
    using k1(3,5,6) by (auto simp: one_running_def runnable_def split: if_splits)
  from do_timer_handler_switch [OF k1(4) run1(1), of clock_frame] obtain c1 k2 where
    k2: "do_timer_handler clock_frame k1 = Some (SwitchTo c1, k2)" "switches k1 1 k2" "lock_value (video_lock k2) = 0"
    unfolding run1(2) by auto
  have run2: "one_running k2" "runnable k2 = {0}"
    using switches_one_running [OF run1(1) _ k2(2)] run1(2) k1(3) by auto
  from do_timer_handler_switch [OF k2(3) run2(1), of zero_frame] obtain c k3 where
    k3: "do_timer_handler zero_frame k2 = Some (SwitchTo c, k3)" "switches k2 0 k3" unfolding run2(2) by auto
  have "interrupt_assign [] 0 run_locals clock_frame k1 = Some (SwitchTo c1, clock_frame, k2)"
    using k2(1) by (simp add: interrupt_assign_def clock_frame_def)
  then have "kernel_step clock_frame k1 k2" by (rule interrupt)
  from that [OF r1 k1(3) _ _ _ this k2(1) _ k3(1)] show thesis
    using k1(5,6) k2(2) k3(2) by (simp add: switches_def)
qed

lemma exit_steps:
  assumes "table_inv k" and "state_of k j = RUNNABLE" and "j < PCB_MAX" and "state_of k (current_process k) = RUNNING"
    and "number_of k j \<noteq> number_of k (current_process k)"
  shows "\<exists>k'. kernel_step exit_frame k k'"
proof -
  note I = shapeD [OF table_invD(1) [OF assms(1)]]
  obtain z where g: "getPCB (pid (current_pcb k)) k = Some z"
    using I(1,2) last_index_None [of "\<lambda>q. pid q = pid (current_pcb k)" "pcblist k"]
    by (cases "getPCB (pid (current_pcb k)) k") (auto simp: getPCB_def)
  have z: "z < PCB_MAX" "z \<noteq> j" using getPCB_SomeD [OF g] I(1) assms(5) by auto
  from sys_exit_state [OF _ g] z(1) I(1) I(5) [OF z(1)] obtain k3 where
    k3: "state_of k3 j = RUNNABLE" "length (pcblist k3) = PCB_MAX" and
    ex: "sys_exit k = (case first_index (\<lambda>p. pstate p = RUNNABLE) (pcblist k3) of None \<Rightarrow> None
       | Some i \<Rightarrow> Some (p_ctx (pcblist k3 ! i),
           k3\<lparr>current_process := i, cr3 := VIR_2_PHY (p_pagedir (pcblist k3 ! i))\<rparr>))"
    using assms(2,3) z(2) by auto
  have "first_index (\<lambda>p. pstate p = RUNNABLE) (pcblist k3) \<noteq> None"
    using k3 assms(3) by (auto simp: first_index_None)
  with ex obtain c k' where "sys_exit k = Some (c, k')" by (auto split: option.splits)
  then have "interrupt_assign [] 0 run_locals exit_frame k = Some (SwitchTo c, exit_frame, k')"
    by (simp add: interrupt_assign_def sys_call_table_def exit_frame_def)
  then show ?thesis by (blast intro: interrupt)
qed

section \<open>Properties\<close>

text \<open>
  C1: The process table over any sequence of interrupts, from the table that \<open>init_pcb\<close> sets up.  Always:
  the current process is running or willing to, \<open>nextpid\<close> stays between 1 and 61, so that numbering ends,
  processes in use have distinct numbers except for 0, and only the current process or one with the
  number 0 is marked as running (\<open>table_ok\<close>).  As long as the first process has not called \<open>_exit\<close>, also: at
  most one process is running and then it is the current one, all processes in use have distinct numbers
  (\<open>table_inv\<close>), and the first process is there with its number 0.  If it calls \<open>_exit\<close> then, \<open>getPCB\<close> takes a
  free control block for its own: that one becomes a zombie, and the first process stays marked as
  running while another one is the current process.
\<close>

theorem process_table_invariant:
  assumes "pcblist k0 = replicate PCB_MAX zero_pcb" and "nextpid k0 = 1"
    and "reachable (init_pcb pagedir k0) e k"
  shows "table_ok k \<and> (\<not> e \<longrightarrow> table_inv k \<and> state_of k 0 \<in> {RUNNING, RUNNABLE} \<and> number_of k 0 = 0 \<and>
    (\<forall>ptr k' j. kernel_step ptr k k' \<longrightarrow> exit_by_first ptr k \<longrightarrow> state_of k 0 = RUNNING \<longrightarrow>
       j < PCB_MAX \<longrightarrow> state_of k j = FREE \<longrightarrow>
       (\<exists>z < PCB_MAX. state_of k z = FREE \<and> state_of k' z = ZOMBIE) \<and>
       state_of k' 0 = RUNNING \<and> current_process k' \<noteq> 0))"
proof -
  note init = init_pcb_invs [OF assms(1,2), of pagedir]
  have "table_ok k" using table.reachable_keeps [OF assms(3) table_inv_ok [OF init(1)]] .
  moreover have "table_inv k \<and> first_inv k" if "\<not> e"
    using quiet_first.quiet_reachable [OF assms(3) that] init by blast
  ultimately show ?thesis using first_exit by (auto simp: first_inv_def)
qed

text \<open>
  Quiet: the clock switches to the child, and the table is consistent.  Not quiet: the first process calls
  \<open>_exit\<close> instead, and remains the running process while the child is the current one.
\<close>

theorem process_table_invariant_witness:
  "\<exists>k1 k2 k'. reachable boot_state False k2 \<and> current_process k2 = 1 \<and> table_inv k2 \<and>
     kernel_step exit_frame k1 k' \<and> reachable boot_state True k' \<and> table_ok k' \<and>
     state_of k' 0 = RUNNING \<and> current_process k' \<noteq> 0 \<and> \<not> table_inv k'"
proof -
  obtain k1 k2 k3 c1 c where r: "reachable boot_state False k1" "current_process k1 = 0"
    "state_of k1 0 = RUNNING" "state_of k1 1 = RUNNABLE" "state_of k1 2 = FREE"
    "kernel_step clock_frame k1 k2" "current_process k2 = 1" by (rule boot_run)
  have init: "pcblist boot_kernel = replicate PCB_MAX zero_pcb" "nextpid boot_kernel = 1"
    by (simp_all add: boot_kernel_def)
  note inv = process_table_invariant [OF init]
  have "\<not> exit_by_first clock_frame k1" by (simp add: exit_by_first_def clock_frame_def)
  with step [OF r(1,6)] have r2: "reachable boot_state False k2" by simp
  from inv [OF r(1)] have i1: "table_inv k1" "number_of k1 0 = 0" by simp_all
  have "number_of k1 1 \<noteq> number_of k1 0" using table_invD(5) [OF i1(1), of 1 0] r(3,4) by auto
  with exit_steps [OF i1(1) r(4)] r(2,3) obtain k' where k': "kernel_step exit_frame k1 k'" by auto
  have ex: "exit_by_first exit_frame k1" by (simp add: exit_by_first_def exit_frame_def r(2) i1(2))
  with step [OF r(1) k'] have r': "reachable boot_state True k'" by simp
  have 1: "state_of k' 0 = RUNNING \<and> current_process k' \<noteq> 0"
    using inv [OF r(1), THEN conjunct2, simplified, THEN conjunct2, THEN conjunct2, THEN conjunct2, rule_format, OF k' ex r(3) _ r(5)] by simp
  then have "\<not> table_inv k'" using table_invD(3) [of k' 0] by auto
  with r2 r(7) inv [OF r2] k' r' inv [OF r'] 1 show ?thesis by blast
qed

text \<open>
  C36: A process that the clock interrupts and that later, after any interrupts of other processes, is
  resumed by the clock gets back its general registers, instruction pointer, flags and stack pointer;
  but its segment registers are those in its control block, not those it was interrupted with.  Those of
  the first process are all 0, its code segment included.  (Interrupts up to then in which the first process
  does not call \<open>_exit\<close>.)
\<close>

theorem timer_resumes_without_segments:
  assumes "pcblist k0 = replicate PCB_MAX zero_pcb" and "nextpid k0 = 1"
    and "reachable (init_pcb pagedir k0) False k" and b: "b = current_process k"
    and stop: "do_timer_handler ptr k = Some (SwitchTo c1, k1)" "current_process k1 \<noteq> b"
    and "paused b k1 k2"
    and resume: "do_timer_handler ptr' k2 = Some (SwitchTo c, k3)" "current_process k3 = b"
  shows "c_eax c = i_eax ptr \<and> c_ebx c = i_ebx ptr \<and> c_ecx c = i_ecx ptr \<and> c_edx c = i_edx ptr \<and>
    c_esi c = i_esi ptr \<and> c_edi c = i_edi ptr \<and> c_ebp c = i_ebp ptr \<and> c_esp c = i_esp ptr \<and>
    c_eip c = i_eip ptr \<and> c_eflags c = i_eflags ptr \<and>
    segments c = segments (p_ctx (pcblist k ! b)) \<and>
    (b = 0 \<longrightarrow> c_cs c = 0 \<and> c_ss c = 0 \<and> c_ds c = 0 \<and> c_es c = 0 \<and> c_fs c = 0 \<and> c_gs c = 0)"
proof -
  have inv: "table_inv k" "first_inv k"
    using quiet_first.quiet_reachable [OF assms(3)] init_pcb_invs [OF assms(1,2)] by blast+
  note sh = table_invD(1) [OF inv(1)]
  have bl: "b < PCB_MAX" using shapeD(2) [OF sh] b by simp
  have "table_inv k1" using table_step_inv [OF timer_step(1) [OF sh stop(1), of False] _ inv(1)] by simp
  moreover note s1 = timer_step(2) [OF sh stop(1) refl]
  ultimately have 2: "table_inv k2" "b \<noteq> current_process k2" "context_of k2 b = save_context ptr (context_of k b)"
    using paused_keeps [OF assms(7) bl] stop(2) b by auto
  note sh2 = table_invD(1) [OF 2(1)]
  have "table_step False k2 k3" by (rule timer_step(1) [OF sh2 resume(1)])
  moreover from timer_step(2) [OF sh2 resume(1) refl] resume(2) have "c = context_of k3 b" by simp
  ultimately have "c = context_of k2 b"
  proof cases
    case stay
    with resume(2) 2(2) show ?thesis by simp
  next
    case (quit z)
    with bl \<open>c = context_of k3 b\<close> show ?thesis by simp
  qed (use 2(2) bl \<open>c = context_of k3 b\<close> resume(2) in auto)
  with 2(3) have c: "c = save_context ptr (context_of k b)" by simp
  show ?thesis using inv(2) by (auto simp: c save_context_def segments_def first_inv_def numeral_eq_Suc)
qed

theorem timer_resumes_without_segments_witness:
  "\<exists>k1 k2 k3 c1 c. reachable boot_state False k1 \<and> i_cs clock_frame = 0x1b \<and>
     do_timer_handler clock_frame k1 = Some (SwitchTo c1, k2) \<and>
     do_timer_handler zero_frame k2 = Some (SwitchTo c, k3) \<and> current_process k3 = 0 \<and>
     c_eip c = 0x1234 \<and> c_cs c = 0"
proof -
  obtain k1 k2 k3 c1 c where r: "reachable boot_state False k1" "current_process k1 = 0"
    "do_timer_handler clock_frame k1 = Some (SwitchTo c1, k2)" "current_process k2 = 1"
    "do_timer_handler zero_frame k2 = Some (SwitchTo c, k3)" "current_process k3 = 0"
    by (rule boot_run)
  have "c_eip c = i_eip clock_frame \<and> c_cs c = 0"
    using timer_resumes_without_segments [OF _ _ r(1) refl r(3) _ switched r(5)] r(2,4,6)
    by (simp add: boot_kernel_def)
  with r show ?thesis by (auto simp: clock_frame_def)
qed

end
