(* ===== verification/Descriptors.thy ===== *)
theory Descriptors
  imports System
begin

text \<open>
  The descriptors of every process and the table of open files over any sequence of interrupts: which
  entries a descriptor can refer to, that the video lock is free between interrupts, and which
  interrupts are sure to be handled to their end.
\<close>

section \<open>Well-formed tables\<close>

text \<open>
  A descriptor is closed and refers to nothing, or is open and refers to an entry of the table; the
  three standard descriptors are closed.
\<close>

definition fd_ok :: "fd \<Rightarrow> bool" where
  "fd_ok f \<longleftrightarrow> open_flag f = CLOSE \<and> ofptr f = None \<or>
     open_flag f = OPEN \<and> (\<exists>e < FILE_MAX_INSYS. ofptr f = Some e)"

definition fds_ok :: "fd list \<Rightarrow> bool" where
  "fds_ok fds \<longleftrightarrow> length fds = FILE_MAX_InPROCESS \<and> (\<forall>f \<in> set fds. fd_ok f) \<and>
     (\<forall>j \<le> STDERR_FILENO. open_flag (fds ! j) = CLOSE)"

definition files_inv :: "kernel \<Rightarrow> bool" where
  "files_inv k \<longleftrightarrow> length (pcblist k) = PCB_MAX \<and> current_process k < PCB_MAX \<and>
     length (fileList k) = FILE_MAX_INSYS \<and> lock_value (video_lock k) = 0 \<and>
     (\<forall>p \<in> set (pcblist k). fds_ok (fdlist p))"

section \<open>Updates of the state\<close>

lemma files_inv_updates:
  "files_inv (k\<lparr>kdisk := d\<rparr>) = files_inv k" "files_inv (k\<lparr>kmem := m\<rparr>) = files_inv k"
  "files_inv (k\<lparr>free_list := a\<rparr>) = files_inv k" "files_inv (k\<lparr>nextpid := n\<rparr>) = files_inv k"
  "files_inv (k\<lparr>kb := b\<rparr>) = files_inv k" "files_inv (k\<lparr>scr := s\<rparr>) = files_inv k"
  "files_inv (k\<lparr>cr3 := c\<rparr>) = files_inv k"
  "lock_value l = 0 \<Longrightarrow> files_inv k \<Longrightarrow> files_inv (k\<lparr>video_lock := l\<rparr>)"
  "length fl = length (fileList k) \<Longrightarrow> files_inv k \<Longrightarrow> files_inv (k\<lparr>fileList := fl\<rparr>)"
  "i < length (pcblist k) \<Longrightarrow> files_inv k \<Longrightarrow> files_inv (k\<lparr>current_process := i\<rparr>)"
  by (auto simp: files_inv_def)

lemma files_inv_update_pcb:
  assumes "files_inv k" and "\<And>p. fds_ok (fdlist p) \<Longrightarrow> fds_ok (fdlist (f p))"
  shows "files_inv (update_pcb i f k)"
proof (cases "i < PCB_MAX")
  case True
  with assms show ?thesis
    by (auto simp: files_inv_def update_pcb_def dest!: subsetD [OF set_update_subset_insert])
next
  case False
  with assms(1) show ?thesis by (simp add: files_inv_def update_pcb_def list_update_beyond)
qed

lemma fds_ok_update:
  assumes "fds_ok fds" and "fd_ok f" and "j \<le> STDERR_FILENO \<Longrightarrow> open_flag f = CLOSE"
  shows "fds_ok (fds[j := f])"
proof -
  have "open_flag (fds[j := f] ! i) = CLOSE" if "i \<le> STDERR_FILENO" for i
    using assms that by (cases "i = j") (auto simp: fds_ok_def)
  with assms(1,2) show ?thesis
    by (auto simp: fds_ok_def dest!: subsetD [OF set_update_subset_insert])
qed

lemma fd_ok_simps [simp]:
  "fd_ok \<lparr>open_flag = CLOSE, ofptr = None\<rparr>"
  "fd_ok \<lparr>open_flag = OPEN, ofptr = Some e\<rparr> \<longleftrightarrow> e < FILE_MAX_INSYS"
  by (simp_all add: fd_ok_def)

lemma files_invD:
  assumes "files_inv k"
  shows "length (pcblist k) = PCB_MAX" "current_process k < PCB_MAX" "length (fileList k) = FILE_MAX_INSYS"
    "lock_value (video_lock k) = 0" "i < PCB_MAX \<Longrightarrow> fds_ok (fdlist (pcblist k ! i))"
  using assms by (auto simp: files_inv_def)

lemma length_delFile [simp]: "length (delFile p fl) = length fl"
  by (simp add: delFile_def split: option.split)

lemma setOpenFileList_index:
  "setOpenFileList oflag n fl = Some (e, fl') \<Longrightarrow> e < length fl \<and> length fl' = length fl"
  by (auto simp: setOpenFileList_def split: option.splits dest: last_index_SomeD)

lemma minfd_loop_ge: "0 < minfd_loop fds n \<Longrightarrow> int n \<le> minfd_loop fds n"
proof (induction fds n rule: minfd_loop.induct)
  case (1 fds n)
  then show ?case by (subst minfd_loop.simps, subst (asm) (2) minfd_loop.simps) (auto split: if_splits)
qed

lemma print_lock:
  "print l s text = Some (l', s') \<Longrightarrow> lock_value l' = 0"
  "clear_screen l s = Some (l', s') \<Longrightarrow> lock_value l' = 0"
  by (auto simp: print_def clear_screen_def release_def Let_def split: bind_splits)

abbreviation result_files :: "(int \<times> kernel) option \<Rightarrow> bool" where
  "result_files \<equiv> on_result (\<lambda>(r, k). files_inv k)"

lemma print_k_files:
  "print_k str k = Some k' \<Longrightarrow> files_inv k \<Longrightarrow> files_inv k'"
  "printn_k n k = Some k' \<Longrightarrow> files_inv k \<Longrightarrow> files_inv k'"
  by (auto simp: print_k_def printn_k_def printn_def files_inv_updates split: bind_splits dest!: print_lock)

section \<open>System calls\<close>

lemma sys_clear_files: "files_inv k \<Longrightarrow> result_files (sys_clear k)"
  unfolding sys_clear_def
  by (intro on_result_intros) (auto intro: files_inv_updates dest!: print_lock simp: files_inv_updates)

lemma sys_write_files: "files_inv k \<Longrightarrow> result_files (sys_write ptr k)"
  unfolding sys_write_def Let_def
  by (intro on_result_intros) (auto simp: files_inv_updates dest!: print_lock)

lemma sys_read_files: "files_inv k \<Longrightarrow> result_files (sys_read ptr k)"
  unfolding sys_read_def Let_def
  by (intro on_result_intros) (auto simp: files_inv_updates)

lemma sys_open_files:
  assumes "files_inv k"
  shows "result_files (sys_open lo ptr k)"
proof -
  have "files_inv (update_pcb (current_process k)
      (\<lambda>p. p\<lparr>fdlist := (fdlist p)[nat fdi := \<lparr>open_flag = OPEN, ofptr = Some e\<rparr>]\<rparr>) (k\<lparr>fileList := fl\<rparr>))"
    if "0 < fdi" "fdi = getMinfd fds" "setOpenFileList oflag n (fileList k) = Some (e, fl)" for fdi fds oflag n e fl
  proof -
    from that(1,2) have "3 \<le> fdi" using minfd_loop_ge [of fds 3] by (simp add: getMinfd_def)
    moreover from setOpenFileList_index [OF that(3)] files_invD(3) [OF assms]
    have "e < FILE_MAX_INSYS" "files_inv (k\<lparr>fileList := fl\<rparr>)"
      using assms by (auto simp: files_inv_updates)
    ultimately show ?thesis by (intro files_inv_update_pcb) (auto intro: fds_ok_update)
  qed
  with assms show ?thesis
    unfolding sys_open_def Let_def
    by (intro on_result_intros) (auto split: if_splits)
qed

lemma sys_close_files: "files_inv k \<Longrightarrow> result_files (Some (sys_close ptr k))"
  unfolding sys_close_def Let_def
  by (auto simp: on_result_def files_inv_updates intro!: files_inv_update_pcb fds_ok_update)

lemma sys_creat_files: "files_inv k \<Longrightarrow> result_files (sys_creat lo ptr k)"
  unfolding sys_creat_def Let_def
  by (intro on_result_intros sys_open_files) (simp_all add: files_inv_updates)

lemma sys_execve_files: "files_inv k \<Longrightarrow> on_result (\<lambda>(r, p, k). files_inv k) (sys_execve lo ptr k)"
  unfolding sys_execve_def free_process_user_mem_def Let_def
  by (intro on_result_intros) (simp_all add: files_inv_updates del: upt_Suc upt_rec_numeral)

lemma sys_fork_files:
  assumes "files_inv k"
  shows "result_files (sys_fork ptr k)"
proof -
  have alloc: "files_inv k1" if "allocProcess k = Some (r, k1)" for r k1
    using that assms
    by (auto simp: allocProcess_def Let_def files_inv_updates intro!: files_inv_update_pcb
        split: bind_splits if_splits)
  have mem: "files_inv (copy_process_mem i k1)" if "files_inv k1" for i k1
    using that unfolding copy_process_mem_def Let_def
    by (auto simp: files_inv_updates intro!: files_inv_update_pcb split: prod.split simp del: upt_Suc upt_rec_numeral)
  have std: "files_inv (update_pcb i (\<lambda>p. p\<lparr>fdlist := fdlist (current_pcb k1)\<rparr>) k1)" if "files_inv k1" for i k1
    using that by (intro files_inv_update_pcb) (simp_all add: files_invD)
  show ?thesis
    unfolding sys_fork_def Let_def
    by (intro on_result_intros) (auto intro!: files_inv_update_pcb mem std simp: copyContext_def dest: alloc)
qed

lemma sys_wait_files:
  assumes "files_inv k"
  shows "result_files (sys_wait k)"
proof -
  have "files_inv k'" if wait: "wait_loop parent k = Some (r, k')" for parent r k'
  proof -
    from wait_loop_zombie [OF wait] obtain i where
      "first_index (\<lambda>p. father_pid p = parent \<and> pstate p = ZOMBIE) (pcblist k) = Some i" by auto
    with wait assms show ?thesis
      by (subst (asm) wait_loop.simps) (auto intro: files_inv_update_pcb)
  qed
  with assms show ?thesis by (auto simp: sys_wait_def Let_def on_result_def)
qed

lemma close_fd_files: "files_inv k \<Longrightarrow> files_inv (close_fd i j k)"
  by (auto simp: close_fd_def Let_def files_inv_updates intro!: files_inv_update_pcb fds_ok_update)

lemma sys_exit_files:
  assumes "files_inv k"
  shows "on_result (\<lambda>(c, k). files_inv k) (sys_exit k)"
proof -
  have "files_inv (fold (close_fd i) ns k1)" if "files_inv k1" for i ns k1
    by (rule fold_invariant [where Q = "\<lambda>_. True"]) (simp_all add: that close_fd_files)
  with assms show ?thesis
    unfolding sys_exit_def Let_def
    by (intro on_result_intros)
       (auto simp: files_inv_updates intro!: files_inv_updates(10) files_inv_update_pcb dest!: first_index_SomeD
          simp del: upt_Suc upt_rec_numeral)
qed

section \<open>Interrupts\<close>

lemma do_timer_handler_files:
  assumes "files_inv k"
  shows "on_result (\<lambda>(out, k). files_inv k) (do_timer_handler ptr k)"
  unfolding do_timer_handler_def Let_def
  by (intro on_result_intros)
     (use assms in \<open>auto simp: files_inv_updates intro!: files_inv_updates(10) files_inv_update_pcb
        dest!: first_index_SomeD dest: print_k_files\<close>)

lemma do_page_fault_files: "files_inv k \<Longrightarrow> on_result files_inv (do_page_fault ptr k)"
  unfolding do_page_fault_def Let_def
  by (auto simp: on_result_def split: bind_splits if_splits) (assumption | erule print_k_files)+

lemma general_intr_handler_files: "files_inv k \<Longrightarrow> on_result files_inv (general_intr_handler names ptr k)"
  unfolding general_intr_handler_def Let_def
  by (auto simp: on_result_def split: bind_splits if_splits) (assumption | erule print_k_files)+

lemma files_inv_interrupt:
  assumes inv: "files_inv k" and int: "interrupt_assign names scancode lo ptr k = Some (out, ptr', k')"
  shows "files_inv k'"
proof -
  have same: "files_inv k'" if "result_files y" "y = Some (r, k')" for y r
    using that by (auto dest: on_resultD)
  note int = int [unfolded interrupt_assign_def Let_def]
  consider (call) "inter_no ptr = 0x80" | (timer) "inter_no ptr = 0x20" | (keyboard) "inter_no ptr = 0x21"
    | (fault) "inter_no ptr = 14" | (other) "inter_no ptr \<notin> {0x80, 0x20, 0x21, 14}" by auto
  then show ?thesis
  proof cases
    case call
    with int obtain f where f: "map_of sys_call_table (i_eax ptr) = Some f" "f lo ptr k = Some (out, ptr', k')"
      by (auto split: option.splits)
    then show ?thesis
      unfolding sys_call_table_def
      using same [OF sys_read_files [OF inv]] same [OF sys_write_files [OF inv]] same [OF sys_open_files [OF inv]]
        same [OF sys_close_files [OF inv]] same [OF sys_creat_files [OF inv]] same [OF sys_clear_files [OF inv]]
        same [OF sys_fork_files [OF inv]] same [OF sys_wait_files [OF inv]]
        on_resultD [OF sys_exit_files [OF inv]] on_resultD [OF sys_execve_files [OF inv]]
      by (auto split: if_splits prod.splits)
  next
    case timer
    with int on_resultD [OF do_timer_handler_files [OF inv]] show ?thesis by fastforce
  next
    case keyboard
    with int inv show ?thesis by (auto simp: files_inv_updates split: bind_splits)
  next
    case fault
    with int on_resultD [OF do_page_fault_files [OF inv]] show ?thesis by auto
  next
    case other
    with int on_resultD [OF general_intr_handler_files [OF inv]] show ?thesis by auto
  qed
qed

section \<open>Reachable states\<close>

lemma files_inv_init:
  assumes "length (pcblist k0) = PCB_MAX" and "length (fileList k0) = FILE_MAX_INSYS"
    and "lock_value (video_lock k0) = 0"
  shows "files_inv (init_pcb pagedir k0)"
proof -
  have "fds_ok (replicate FILE_MAX_InPROCESS closed_fd)"
    by (auto simp: fds_ok_def closed_fd_def)
  then show ?thesis
    using assms
    by (auto simp: files_inv_def init_pcb_def Let_def update_pcb_def dest!: subsetD [OF set_update_subset_insert])
qed

interpretation files: step_invariant files_inv
  by unfold_locales (blast elim: kernel_stepE intro: files_inv_interrupt)

section \<open>Handling to the end\<close>

text \<open>What printing leaves of the state, as an equation, with the video lock free.\<close>

definition printed :: "u8 list \<Rightarrow> kernel \<Rightarrow> kernel" where
  "printed text k = k\<lparr>video_lock := release (video_lock k), scr := the (print_loop (scr k) text)\<rparr>"

lemma printed_simps [simp]:
  "pcblist (printed text k) = pcblist k" "nextpid (printed text k) = nextpid k"
  "current_process (printed text k) = current_process k" "fileList (printed text k) = fileList k"
  "kmem (printed text k) = kmem k" "free_list (printed text k) = free_list k" "kdisk (printed text k) = kdisk k"
  "lock_value (video_lock (printed text k)) = 0"
  by (simp_all add: printed_def release_def)

lemma print_k_printed:
  assumes "lock_value (video_lock k) = 0"
  shows "print_k str k = Some (printed (cstring str) k)"
  using print_ends [OF assms zero_in_cstring(1) [of str], of "scr k"] 
  by (auto simp: print_k_def printed_def print_def release_def assms split: bind_splits)

lemma printn_k_printed:
  assumes "lock_value (video_lock k) = 0"
  shows "printn_k n k = Some (printed (num2ascii n) k)"
  using print_ends [OF assms zero_in_cstring(2) [of n], of "scr k"]
  by (auto simp: printn_k_def printn_def printed_def print_def release_def assms split: bind_splits)

lemma sys_clear_lock:
  "lock_value (video_lock k) = 0 \<Longrightarrow> \<exists>l s. lock_value l = 0 \<and> sys_clear k = Some (0, k\<lparr>video_lock := l, scr := s\<rparr>)"
  by (simp add: sys_clear_def clear_screen_def release_def Let_def del: upt_Suc upt_rec_numeral)
     (metis lock.select_convs(1) lock.surjective lock.update_convs(1))

lemma do_timer_handler_returns:
  assumes "lock_value (video_lock k) = 0"
  shows "do_timer_handler ptr k \<noteq> None"
  by (simp add: do_timer_handler_def Let_def print_k_printed printn_k_printed assms split: option.split)

lemma sys_fork_returns:
  assumes "table_ok k" and "\<exists>p \<in> set (pcblist k). pstate p = FREE"
  shows "sys_fork ptr k \<noteq> None"
  using allocProcess_fresh [OF shapeD(1,3,4) [OF table_okD(1) [OF assms(1)]] assms(2)]
  by (auto simp: sys_fork_def Let_def split: option.split)

lemma printing_returns:
  assumes "lock_value (video_lock k) = 0"
  shows "do_page_fault ptr k \<noteq> None" and "sys_clear k \<noteq> None"
    and "unat (inter_no ptr) < length names \<Longrightarrow> general_intr_handler names ptr k \<noteq> None"
proof -
  have "f k \<noteq> None" if "prints f" for f using printsD [OF that assms] by auto
  then show "do_page_fault ptr k \<noteq> None"
    "unat (inter_no ptr) < length names \<Longrightarrow> general_intr_handler names ptr k \<noteq> None"
    by (blast intro: do_page_fault_prints general_intr_handler_prints)+
  show "sys_clear k \<noteq> None" using sys_clear_lock [OF assms] by auto
qed

end
