(* ===== verification/Loader.thy ===== *)
theory Loader
  imports PhysMem Disk
begin

text \<open>
  Loading ELF files sector by sector: the boot loader (\<open>loader.c\<close>), which loads the kernel before
  paging is on, and \<open>load_process\<close> with the kernel's copy of \<open>read_seg\<close> (\<open>diskload.c\<close>).  The routine
  that reads one sector is the argument \<open>rs\<close>: \<open>read_sector\<close> of \<open>read_sector.s\<close> in the one,
  \<open>k_readsector\<close> in the other.
\<close>

abbreviation KERNEL_SECTOR :: u32 where "KERNEL_SECTOR \<equiv> 6"

text \<open>The loop of \<open>read_seg\<close>: \<open>None\<close> if it never ends.\<close>

partial_function (option) read_seg_loop ::
  "(u32 \<Rightarrow> u8 list) \<Rightarrow> u32 \<Rightarrow> u32 \<Rightarrow> u32 \<Rightarrow> mem \<Rightarrow> mem option" where
  "read_seg_loop rs target_location target_end sector m =
     (if target_location < target_end
      then read_seg_loop rs (target_location + of_nat SECTOR_SIZE) target_end (sector + 1)
             (mem_write m target_location (rs sector))
      else Some m)"

definition read_seg :: "(u32 \<Rightarrow> u8 list) \<Rightarrow> u32 \<Rightarrow> u32 \<Rightarrow> u32 \<Rightarrow> u32 \<Rightarrow> mem \<Rightarrow> mem option" where
  "read_seg rs target_location sz start_sector offset m =
     (let sector = start_sector + offset div of_nat SECTOR_SIZE;
          target_location = target_location - offset mod of_nat SECTOR_SIZE;
          target_end = target_location + sz
      in read_seg_loop rs target_location target_end sector m)"

section \<open>The boot loader\<close>

text \<open>The loop over the program headers, at physical addresses; \<open>eh\<close> and \<open>ph\<close> are addresses.\<close>

function loader_segments :: "(u32 \<Rightarrow> u8 list) \<Rightarrow> u32 \<Rightarrow> u32 \<Rightarrow> nat \<Rightarrow> mem \<Rightarrow> mem option" where
  "loader_segments rs eh ph i m =
     (if i < unat (e_phnum (elf_at m eh)) then do {
        m \<leftarrow> (let h = ph_at m ph in
              if p_type h = LOAD_SEG
              then read_seg rs (VIR_2_PHY (p_vaddr h)) (p_filesize h) KERNEL_SECTOR (p_offset h) m
              else Some m);
        loader_segments rs eh (ph + of_nat sizeof_program_header) (i + 1) m
      } else Some m)"
  by pat_completeness auto
termination
proof (relation "measure (\<lambda>(rs, eh, ph, i, m). 2 ^ 16 - i)", goal_cases)
  case 1
  show ?case by simp
next
  case (2 rs eh ph i m m')
  then show ?case
    using unsigned_less [of "e_phnum (elf_at m eh)", where 'a = nat] by simp
qed

declare loader_segments.simps [simp del]

text \<open>The entry point it jumps to; the inner \<open>None\<close> is its \<open>return\<close> for a file that is no ELF file.\<close>

definition loader_main :: "(u32 \<Rightarrow> u8 list) \<Rightarrow> mem \<Rightarrow> (u32 option \<times> mem) option" where
  "loader_main rs m =
     (let eh = 0x9000 in do {
        m \<leftarrow> read_seg rs eh (of_nat PAGESIZE) KERNEL_SECTOR 0 m;
        if magic (elf_at m eh) \<noteq> ELF_MAGIC then Some (None, m)
        else do {
          let ph = eh + e_phoff (elf_at m eh);
          m \<leftarrow> loader_segments rs eh ph 0 m;
          Some (Some (VIR_2_PHY (e_entry (elf_at m eh))), m)
        }
      })"

section \<open>Loading a process\<close>

function load_process_loop :: "(u32 \<Rightarrow> u8 list) \<Rightarrow> u32 \<Rightarrow> u32 \<Rightarrow> u32 \<Rightarrow> u32 \<Rightarrow> nat \<Rightarrow> mem \<Rightarrow> mem option" where
  "load_process_loop rs sector elfHeader programHeader destpos i m =
     (if i < unat (e_phnum (elf_at m elfHeader)) then do {
        (m, destpos) \<leftarrow> (let h = ph_at m programHeader in
              if p_type h = LOAD_SEG
              then do {
                m \<leftarrow> read_seg rs destpos (p_filesize h) sector (p_offset h) m;
                Some (m, destpos + p_memsize (ph_at m programHeader))
              } else Some (m, destpos));
        load_process_loop rs sector elfHeader (programHeader + of_nat sizeof_program_header) destpos (i + 1) m
      } else Some m)"
  by pat_completeness auto
termination
proof (relation "measure (\<lambda>(rs, sector, eh, ph, dest, i, m). 2 ^ 16 - i)", goal_cases)
  case 1
  show ?case by simp
next
  case (2 rs sector eh ph dest i m x m' dest')
  then show ?case
    using unsigned_less [of "e_phnum (elf_at m eh)", where 'a = nat] by simp
qed

declare load_process_loop.simps [simp del]

definition load_process :: "(u32 \<Rightarrow> u8 list) \<Rightarrow> u32 \<Rightarrow> u32 \<Rightarrow> mem \<Rightarrow> (u32 \<times> mem) option" where
  "load_process rs destpos sector m =
     (let elfHeader = destpos + of_nat PAGESIZE in do {
        m \<leftarrow> read_seg rs elfHeader (of_nat PAGESIZE) sector 0 m;
        if magic (elf_at m elfHeader) \<noteq> ELF_MAGIC then Some (-1, m)
        else do {
          let programHeader = elfHeader + e_phoff (elf_at m elfHeader);
          m \<leftarrow> load_process_loop rs sector elfHeader programHeader destpos 0 m;
          Some (e_entry (elf_at m elfHeader), m)
        }
      })"

section \<open>Lemmas\<close>

text \<open>Byte \<open>i\<close> of a file whose sectors follow each other.\<close>

definition sector_byte :: "(u32 \<Rightarrow> u8 list) \<Rightarrow> u32 \<Rightarrow> nat \<Rightarrow> u8" where
  "sector_byte rs start i = rs (start + of_nat (i div SECTOR_SIZE)) ! (i mod SECTOR_SIZE)"

lemma nth_concat_sectors:
  assumes "\<And>s. length (rs s) = SECTOR_SIZE" and "k < SECTOR_SIZE * n"
  shows "concat (map (\<lambda>i. rs (s + of_nat i)) [0..<n]) ! k = sector_byte rs s k"
  using assms(2)
proof (induction n)
  case (Suc n)
  have len: "length (concat (map (\<lambda>i. rs (s + of_nat i)) [0..<n])) = SECTOR_SIZE * n"
    by (induction n) (simp_all add: assms(1))
  show ?case
  proof (cases "k < SECTOR_SIZE * n")
    case True
    with Suc.IH len show ?thesis by (simp add: nth_append)
  next
    case False
    with Suc.prems have d: "k div SECTOR_SIZE = n" by (intro div_nat_eqI) simp_all
    then have "k mod SECTOR_SIZE = k - SECTOR_SIZE * n" by (simp only: modulo_nat_def)
    with False d len show ?thesis by (simp add: nth_append sector_byte_def)
  qed
qed simp

lemma sector_byte_shift: "sector_byte rs (start + of_nat q) k = sector_byte rs start (SECTOR_SIZE * q + k)"
  by (simp add: sector_byte_def add.assoc)

lemma read_seg_loop_sectors:
  assumes "\<And>s. length (rs s) = SECTOR_SIZE"
  shows "unat end \<le> unat p + SECTOR_SIZE * n \<Longrightarrow> unat p + SECTOR_SIZE * n < unat end + SECTOR_SIZE \<Longrightarrow>
    unat p + SECTOR_SIZE * n < 2 ^ 32 \<Longrightarrow>
    read_seg_loop rs p end s m = Some (mem_write m p (concat (map (\<lambda>i. rs (s + of_nat i)) [0..<n])))"
proof (induction n arbitrary: p s m)
  case 0
  then have "\<not> p < end" by (simp add: word_less_nat_alt)
  then show ?case by (subst read_seg_loop.simps) simp
next
  case (Suc n)
  let ?p = "p + of_nat SECTOR_SIZE"
  have p: "unat ?p = unat p + SECTOR_SIZE"
    using Suc.prems by (subst unat_add_small) simp_all
  from Suc.prems have "p < end" by (simp add: word_less_nat_alt)
  moreover have "read_seg_loop rs ?p end (s + 1) (mem_write m p (rs s)) =
      Some (mem_write (mem_write m p (rs s)) ?p (concat (map (\<lambda>i. rs (s + 1 + of_nat i)) [0..<n])))"
    using Suc.prems p by (intro Suc.IH) simp_all
  moreover have "map (\<lambda>i. rs (s + of_nat i)) [0..<Suc n] = rs s # map (\<lambda>i. rs (s + 1 + of_nat i)) [0..<n]"
    by (simp add: upt_conv_Cons map_Suc_upt [symmetric] add.commute add.left_commute del: upt_Suc map_Suc_upt)
  ultimately show ?case
    by (subst read_seg_loop.simps) (simp add: mem_write_append assms del: upt_Suc)
qed

section \<open>Properties\<close>

text \<open>
  C39: \<open>read_seg\<close> for \<open>size\<close> bytes of a file from \<open>offset\<close>: with \<open>r = offset mod 512\<close> it reads
  \<open>n = size / 512\<close> sectors, rounded up, the first one to \<open>r\<close> bytes before the target.  So the first
  \<open>512 n - r\<close> bytes of the file from \<open>offset\<close> on are at the target, which are fewer than \<open>size\<close> when the
  last sector does not hold \<open>r\<close> spare bytes; the \<open>r\<close> bytes before the target are overwritten with
  the start of the sector, and nothing else changes.
\<close>

theorem read_seg_correct:
  assumes "\<And>s. length (rs s) = SECTOR_SIZE" and r: "r = unat offset mod SECTOR_SIZE"
    and n: "n = (unat sz + SECTOR_SIZE - 1) div SECTOR_SIZE"
    and "r \<le> unat target" and "unat target + SECTOR_SIZE * n < 2 ^ 32"
  shows "\<exists>m'. read_seg rs target sz start offset m = Some m' \<and>
    (\<forall>i. i + r < SECTOR_SIZE * n \<longrightarrow> m' (target + of_nat i) = sector_byte rs start (unat offset + i)) \<and>
    (\<forall>i < r. 0 < n \<longrightarrow> m' (target - of_nat r + of_nat i) = sector_byte rs start (unat offset - r + i)) \<and>
    (\<forall>a. SECTOR_SIZE * n \<le> unat (a - (target - of_nat r)) \<longrightarrow> m' a = m a)"
proof -
  let ?p = "target - of_nat r"
  define S where "S = start + offset div of_nat SECTOR_SIZE"
  let ?bs = "concat (map (\<lambda>i. rs (S + of_nat i)) [0..<n])"
  have "unat (offset mod of_nat SECTOR_SIZE) = r" "unat (offset div of_nat SECTOR_SIZE) = unat offset div SECTOR_SIZE"
    unfolding r by (simp_all add: unat_mod unat_div)
  from this [THEN arg_cong, of "of_nat :: nat \<Rightarrow> u32"]
  have mod: "offset mod of_nat SECTOR_SIZE = of_nat r" "offset div of_nat SECTOR_SIZE = of_nat (unat offset div SECTOR_SIZE)"
    by simp_all
  have r512: "r < SECTOR_SIZE" unfolding r by simp
  then have ur: "unat (of_nat r :: u32) = r" by (intro unat_of_nat32) simp
  with assms(4) have p: "unat ?p = unat target - r" by (subst unat_sub) (simp_all add: word_le_nat_alt)
  have sz: "unat sz \<le> SECTOR_SIZE * n" "SECTOR_SIZE * n < unat sz + SECTOR_SIZE" unfolding n by simp_all
  have e: "unat (?p + sz) = unat ?p + unat sz"
    using p sz assms(5) by (intro unat_add_small) simp
  have run: "read_seg rs target sz start offset m = Some (mem_write m ?p ?bs)"
    unfolding read_seg_def Let_def mod(1) S_def [symmetric]
    using assms(5) p sz e by (intro read_seg_loop_sectors [OF assms(1)]) simp_all
  have len: "length ?bs = SECTOR_SIZE * n" by (induction n) (simp_all add: assms(1))
  have at: "mem_write m ?p ?bs a = (if unat (a - ?p) < SECTOR_SIZE * n
      then sector_byte rs S (unat (a - ?p)) else m a)" for a
    using assms(5) nth_concat_sectors [where rs = rs and k = "unat (a - ?p)" and n = n and s = S, OF assms(1)]
    by (subst mem_write_apply) (simp_all add: len)
  have off: "unat offset = SECTOR_SIZE * (unat offset div SECTOR_SIZE) + r" unfolding r by simp
  then have base: "SECTOR_SIZE * (unat offset div SECTOR_SIZE) = unat offset - r" by linarith
  have byte: "sector_byte rs S k = sector_byte rs start (unat offset - r + k)" for k
    unfolding S_def mod(2) sector_byte_shift base ..
  have dist: "unat (target + of_nat i - ?p) = r + i" if "i + r < SECTOR_SIZE * n" for i
  proof -
    have "target + of_nat i - ?p = of_nat (r + i)" by (simp add: algebra_simps)
    moreover have "unat (of_nat (r + i) :: u32) = r + i" using that assms(5) by (intro unat_of_nat32) simp
    ultimately show ?thesis by metis
  qed
  have dist': "unat (?p + of_nat i - ?p) = i" if "i < r" for i
    using that r512 by (simp add: unat_of_nat32)
  have "r < SECTOR_SIZE * n" if "0 < n" using that r512 by (cases n) simp_all
  then show ?thesis
    unfolding run using dist dist' off by (auto simp: at byte algebra_simps)
qed

theorem read_seg_correct_witness:
  "\<exists>m'. read_seg (\<lambda>s. replicate 512 (ucast s)) 0xa000 1000 10 600 (\<lambda>_. 0xff) = Some m' \<and>
     m' (0xa000 + of_nat 0) = 11 \<and> m' (0xa000 + of_nat 424) = 12 \<and> m' (0xa000 + of_nat 936) = 0xff"
proof -
  let ?rs = "\<lambda>s :: u32. replicate 512 (ucast s :: u8)"
  have "unat (600 :: u32) mod SECTOR_SIZE = 88" "(unat (1000 :: u32) + SECTOR_SIZE - 1) div SECTOR_SIZE = 2"
    by simp_all
  from read_seg_correct [of ?rs 88 600 2 1000 "0xa000" 10 "\<lambda>_. 0xff", OF _ this [symmetric]]
  obtain m' where m': "read_seg ?rs 0xa000 1000 10 600 (\<lambda>_. 0xff) = Some m'"
    "\<And>i. i + 88 < 1024 \<Longrightarrow> m' (0xa000 + of_nat i) = sector_byte ?rs 10 (600 + i)"
    "\<And>a. 1024 \<le> unat (a - (0xa000 - of_nat 88)) \<Longrightarrow> m' a = 0xff"
    by auto
  from m'(2) [of 0] m'(2) [of 424] m'(3) [of "0xa000 + of_nat 936"] m'(1) show ?thesis
    by (simp add: sector_byte_def)
qed

end
