(* ===== verification/Boot.thy ===== *)
theory Boot
  imports Descriptors Loader
begin

text \<open>
  Start-up: \<open>entry.c\<close>, which builds the kernel's page tables before paging is on and fills the
  descriptor table; \<open>task.c\<close>, the task state segment; and \<open>main.c\<close>, the order of initialisation
  and the switch to user mode.  Register loads (\<open>cr3\<close>, \<open>gdtr\<close>, \<open>tr\<close>, \<open>esp\<close>) and \<open>iret\<close> are assembly:
  the values they are given are results here.
\<close>

abbreviation PAGE_STRUCT_ENTRIES :: nat where "PAGE_STRUCT_ENTRIES \<equiv> 1024"

section \<open>Page tables\<close>

text \<open>
  The inner loop of \<open>entry\<close> for directory entry \<open>i\<close>, at physical addresses; \<open>goto done\<close> ends it when
  the frame lies above the end of memory.
\<close>

function entry_table :: "u32 \<Rightarrow> nat \<Rightarrow> nat \<Rightarrow> mem \<Rightarrow> mem" where
  "entry_table table i j m =
     (if j < 1024 then
        let phyaddr_base = (i - 768) * 2 ^ 22 + j * 2 ^ 12 in
        if unat PHY_SIZE < phyaddr_base then m
        else entry_table table i (j + 1)
               (store32 m (table + 4 * of_nat j) (of_nat phyaddr_base + PAGE_P + PAGE_RW + PAGE_S))
      else m)"
  by pat_completeness auto
termination by (relation "measure (\<lambda>(t, i, j, m). 1024 - j)") auto

declare entry_table.simps [simp del]

definition entry_row :: "u32 \<Rightarrow> u32 \<Rightarrow> nat \<Rightarrow> mem \<Rightarrow> mem" where
  "entry_row pagedir_phyaddr pagetables_phyaddr i m =
     (let table = pagetables_phyaddr + of_nat (4096 * (i - 768));
          pde = table + PAGE_S + PAGE_RW + PAGE_P
      in entry_table table i 0 (store32 m (pagedir_phyaddr + 4 * of_nat i) pde))"

text \<open>Steps 1 to 4; the arguments are the addresses of the two arrays, the result includes \<open>cr3\<close>.\<close>

definition entry_pages :: "u32 \<Rightarrow> u32 \<Rightarrow> mem \<Rightarrow> u32 \<times> mem" where
  "entry_pages pagedir pagetables m =
     (let pagedir_phyaddr = VIR_2_PHY pagedir;
          pagetables_phyaddr = VIR_2_PHY pagetables;
          m = fold (entry_row pagedir_phyaddr pagetables_phyaddr) [768..<1024] m;
          m = store32 m pagedir_phyaddr (load32 m (pagedir_phyaddr + 4 * 768))
      in (pagedir_phyaddr OR 0, m))"

section \<open>Segments\<close>

record global_descriptor =
  limit :: u16
  base_low :: u16
  base_mid :: u8
  attr_low :: u8
  attr_high :: u8
  base_high :: u8

record gdtr_structure =
  gdt_size :: u16
  gdt_addr_low :: u16
  gdt_addr_high :: u16

definition entry_gdt :: "u32 \<Rightarrow> global_descriptor list \<Rightarrow> global_descriptor list \<times> gdtr_structure" where
  "entry_gdt gdt_addr gdt =
     (let gdt = gdt[0 := \<lparr>limit = 0, base_low = 0, base_mid = 0, attr_low = 0, attr_high = 0, base_high = 0\<rparr>];
          gdt = gdt[1 := \<lparr>limit = 0xffff, base_low = 0, base_mid = 0, attr_low = 0x9a, attr_high = 0xcf, base_high = 0\<rparr>];
          gdt = gdt[2 := \<lparr>limit = 0xffff, base_low = 0, base_mid = 0, attr_low = 0x92, attr_high = 0xcf, base_high = 0\<rparr>];
          gdt = gdt[3 := \<lparr>limit = 0xffff, base_low = 0, base_mid = 0, attr_low = 0xfa, attr_high = 0xcf, base_high = 0\<rparr>];
          gdt = gdt[4 := \<lparr>limit = 0xffff, base_low = 0, base_mid = 0, attr_low = 0xf2, attr_high = 0xcf, base_high = 0\<rparr>]
      in (gdt, \<lparr>gdt_size = 6 * 8 - 1, gdt_addr_low = ucast (gdt_addr AND 0x0000ffff),
                gdt_addr_high = ucast (drop_bit 16 (gdt_addr AND 0xffff0000))\<rparr>))"

abbreviation KDATA_SELECTOR :: u16 where "KDATA_SELECTOR \<equiv> 0x10"
abbreviation UCODE_SELECTOR :: u16 where "UCODE_SELECTOR \<equiv> 0x1b"
abbreviation UDATA_SELECTOR :: u16 where "UDATA_SELECTOR \<equiv> 0x23"
abbreviation TSS_SELECTOR :: u16 where "TSS_SELECTOR \<equiv> 0x28"
abbreviation TSS_ATTR_LOW :: u8 where "TSS_ATTR_LOW \<equiv> 0x89"
abbreviation TSS_ATTR_HIGH :: u8 where "TSS_ATTR_HIGH \<equiv> 0xc0"
abbreviation sizeof_task_struct :: u32 where "sizeof_task_struct \<equiv> 104"

record task_struct =
  t_link :: u32
  t_esp0 :: u32
  t_ss0 :: u16
  t_esp1 :: u32
  t_ss1 :: u16
  t_esp2 :: u32
  t_ss2 :: u16
  t_cr3 :: u32
  t_eip :: u32
  t_eflags :: u32
  t_eax :: u32
  t_ecx :: u32
  t_edx :: u32
  t_ebx :: u32
  t_esp :: u32
  t_ebp :: u32
  t_esi :: u32
  t_edi :: u32
  t_es :: u16
  t_cs :: u16
  t_ss :: u16
  t_ds :: u16
  t_fs :: u16
  t_gs :: u16
  t_ldt :: u16
  t_t :: u16
  t_iomb :: u16

text \<open>\<open>tss_base\<close>, \<open>pagedir\<close> and \<open>stack\<close> are the addresses of the variables.\<close>

definition init_tss ::
  "u32 \<Rightarrow> u32 \<Rightarrow> u32 \<Rightarrow> task_struct \<Rightarrow> global_descriptor list \<Rightarrow> kernel
     \<Rightarrow> (task_struct \<times> global_descriptor list \<times> kernel) option" where
  "init_tss tss_base pagedir stack tss gdt k = do {
     k \<leftarrow> print_k ''Initial TSS!\<newline>'' k;
     let tss = tss\<lparr>t_cr3 := VIR_2_PHY pagedir, t_ss0 := KDATA_SELECTOR, t_cs := KCODE_SELECTOR,
                   t_ds := KDATA_SELECTOR\<rparr>;
     let tss = tss\<lparr>t_gs := t_ds tss, t_fs := t_ds tss, t_es := t_ds tss\<rparr>;
     let tss = tss\<lparr>t_esp0 := stack + 4 * 1024\<rparr>;
     let tss_descriptor =
       \<lparr>limit = ucast ((sizeof_task_struct - 1) AND 0x0000ffff),
        base_low = ucast (tss_base AND 0x0000ffff),
        base_mid = ucast (drop_bit 16 (tss_base AND 0x00ff0000)),
        attr_low = TSS_ATTR_LOW, attr_high = TSS_ATTR_HIGH,
        base_high = ucast (drop_bit 24 (tss_base AND 0xff000000))\<rparr>;
     let tss_index = unat (drop_bit 3 (TSS_SELECTOR AND 0xf8));
     let gdt = gdt[tss_index := tss_descriptor];
     k \<leftarrow> print_k ''Init_tss done!\<newline>'' k;
     Some (tss, gdt, k)
   }"

section \<open>The switch to user mode\<close>

record iret_param =
  ir_eip :: u32
  ir_cs :: u16
  ir_eflags :: u32
  ir_esp :: u32
  ir_ss :: u16

text \<open>\<open>iret_addr\<close> is its own return address in \<open>main\<close>; the result is what \<open>iret\<close> pops.\<close>

definition set_user :: "u32 \<Rightarrow> nat \<Rightarrow> mem \<Rightarrow> mem" where
  "set_user table i m =
     (let pte = table + 4 * of_nat i
      in store_pte m pte ((load_pte m pte)\<lparr>pt_privilege := ucast PAGE_PRIVILEGE_USER\<rparr>))"

definition switch_to_user :: "u32 \<Rightarrow> u32 \<Rightarrow> kernel \<Rightarrow> iret_param \<times> kernel" where
  "switch_to_user iret_addr eflags k =
     (let (page_table_ptr, s) = alloc_page (pool k);
          pde = p_pagedir (current_pcb k);
          first_table = PHY_2_VIR (push_bit 12 (ucast (pd_address (load_pde (fst s) pde))));
          m = memcopy (fst s) first_table page_table_ptr PAGESIZE;
          m = fold (set_user page_table_ptr) [0..<1024] m;
          m = store_pde m pde (generate_page_dir_item (load_pde m pde) (VIR_2_PHY page_table_ptr)
                PAGE_PRIVILEGE_USER);
          (stack_page_ptr, s) = alloc_page (m, snd s);
          s = page_map pde (USER_STACK_START AND 0xfffff000) (VIR_2_PHY stack_page_ptr) PAGE_PRIVILEGE_USER s
      in (\<lparr>ir_eip = iret_addr - 0xc0000000, ir_cs = UCODE_SELECTOR, ir_eflags = eflags,
           ir_esp = USER_STACK_START, ir_ss = UDATA_SELECTOR\<rparr>, set_pool s k))"

section \<open>The order of initialisation\<close>

definition init_file ::
  "(nat \<Rightarrow> u8 list) \<Rightarrow> (nat \<Rightarrow> u8 list) \<Rightarrow> super_block \<Rightarrow> (nat \<Rightarrow> inode) \<Rightarrow> kernel \<Rightarrow> kernel option" where
  "init_file stk stks sb0 ins k = do {
     k \<leftarrow> print_k ''Initial FILE SYSTEM!\<newline>'' k;
     d \<leftarrow> init_file_disk (kdisk k) stk stks sb0 ins;
     let k = k\<lparr>kdisk := d, fileList := init_openFileList (fileList k)\<rparr>;
     print_k ''Initial_fileSYS Done!\<newline>'' k
   }"

text \<open>
  \<open>main\<close> up to the switch: the addresses of variables and of its own code after the switch, the stack
  bytes that \<open>init_file\<close> leaves on the disk, and everything it initialises.  The messages of
  \<open>init_memory\<close> and \<open>init_pcb\<close> are printed here.
\<close>

record link_addresses =
  addr_pagedir :: u32
  addr_idt :: u32
  addr_tss :: u32
  addr_stack :: u32
  addr_user_main :: u32

record stack_bytes =
  st_block :: "nat \<Rightarrow> u8 list"
  st_inodes :: "nat \<Rightarrow> u8 list"
  st_super :: super_block
  st_inode :: "nat \<Rightarrow> inode"

record machine =
  m_kernel :: kernel
  m_tables :: intr_tables
  m_tss :: task_struct
  m_gdt :: "global_descriptor list"

definition main_init ::
  "'d ports \<Rightarrow> handlers \<Rightarrow> link_addresses \<Rightarrow> stack_bytes \<Rightarrow> u32 \<Rightarrow> 'd \<Rightarrow> machine
     \<Rightarrow> (iret_param \<times> 'd \<times> machine) option" where
  "main_init io h ad stk eflags d mc = do {
     (_, k) \<leftarrow> sys_clear (m_kernel mc);
     k \<leftarrow> print_k ''Kernel is working!\<newline>'' k;
     k \<leftarrow> print_k ''Initial memory!\<newline>'' k;
     s \<leftarrow> init_memory (kmem k);
     let k = set_pool s k;
     k \<leftarrow> print_k ''Init_memory done!\<newline>'' k;
     (d, k) \<leftarrow> init_pic io d k;
     (tables, k) \<leftarrow> init_interrupt h (addr_idt ad) (m_tables mc) k;
     (tss, gdt, k) \<leftarrow> init_tss (addr_tss ad) (addr_pagedir ad) (addr_stack ad) (m_tss mc) (m_gdt mc) k;
     k \<leftarrow> init_file (st_block stk) (st_inodes stk) (st_super stk) (st_inode stk) k;
     k \<leftarrow> print_k ''Initial PCB!\<newline>'' k;
     let k = init_pcb (addr_pagedir ad) k;
     k \<leftarrow> print_k ''Initial_pcb Done!\<newline>'' k;
     let (frame, k) = switch_to_user (addr_user_main ad) eflags k;
     Some (frame, d, \<lparr>m_kernel = k, m_tables = tables, m_tss = tss, m_gdt = gdt\<rparr>)
   }"

section \<open>Lemmas: the page tables\<close>

definition kernel_table :: "u32 \<Rightarrow> nat \<Rightarrow> u32" where
  "kernel_table pt r = pt + of_nat (4096 * r)"

definition frame_base :: "nat \<Rightarrow> u32 \<Rightarrow> nat" where
  "frame_base r k = r * 2 ^ 22 + unat k * 2 ^ 12"

lemma entry_table_load:
  assumes t: "page_aligned t" and q: "page_aligned q" and k: "unat k < 1024"
  shows "load32 (entry_table t i j m) (q + 4 * k) =
    (if q = t \<and> j \<le> unat k \<and> frame_base (i - 768) k \<le> unat PHY_SIZE
     then of_nat (frame_base (i - 768) k) + PAGE_P + PAGE_RW + PAGE_S else load32 m (q + 4 * k))"
proof (induction "1024 - j" arbitrary: j m)
  case 0
  then show ?case using k by (subst entry_table.simps) simp
next
  case (Suc n)
  let ?base = "(i - 768) * 2 ^ 22 + j * 2 ^ 12"
  from Suc.hyps(2) have j: "j < 1024" by simp
  show ?case
  proof (cases "unat PHY_SIZE < ?base")
    case True
    have "?base \<le> frame_base (i - 768) k" if "j \<le> unat k" using that by (simp add: frame_base_def)
    with True have "\<not> (j \<le> unat k \<and> frame_base (i - 768) k \<le> unat PHY_SIZE)" by auto
    with True j show ?thesis by (subst entry_table.simps) auto
  next
    case False
    have jj: "unat (of_nat j :: u32) = j" using j by (intro unat_of_nat32) simp
    have kj: "k = of_nat j \<longleftrightarrow> unat k = j" using jj by (metis of_nat_unat ucast_id)
    let ?m = "store32 m (t + 4 * of_nat j) (of_nat ?base + PAGE_P + PAGE_RW + PAGE_S)"
    have "entry_table t i j m = entry_table t i (j + 1) ?m"
      using j False by (subst entry_table.simps) (simp add: Let_def)
    moreover have "load32 ?m (q + 4 * k) = (if q = t \<and> k = of_nat j then of_nat ?base + PAGE_P + PAGE_RW + PAGE_S
        else load32 m (q + 4 * k))"
      using load_entry_store [OF t q _ k, of "of_nat j" m] jj j by auto
    ultimately show ?thesis
      using Suc.hyps(1) [of "j + 1" ?m] Suc.hyps(2) False kj by (auto simp: frame_base_def)
  qed
qed

lemma kernel_table_props:
  assumes "page_aligned pt"
  shows "page_aligned (kernel_table pt r)"
    and "r < 256 \<Longrightarrow> r' < 256 \<Longrightarrow> kernel_table pt r = kernel_table pt r' \<longleftrightarrow> r = r'"
proof -
  have "4096 dvd (4096 * r) mod 2 ^ 32" by (intro dvd_mod) simp_all
  moreover have "unat (of_nat (4096 * r) :: u32) = (4096 * r) mod 2 ^ 32"
    unfolding unat_of_nat take_bit_eq_mod by simp
  ultimately have "page_aligned (of_nat (4096 * r) :: u32)" by (simp only:)
  with assms have "4096 dvd (unat pt + unat (of_nat (4096 * r) :: u32)) mod 2 ^ 32"
    by (intro dvd_mod dvd_add) simp_all
  then show "page_aligned (kernel_table pt r)"
    by (simp add: kernel_table_def unat_word_ariths)
  show "kernel_table pt r = kernel_table pt r' \<longleftrightarrow> r = r'" if "r < 256" "r' < 256"
  proof -
    have "unat (of_nat (4096 * n) :: u32) = 4096 * n" if "n < 256" for n
      using that by (intro unat_of_nat32) simp
    with that have "(of_nat (4096 * r) :: u32) = of_nat (4096 * r') \<longleftrightarrow> 4096 * r = 4096 * r'"
      by (metis (no_types))
    then show ?thesis by (simp add: kernel_table_def)
  qed
qed

text \<open>One row, then all rows: what the entries of the directory and of the tables hold.\<close>

lemma entry_row_load:
  assumes pd: "page_aligned pd" and pt: "page_aligned pt" and r: "r < 256" and q: "page_aligned q"
    and k: "unat k < 1024" and "pd \<noteq> kernel_table pt r"
  shows "load32 (entry_row pd pt (768 + r) m) (q + 4 * k) =
    (if q = kernel_table pt r then
       if frame_base r k \<le> unat PHY_SIZE then of_nat (frame_base r k) + PAGE_P + PAGE_RW + PAGE_S
       else load32 m (q + 4 * k)
     else if q = pd \<and> unat k = 768 + r then kernel_table pt r + PAGE_S + PAGE_RW + PAGE_P
     else load32 m (q + 4 * k))"
proof -
  note kt = kernel_table_props(1) [OF pt, of r]
  have row: "entry_row pd pt (768 + r) m = entry_table (kernel_table pt r) (768 + r) 0
      (store32 m (pd + 4 * of_nat (768 + r)) (kernel_table pt r + PAGE_S + PAGE_RW + PAGE_P))"
    by (simp add: entry_row_def kernel_table_def Let_def)
  have i: "unat (of_nat (768 + r) :: u32) = 768 + r" using r by (intro unat_of_nat32) simp
  then have ki: "k = of_nat (768 + r) \<longleftrightarrow> unat k = 768 + r" by (metis of_nat_unat ucast_id)
  have "load32 (store32 m (pd + 4 * of_nat (768 + r)) (kernel_table pt r + PAGE_S + PAGE_RW + PAGE_P)) (q + 4 * k) =
      (if pd = q \<and> of_nat (768 + r) = k then kernel_table pt r + PAGE_S + PAGE_RW + PAGE_P else load32 m (q + 4 * k))"
    by (rule load_entry_store [OF pd q _ k]) (use i r in simp)
  then show ?thesis
    unfolding row entry_table_load [OF kt q k] using ki assms(6) by auto
qed

lemma entry_rows_load:
  assumes pd: "page_aligned pd" and pt: "page_aligned pt" and apart: "\<And>r. r < 256 \<Longrightarrow> pd \<noteq> kernel_table pt r"
    and k: "unat k < 1024" and "n \<le> 256"
  shows "load32 (fold (entry_row pd pt) [768..<768 + n] m) (pd + 4 * k) =
      (if 768 \<le> unat k \<and> unat k < 768 + n then kernel_table pt (unat k - 768) + PAGE_S + PAGE_RW + PAGE_P
       else load32 m (pd + 4 * k))"
    and "r < 256 \<Longrightarrow> load32 (fold (entry_row pd pt) [768..<768 + n] m) (kernel_table pt r + 4 * k) =
      (if r < n \<and> frame_base r k \<le> unat PHY_SIZE then of_nat (frame_base r k) + PAGE_P + PAGE_RW + PAGE_S
       else load32 m (kernel_table pt r + 4 * k))"
proof -
  let ?f = "\<lambda>n. fold (entry_row pd pt) [768..<768 + n] m"
  have "[768..<768 + Suc n] = [768..<768 + n] @ [768 + n]" for n
    by (simp only: add_Suc_right upt_Suc_append le_add1)
  then have fold_Suc: "?f (Suc n) = entry_row pd pt (768 + n) (?f n)" for n
    by (simp only: fold_append o_apply fold_simps)
  show "load32 (?f n) (pd + 4 * k) =
      (if 768 \<le> unat k \<and> unat k < 768 + n then kernel_table pt (unat k - 768) + PAGE_S + PAGE_RW + PAGE_P
       else load32 m (pd + 4 * k))"
    using assms(5)
  proof (induction n)
    case (Suc n)
    then have n: "n < 256" by simp
    show ?case
      unfolding fold_Suc entry_row_load [OF pd pt n pd k apart [OF n]]
      using Suc apart [OF n] by auto
  qed auto
  show "load32 (?f n) (kernel_table pt r + 4 * k) =
      (if r < n \<and> frame_base r k \<le> unat PHY_SIZE then of_nat (frame_base r k) + PAGE_P + PAGE_RW + PAGE_S
       else load32 m (kernel_table pt r + 4 * k))" if r: "r < 256"
    using assms(5)
  proof (induction n)
    case (Suc n)
    then have n: "n < 256" by simp
    note q = kernel_table_props(1) [OF pt, of r]
    show ?case
      unfolding fold_Suc entry_row_load [OF pd pt n q k apart [OF n]]
      using Suc apart [OF r] kernel_table_props(2) [OF pt r n] by auto
  qed simp
qed

section \<open>Properties: the kernel's address space\<close>

text \<open>A frame and an offset into it.\<close>

lemma frame_plus_offset:
  assumes "page_aligned b" and "(x :: u32) AND 0xfff = x"
  shows "b OR x = b + x" and "(b + x) AND 0xfffff000 = b" and "entry_word (b + x) pv = entry_word b pv"
proof -
  have b: "bit b n \<Longrightarrow> 12 \<le> n" for n
  proof (rule ccontr)
    assume "bit b n" "\<not> 12 \<le> n"
    then have "bit (take_bit 12 b) n" by (simp add: bit_take_bit_iff)
    moreover have "take_bit 12 b = 0" using assms(1) by (simp only: page_aligned_take_bit)
    ultimately have "bit (0 :: u32) n" by (simp only:)
    then show False by simp
  qed
  have "bit x n \<Longrightarrow> bit (0xfff :: u32) n" for n
    by (metis assms(2) bit_and_iff)
  then have x: "bit x n \<Longrightarrow> n < 12" for n
    unfolding index_masks by (simp add: bit_mask_iff)
  have "b AND x = 0" by (rule bit_word_eqI) (use b x in \<open>auto simp: bit_and_iff dest!: b x\<close>)
  from disjunctive_add_eq_or [OF this] show or: "b OR x = b + x" by simp
  show f: "(b + x) AND 0xfffff000 = b" unfolding or [symmetric] page_mask
    by (rule bit_word_eqI) (auto simp: bit_simps dest: b x)
  have "(b + x) AND NOT (mask 12) = b AND NOT (mask 12)" unfolding or [symmetric]
    by (rule bit_word_eqI) (auto simp: bit_simps dest: x)
  then show "entry_word (b + x) pv = entry_word b pv" by (simp add: entry_word_def)
qed

lemma attributes_entry:
  assumes "page_aligned p"
  shows "p + PAGE_S + PAGE_RW + PAGE_P = entry_word p 0" and "p + PAGE_P + PAGE_RW + PAGE_S = entry_word p 0"
proof -
  have "p + 3 = p OR 3" using frame_plus_offset(1) [OF assms, of 3] by simp
  also have "\<dots> = entry_word p 0"
  proof -
    have "p AND NOT (mask 12) = p" using frame_of_aligned [OF assms] by (simp add: page_mask)
    moreover have "(3 :: u32) = mask 2" by (simp add: mask_eq_exp_minus_1)
    ultimately show ?thesis by (simp add: entry_word_def)
  qed
  finally have "p + 3 = entry_word p 0" .
  then show "p + PAGE_S + PAGE_RW + PAGE_P = entry_word p 0" "p + PAGE_P + PAGE_RW + PAGE_S = entry_word p 0"
    by (simp_all add: add.assoc)
qed

lemma address_split:
  "unat va = 2 ^ 22 * unat (dir_index va) + 2 ^ 12 * unat (table_index va) + unat (va AND 0xfff)"
proof -
  have t: "table_index va = take_bit 10 (drop_bit 12 va)" "va AND 0xfff = take_bit 12 va"
    unfolding table_index_def index_masks by (simp_all add: take_bit_eq_mask)
  have v32: "take_bit 32 (unat va) = unat va"
    using unsigned_less [of va, where 'a = nat] by (simp add: take_bit_nat_eq_self)
  have "unat (dir_index va) = unat va div 2 ^ 22"
    unfolding dir_index_def unsigned_drop_bit_eq by (simp add: drop_bit_eq_div v32)
  moreover have "unat (table_index va) = unat va div 2 ^ 12 mod 2 ^ 10"
    unfolding t unsigned_take_bit_eq unsigned_drop_bit_eq
    by (simp add: v32 drop_bit_eq_div) (simp add: take_bit_eq_mod)
  moreover have "unat (va AND 0xfff) = unat va mod 2 ^ 12"
    unfolding t unsigned_take_bit_eq by (simp add: take_bit_eq_mod)
  moreover have "v = 2 ^ 22 * (v div 2 ^ 22) + 2 ^ 12 * (v div 2 ^ 12 mod 2 ^ 10) + v mod 2 ^ 12" for v :: nat
  proof -
    have "v div 2 ^ 22 = v div 2 ^ 12 div 2 ^ 10" by (simp add: div_mult2_eq [symmetric])
    then have "v div 2 ^ 12 = 2 ^ 10 * (v div 2 ^ 22) + v div 2 ^ 12 mod 2 ^ 10" by simp
    moreover have "w = a * b * y + a * z + r" if "w = a * x + r" "x = b * y + z" for w a b x y z r :: nat
      using that by (simp add: algebra_simps)
    from this [OF mult_div_mod_eq [of "2 ^ 12" v, symmetric] calculation] show ?thesis by simp
  qed
  ultimately show ?thesis by simp
qed

lemma load32_view: "load32 (\<lambda>v. m (VIR_2_PHY v)) p = load32 m (VIR_2_PHY p)"
proof -
  have "mem_read (\<lambda>v. m (VIR_2_PHY v)) p 4 = mem_read m (VIR_2_PHY p) 4"
    by (simp add: mem_read_def VIR_2_PHY_def algebra_simps)
  then show ?thesis by (simp add: load32_def)
qed

lemma frame_base_aligned: "page_aligned (of_nat (frame_base r k) :: u32)"
proof -
  have "frame_base r k = 4096 * (1024 * r + unat k)" by (simp add: frame_base_def)
  with kernel_table_props(1) [of 0 "1024 * r + unat k"] show ?thesis by (simp only: kernel_table_def add_0) simp
qed

text \<open>The walk of one address, from what the two entries hold.\<close>

lemma walk_entries:
  assumes "\<And>r. page_aligned (kt r)" and "r < 256"
    and pde: "load32 m (VIR_2_PHY pagedir + 4 * dir_index va) = entry_word (kt r) 0"
    and pte: "load32 m (kt r + 4 * table_index va) =
      (if frame_base r (table_index va) \<le> unat PHY_SIZE then entry_word (of_nat (frame_base r (table_index va))) 0 else 0)"
    and aligned: "page_aligned (of_nat (frame_base r (table_index va)) :: u32)"
    and pa: "pa = of_nat (frame_base r (table_index va)) + (va AND 0xfff)"
  shows "translate (\<lambda>v. m (VIR_2_PHY v)) pagedir va =
    (if frame_base r (table_index va) \<le> unat PHY_SIZE then Some (pa, entry_word pa 0) else None)"
proof -
  have view: "VIR_2_PHY (p + q) = VIR_2_PHY p + q" for p q by (simp add: VIR_2_PHY_def)
  have "table_at (\<lambda>v. m (VIR_2_PHY v)) pagedir (dir_index va) = Some (PHY_2_VIR (kt r))"
    using frame_of_aligned [OF assms(1), of r]
    by (simp add: table_at_def load32_view view pde entry_word_frame entry_word_present)
  moreover have "(va AND 0xfff) AND 0xfff = va AND 0xfff" by (simp add: and.assoc)
  note frame_plus_offset [OF aligned this]
  ultimately show ?thesis
    using frame_of_aligned [OF aligned]
    by (simp add: translate_def load32_view view pte entry_word_frame entry_word_present pa)
qed

lemma entry_pages_load:
  assumes "page_aligned pagedir" and "page_aligned pagetables"
    and apart': "\<forall>r < 256. VIR_2_PHY pagedir \<noteq> kernel_table (VIR_2_PHY pagetables) r"
    and zero: "\<forall>k. unat k < 1024 \<longrightarrow> load32 m (VIR_2_PHY pagedir + 4 * k) = 0"
      "\<forall>r < 256. \<forall>k. unat k < 1024 \<longrightarrow> load32 m (kernel_table (VIR_2_PHY pagetables) r + 4 * k) = 0"
    and entry: "entry_pages pagedir pagetables m = (pdbr, m')"
  shows "pdbr = VIR_2_PHY pagedir"
    and "unat k < 1024 \<Longrightarrow> load32 m' (VIR_2_PHY pagedir + 4 * k) =
      (if k = 0 then entry_word (kernel_table (VIR_2_PHY pagetables) 0) 0
       else if 768 \<le> unat k then entry_word (kernel_table (VIR_2_PHY pagetables) (unat k - 768)) 0 else 0)"
    and "r < 256 \<Longrightarrow> unat k < 1024 \<Longrightarrow> load32 m' (kernel_table (VIR_2_PHY pagetables) r + 4 * k) =
      (if frame_base r k \<le> unat PHY_SIZE then entry_word (of_nat (frame_base r k)) 0 else 0)"
proof -
  let ?pd = "VIR_2_PHY pagedir" and ?pt = "VIR_2_PHY pagetables"
  from apart' have apart: "\<And>r. r < 256 \<Longrightarrow> ?pd \<noteq> kernel_table ?pt r" by blast
  define m1 where "m1 = fold (entry_row ?pd ?pt) [768..<768 + 256] m"
  have pd: "page_aligned ?pd" and pt: "page_aligned ?pt"
    using assms(1,2) by (auto intro: page_aligned_VIR_2_PHY)
  note rows = entry_rows_load [OF pd pt apart, where m = m and n = 256, folded m1_def,
      unfolded attributes_entry(1) [OF kernel_table_props(1) [OF pt]] attributes_entry(2) [OF frame_base_aligned]]
  from entry have pdbr: "pdbr = ?pd" and m': "m' = store32 m1 (?pd + 4 * 0) (load32 m1 (?pd + 4 * 768))"
    unfolding m1_def by (auto simp: entry_pages_def Let_def simp del: upt_rec_numeral)
  show "pdbr = ?pd" by (rule pdbr)
  show "load32 m' (?pd + 4 * k) =
      (if k = 0 then entry_word (kernel_table ?pt 0) 0
       else if 768 \<le> unat k then entry_word (kernel_table ?pt (unat k - 768)) 0 else 0)" if k: "unat k < 1024"
  proof -
    have "load32 m' (?pd + 4 * k) = (if 0 = k then load32 m1 (?pd + 4 * 768) else load32 m1 (?pd + 4 * k))"
      unfolding m' using load_entry_store [OF pd pd _ k, of 0 m1] by simp
    then show ?thesis using rows(1) [of k] rows(1) [of 768] zero(1) k by simp
  qed
  show "load32 m' (kernel_table ?pt r + 4 * k) =
      (if frame_base r k \<le> unat PHY_SIZE then entry_word (of_nat (frame_base r k)) 0 else 0)"
    if r: "r < 256" and k: "unat k < 1024"
  proof -
    have "load32 m' (kernel_table ?pt r + 4 * k) = load32 m1 (kernel_table ?pt r + 4 * k)"
      unfolding m' using load_entry_store [OF pd kernel_table_props(1) [OF pt, of r] _ k, of 0 m1] apart [OF r] by simp
    then show ?thesis using rows(2) [OF _ k _ r] apart zero(2) k r by simp
  qed
qed

text \<open>Where an address lies, by the index of its directory entry.\<close>

lemma address_offset: "unat (va AND 0xfff :: u32) < 4096"
  using word_and_le1 [of va "0xfff"] by (simp add: word_le_nat_alt)

lemma low_address:
  assumes "unat (dir_index va) = 0"
  shows "unat va < 0x400000" and "va = of_nat (frame_base 0 (table_index va)) + (va AND 0xfff)"
    and "frame_base 0 (table_index va) \<le> unat PHY_SIZE"
proof -
  let ?T = "unat (table_index va)"
  have v: "unat va = frame_base 0 (table_index va) + unat (va AND 0xfff)" and T: "?T < 1024"
    using address_split [of va] table_index_less [of va] assms by (simp_all add: frame_base_def)
  then show "unat va < 0x400000" "frame_base 0 (table_index va) \<le> unat PHY_SIZE"
    using address_offset [of va] by (simp_all add: frame_base_def)
  have "va = of_nat (frame_base 0 (table_index va) + unat (va AND 0xfff))"
    using arg_cong [OF v, of "of_nat :: nat \<Rightarrow> u32"] by simp
  then show "va = of_nat (frame_base 0 (table_index va)) + (va AND 0xfff)"
    by (simp only: of_nat_add of_nat_unat ucast_id)
qed

lemma kernel_address:
  assumes r: "unat (dir_index va) = 768 + r"
  shows "r < 256" and "0xc0000000 \<le> unat va"
    and "VIR_2_PHY va = of_nat (frame_base r (table_index va)) + (va AND 0xfff)"
    and "frame_base r (table_index va) \<le> unat PHY_SIZE \<longleftrightarrow> unat va < 0xc2000000 + 4096"
proof -
  let ?T = "unat (table_index va)" and ?o = "unat (va AND 0xfff)"
  show "r < 256" using dir_index_less [of va] r by simp
  let ?n = "1024 * r + ?T"
  have n: "unat va = 0xc0000000 + 4096 * ?n + ?o" and f: "frame_base r (table_index va) = 4096 * ?n"
    using address_split [of va] r by (simp_all add: frame_base_def)
  from n show "0xc0000000 \<le> unat va" by simp
  have "va = of_nat (0xc0000000 + frame_base r (table_index va) + ?o)"
    using arg_cong [OF n, of "of_nat :: nat \<Rightarrow> u32"] unfolding f by simp
  then have "va = 0xc0000000 + of_nat (frame_base r (table_index va)) + (va AND 0xfff)"
    by (simp only: of_nat_add of_nat_numeral of_nat_unat ucast_id)
  then have "VIR_2_PHY va = (0xc0000000 + of_nat (frame_base r (table_index va)) + (va AND 0xfff)) - 0xc0000000"
    unfolding VIR_2_PHY_def by (rule arg_cong [where f = "\<lambda>x. x - 0xc0000000"])
  then show "VIR_2_PHY va = of_nat (frame_base r (table_index va)) + (va AND 0xfff)" by simp
  show "frame_base r (table_index va) \<le> unat PHY_SIZE \<longleftrightarrow> unat va < 0xc2000000 + 4096"
    using n address_offset [of va] unfolding f by (cases "?n \<le> 8192") simp_all
qed

lemma between_address:
  assumes "0 < unat (dir_index va)" and "unat (dir_index va) < 768"
  shows "\<not> unat va < 0x400000" and "\<not> 0xc0000000 \<le> unat va"
  using assms address_split [of va] address_offset [of va] table_index_less [of va] by simp_all

lemma translate_no_entry:
  assumes "load32 m (VIR_2_PHY pagedir + 4 * dir_index va) = 0"
  shows "translate (\<lambda>v. m (VIR_2_PHY v)) pagedir va = None"
proof -
  have "VIR_2_PHY (pagedir + 4 * dir_index va) = VIR_2_PHY pagedir + 4 * dir_index va"
    by (simp add: VIR_2_PHY_def)
  with assms have "load32 (\<lambda>v. m (VIR_2_PHY v)) (pagedir + 4 * dir_index va) = 0"
    by (simp only: load32_view)
  then show ?thesis by (simp add: translate_def table_at_def)
qed

text \<open>
  C38: The page tables that \<open>entry\<close> builds, as the processor walks them once paging is on: the kernel's
  addresses from \<open>0xc0000000\<close> on reach physical memory in order, the first 4 MB are also mapped
  to themselves, both for the kernel only, and nothing else is mapped; except that the bound is
  not strict, so that one page behind the end of memory is mapped as well.
\<close>

theorem entry_maps_kernel:
  assumes "page_aligned pagedir" and "page_aligned pagetables"
    and "\<And>r. r < 256 \<Longrightarrow> VIR_2_PHY pagedir \<noteq> kernel_table (VIR_2_PHY pagetables) r"
    and "\<And>k. unat k < 1024 \<Longrightarrow> load32 m (VIR_2_PHY pagedir + 4 * k) = 0"
    and "\<And>r k. r < 256 \<Longrightarrow> unat k < 1024 \<Longrightarrow> load32 m (kernel_table (VIR_2_PHY pagetables) r + 4 * k) = 0"
  shows "case entry_pages pagedir pagetables m of (pdbr, m') \<Rightarrow>
    pdbr = VIR_2_PHY pagedir \<and>
    (\<forall>va. translate (\<lambda>v. m' (VIR_2_PHY v)) pagedir va =
      (let pa = if unat va < 0x400000 then va else VIR_2_PHY va in
       if unat va < 0x400000 \<or> 0xc0000000 \<le> unat va \<and> unat va < 0xc2000000 + 4096
       then Some (pa, entry_word pa 0) else None))"
proof -
  obtain pdbr m' where entry: "entry_pages pagedir pagetables m = (pdbr, m')" by fastforce
  have "\<forall>r < 256. VIR_2_PHY pagedir \<noteq> kernel_table (VIR_2_PHY pagetables) r"
    "\<forall>k. unat k < 1024 \<longrightarrow> load32 m (VIR_2_PHY pagedir + 4 * k) = 0"
    "\<forall>r < 256. \<forall>k. unat k < 1024 \<longrightarrow> load32 m (kernel_table (VIR_2_PHY pagetables) r + 4 * k) = 0"
    using assms(3-5) by blast+
  note load = entry_pages_load [OF assms(1,2) this entry]
  have pt: "page_aligned (VIR_2_PHY pagetables)" using assms(2) by (rule page_aligned_VIR_2_PHY)
  have "translate (\<lambda>v. m' (VIR_2_PHY v)) pagedir va =
      (let pa = if unat va < 0x400000 then va else VIR_2_PHY va in
       if unat va < 0x400000 \<or> 0xc0000000 \<le> unat va \<and> unat va < 0xc2000000 + 4096
       then Some (pa, entry_word pa 0) else None)" for va
  proof -
    let ?D = "unat (dir_index va)"
    note at_pd = load(2) [OF dir_index_less [of va]]
    have walk: "translate (\<lambda>v. m' (VIR_2_PHY v)) pagedir va =
        (if frame_base r (table_index va) \<le> unat PHY_SIZE then Some (pa, entry_word pa 0) else None)"
      if r: "r < 256" "?D = 0 \<and> r = 0 \<or> ?D = 768 + r"
        and pa: "pa = of_nat (frame_base r (table_index va)) + (va AND 0xfff)" for r pa
    proof (rule walk_entries [where kt = "kernel_table (VIR_2_PHY pagetables)" and m = m' and pagedir = pagedir
          and va = va and r = r,
          OF kernel_table_props(1) [OF pt] r(1) _ load(3) [OF r(1) table_index_less] frame_base_aligned pa])
      have "dir_index va = 0 \<longleftrightarrow> ?D = 0" by (simp add: unat_eq_0)
      with r(2) show "load32 m' (VIR_2_PHY pagedir + 4 * dir_index va) = entry_word (kernel_table (VIR_2_PHY pagetables) r) 0"
        unfolding at_pd by auto
    qed
    consider "?D = 0" | r where "?D = 768 + r" | "0 < ?D" "?D < 768"
      by (metis le_add_diff_inverse linorder_not_less neq0_conv)
    then show ?thesis
    proof cases
      case 1
      with walk [of 0 va] low_address [OF 1] show ?thesis by (simp add: Let_def)
    next
      case 2
      with walk [OF _ _ kernel_address(3) [OF 2]] kernel_address [OF 2] show ?thesis by (simp add: Let_def)
    next
      case 3
      have "dir_index va \<noteq> 0" using 3(1) by auto
      with 3 between_address [OF 3] show ?thesis by (simp add: at_pd translate_no_entry)
    qed
  qed
  with entry load(1) show ?thesis by simp
qed

theorem entry_maps_kernel_witness:
  "case entry_pages 0xc0200000 0xc0300000 (\<lambda>_. 0) of (pdbr, m') \<Rightarrow>
    pdbr = 0x200000 \<and>
    translate (\<lambda>v. m' (VIR_2_PHY v)) 0xc0200000 0xc0012345 = Some (0x12345, entry_word 0x12345 0) \<and>
    translate (\<lambda>v. m' (VIR_2_PHY v)) 0xc0200000 0x12345 = Some (0x12345, entry_word 0x12345 0) \<and>
    translate (\<lambda>v. m' (VIR_2_PHY v)) 0xc0200000 0xc2000000 = Some (0x2000000, entry_word 0x2000000 0) \<and>
    translate (\<lambda>v. m' (VIR_2_PHY v)) 0xc0200000 0xc2001000 = None"
proof -
  have "VIR_2_PHY 0xc0200000 \<noteq> kernel_table (VIR_2_PHY 0xc0300000) r" if r: "r < 256" for r
  proof -
    have "unat (of_nat (4096 * r) :: u32) = 4096 * r" using r by (intro unat_of_nat32) simp
    then have "unat (0x300000 + of_nat (4096 * r) :: u32) = 0x300000 + 4096 * r"
      using r by (subst unat_add_small) simp_all
    then have "unat (0x300000 + of_nat (4096 * r) :: u32) \<noteq> unat (0x200000 :: u32)" by simp
    then have "(0x300000 + of_nat (4096 * r) :: u32) \<noteq> 0x200000" by metis
    then show ?thesis by (simp add: VIR_2_PHY_def kernel_table_def)
  qed
  from entry_maps_kernel [OF _ _ this, where m = "\<lambda>_. 0"] show ?thesis
    by (auto simp: load32_zero VIR_2_PHY_def split: prod.splits)
qed

section \<open>The state that \<open>main\<close> leaves\<close>

lemma switch_to_user_frame:
  "\<exists>s frame. switch_to_user addr eflags k = (frame, set_pool s k) \<and> ir_cs frame = UCODE_SELECTOR \<and>
     ir_ss frame = UDATA_SELECTOR \<and> ir_eip frame = addr - 0xc0000000 \<and> ir_esp frame = USER_STACK_START \<and>
     ir_eflags frame = eflags"
  by (simp add: switch_to_user_def Let_def split: prod.split del: upt_Suc upt_rec_numeral) blast

lemma main_init_state:
  assumes "main_init io h ad stk eflags d mc = Some (frame, d', mc')" and "lock_value (video_lock (m_kernel mc)) = 0"
  shows "pcblist (m_kernel mc') = pcblist (init_pcb (addr_pagedir ad) (m_kernel mc))"
    and "current_process (m_kernel mc') = 0" and "nextpid (m_kernel mc') = nextpid (m_kernel mc)"
    and "length (fileList (m_kernel mc')) = length (fileList (m_kernel mc))"
    and "lock_value (video_lock (m_kernel mc')) = 0"
    and "init_file_disk (kdisk (m_kernel mc)) (st_block stk) (st_inodes stk) (st_super stk) (st_inode stk)
      = Some (kdisk (m_kernel mc'))"
    and "idt (m_tables mc') = idt (fill_gates h (m_tables mc))"
    and "ir_cs frame = UCODE_SELECTOR \<and> ir_ss frame = UDATA_SELECTOR \<and>
      ir_eip frame = addr_user_main ad - 0xc0000000"
proof -
  from sys_clear_lock [OF assms(2)] obtain l sc where
    c: "lock_value l = 0" "sys_clear (m_kernel mc) = Some (0, (m_kernel mc)\<lparr>video_lock := l, scr := sc\<rparr>)" by blast
  from assms(1) obtain k where "switch_to_user (addr_user_main ad) eflags k = (frame, m_kernel mc')" and
    k: "pcblist k = pcblist (init_pcb (addr_pagedir ad) (m_kernel mc))"
    "current_process k = 0" "nextpid k = nextpid (m_kernel mc)"
    "length (fileList k) = length (fileList (m_kernel mc))" "lock_value (video_lock k) = 0"
    "init_file_disk (kdisk (m_kernel mc)) (st_block stk) (st_inodes stk) (st_super stk) (st_inode stk) = Some (kdisk k)"
    "idt (m_tables mc') = idt (fill_gates h (m_tables mc))"
    by (auto simp: main_init_def c print_k_printed init_pic_def init_interrupt_def init_tss_def init_file_def Let_def
        init_pcb_def update_pcb_def length_init_openFileList split: bind_splits prod.splits)
  with switch_to_user_frame [of "addr_user_main ad" eflags k] obtain s where
    "m_kernel mc' = set_pool s k" "ir_cs frame = UCODE_SELECTOR \<and> ir_ss frame = UDATA_SELECTOR \<and>
      ir_eip frame = addr_user_main ad - 0xc0000000" by auto
  with k show "pcblist (m_kernel mc') = pcblist (init_pcb (addr_pagedir ad) (m_kernel mc))"
    "current_process (m_kernel mc') = 0" "nextpid (m_kernel mc') = nextpid (m_kernel mc)"
    "length (fileList (m_kernel mc')) = length (fileList (m_kernel mc))" "lock_value (video_lock (m_kernel mc')) = 0"
    "init_file_disk (kdisk (m_kernel mc)) (st_block stk) (st_inodes stk) (st_super stk) (st_inode stk)
      = Some (kdisk (m_kernel mc'))"
    "idt (m_tables mc') = idt (fill_gates h (m_tables mc))"
    "ir_cs frame = UCODE_SELECTOR \<and> ir_ss frame = UDATA_SELECTOR \<and> ir_eip frame = addr_user_main ad - 0xc0000000"
    by simp_all
qed

lemma main_init_returns:
  assumes "lock_value (video_lock (m_kernel mc)) = 0" and "init_memory (kmem (m_kernel mc)) = Some s"
    and "init_file_disk (kdisk (m_kernel mc)) (st_block stk) (st_inodes stk) (st_super stk) (st_inode stk) = Some dd"
  shows "\<exists>frame d' mc'. main_init io h ad stk eflags d mc = Some (frame, d', mc')"
proof -
  from sys_clear_lock [OF assms(1)] obtain l sc where
    c: "lock_value l = 0" "sys_clear (m_kernel mc) = Some (0, (m_kernel mc)\<lparr>video_lock := l, scr := sc\<rparr>)" by blast
  show ?thesis
    by (simp add: main_init_def c print_k_printed assms init_pic_def init_interrupt_def init_tss_def init_file_def Let_def
        init_pcb_def update_pcb_def split: prod.split)
qed

end
