(* ===== verification/Unistd.thy ===== *)
theory Unistd
  imports System
begin

text \<open>
  The user's side (\<open>unistd.c\<close>, \<open>shell.c\<close>): each wrapper loads its number and arguments into
  registers and executes \<open>int 0x80\<close>.  A wrapper maps the registers of the program, as the entry code
  pushes them, to those at the interrupt; registers it does not name keep their values.
\<close>

definition u_write :: "u32 \<Rightarrow> u32 \<Rightarrow> u32 \<Rightarrow> intr_context \<Rightarrow> intr_context" where
  "u_write fd buf sz f = f\<lparr>i_eax := SYS_write, i_ebx := fd, i_ecx := buf, i_edx := sz\<rparr>"

definition u_clear_my_screen :: "intr_context \<Rightarrow> intr_context" where
  "u_clear_my_screen f = f\<lparr>i_eax := SYS_clear_screen\<rparr>"

definition u_open :: "u32 \<Rightarrow> u32 \<Rightarrow> intr_context \<Rightarrow> intr_context" where
  "u_open path oflag f = f\<lparr>i_eax := SYS_open, i_ebx := path, i_ecx := oflag\<rparr>"

definition u_read :: "u32 \<Rightarrow> u32 \<Rightarrow> u32 \<Rightarrow> intr_context \<Rightarrow> intr_context" where
  "u_read fd buf sz f = f\<lparr>i_eax := SYS_read, i_ebx := fd, i_ecx := buf, i_edx := sz\<rparr>"

definition u_close :: "u32 \<Rightarrow> intr_context \<Rightarrow> intr_context" where
  "u_close fd f = f\<lparr>i_eax := SYS_close, i_ebx := fd\<rparr>"

definition u_creat :: "u32 \<Rightarrow> u16 \<Rightarrow> intr_context \<Rightarrow> intr_context" where
  "u_creat path mode f = f\<lparr>i_eax := SYS_creat, i_ebx := path, i_ecx := ucast mode\<rparr>"

definition u_fork :: "intr_context \<Rightarrow> intr_context" where
  "u_fork f = f\<lparr>i_eax := SYS_fork\<rparr>"

definition u_execve :: "u32 \<Rightarrow> u32 \<Rightarrow> u32 \<Rightarrow> intr_context \<Rightarrow> intr_context" where
  "u_execve pathname argv envp f = f\<lparr>i_eax := SYS_execve, i_ebx := pathname, i_ecx := argv, i_edx := envp\<rparr>"

definition u_wait :: "u32 \<Rightarrow> intr_context \<Rightarrow> intr_context" where
  "u_wait statloc f = f\<lparr>i_eax := SYS_wait, i_ebx := statloc\<rparr>"

definition u_exit :: "u32 \<Rightarrow> intr_context \<Rightarrow> intr_context" where
  "u_exit status f = f\<lparr>i_eax := SYS_exit, i_ebx := status\<rparr>"

text \<open>The path the shell runs for any command, in a buffer that it fills from the start; out of bounds is \<open>None\<close>.\<close>

definition getPath :: "u8 list \<Rightarrow> (int \<times> u8 list) option" where
  "getPath path = (if length path < 7 then None
     else Some (0, splice path 0 (map of_char ''/mypro\<newline>'')))"

section \<open>User programs\<close>

text \<open>
  What a program runs on: system calls, each given as the wrapper that loads its registers, with the
  result in \<open>eax\<close> and \<open>None\<close> when the call does not come back; and its memory.
\<close>

record 's environment =
  call :: "(intr_context \<Rightarrow> intr_context) \<Rightarrow> 's \<Rightarrow> (int \<times> 's) option"
  load_bytes :: "u32 \<Rightarrow> nat \<Rightarrow> 's \<Rightarrow> u8 list option"
  store_bytes :: "u32 \<Rightarrow> u8 list \<Rightarrow> 's \<Rightarrow> 's option"

text \<open>The addresses of the shell's strings, buffers and arrays.\<close>

record shell_data =
  sd_hello :: u32
  sd_prompt :: u32
  sd_not_found :: u32
  sd_command :: u32
  sd_path :: u32
  sd_argv :: u32
  sd_envp :: u32
  sd_statloc :: u32

definition do_call :: "'s environment \<Rightarrow> (intr_context \<Rightarrow> intr_context) \<Rightarrow> 's \<Rightarrow> 's option" where
  "do_call e w s = map_option snd (call e w s)"

definition shell_start :: "'s environment \<Rightarrow> shell_data \<Rightarrow> 's \<Rightarrow> 's option" where
  "shell_start e a s = do {
     s \<leftarrow> do_call e u_clear_my_screen s;
     s \<leftarrow> do_call e (u_write (of_nat STDOUT_FILENO) (sd_hello a) 12) s;
     do_call e (u_write (of_nat STDOUT_FILENO) (sd_prompt a) 7) s
   }"

text \<open>One round of the shell's endless loop.\<close>

definition shell_round :: "'s environment \<Rightarrow> shell_data \<Rightarrow> 's \<Rightarrow> 's option" where
  "shell_round e a s = do {
     (sz, s) \<leftarrow> call e (u_read (of_nat STDIN_FILENO) (sd_command a) 30) s;
     if 0 < sz then do {
       path \<leftarrow> load_bytes e (sd_path a) 30 s;
       (r, path) \<leftarrow> getPath path;
       s \<leftarrow> store_bytes e (sd_path a) path s;
       s \<leftarrow> (if r = -1 then do_call e (u_write (of_nat STDIN_FILENO) (sd_not_found a) 20) s else Some s);
       (child, s) \<leftarrow> call e u_fork s;
       s \<leftarrow> (if child = 0 then do_call e (u_execve (sd_path a) (sd_argv a) (sd_envp a)) s else Some s);
       (w, s) \<leftarrow> call e (u_wait (sd_statloc a)) s;
       if 0 < w then do_call e (u_write (of_nat STDIN_FILENO) (sd_prompt a) 8) s else Some s
     } else Some s
   }"

text \<open>The end of \<open>main\<close> in user mode, before its endless loop, and \<open>mypro\<close>.\<close>

definition main_user :: "'s environment \<Rightarrow> u32 \<Rightarrow> 's \<Rightarrow> 's option" where
  "main_user e shell s = do {
     (child, s) \<leftarrow> call e u_fork s;
     if child = 0 then do_call e (u_execve shell 0 0) s else Some s
   }"

definition mypro_main :: "'s environment \<Rightarrow> u32 \<Rightarrow> 's \<Rightarrow> 's option" where
  "mypro_main e hi s = do {
     s \<leftarrow> do_call e u_clear_my_screen s;
     s \<leftarrow> do_call e (u_write (of_nat STDOUT_FILENO) hi 14) s;
     do_call e (u_exit 0) s
   }"

section \<open>System calls as the program sees them\<close>

text \<open>
  \<open>int 0x80\<close>: the gate of vector \<open>0x80\<close> leads to \<open>syscall_handler\<close>, which pushes that number; the
  result of the call is the outcome of the dispatcher.
\<close>

definition system_call :: "locals \<Rightarrow> intr_context \<Rightarrow> kernel \<Rightarrow> (outcome \<times> kernel) option" where
  "system_call lo f k =
     map_option (\<lambda>(out, ptr, k). (out, k)) (interrupt_assign [] 0 lo (f\<lparr>inter_no := 0x80\<rparr>) k)"

abbreviation result :: "(int \<times> kernel) option \<Rightarrow> (outcome \<times> kernel) option" where
  "result r \<equiv> map_option (\<lambda>(n, k). (Result n, k)) r"

text \<open>
  The environment that the kernel gives a program: \<open>f\<close> holds the registers that no wrapper loads; a
  call after which another context runs, or that ends without a result, does not come back here.
\<close>

definition kernel_environment :: "locals \<Rightarrow> intr_context \<Rightarrow> kernel environment" where
  "kernel_environment lo f =
     \<lparr>call = (\<lambda>w k. case system_call lo (w f) k of Some (Result r, k') \<Rightarrow> Some (r, k') | _ \<Rightarrow> None),
      load_bytes = (\<lambda>a n k. vread (user_dir k) (kmem k) a n),
      store_bytes = (\<lambda>a bs k. map_option (\<lambda>m. k\<lparr>kmem := m\<rparr>) (vwrite (user_dir k) (kmem k) a bs))\<rparr>"

section \<open>The registers that a system call reads\<close>

lemma system_callI:
  assumes "map_of sys_call_table (i_eax f) = Some g"
    and "map_option (\<lambda>(out, ptr, k). (out, k)) (g lo (f\<lparr>inter_no := 0x80\<rparr>) k) = r"
  shows "system_call lo f k = r"
  using assms by (simp add: system_call_def interrupt_assign_def)

lemma map_returning:
  "r = r' \<Longrightarrow> map_option (\<lambda>(out, ptr, k). (out, k)) (returning ptr r) = result r'"
  by (cases r) auto

lemma sys_write_registers:
  "i_ebx p = i_ebx q \<Longrightarrow> i_ecx p = i_ecx q \<Longrightarrow> i_edx p = i_edx q \<Longrightarrow> sys_write p k = sys_write q k"
  unfolding sys_write_def by (erule ssubst)+ (rule refl)

lemma sys_read_registers:
  "i_ebx p = i_ebx q \<Longrightarrow> i_ecx p = i_ecx q \<Longrightarrow> i_edx p = i_edx q \<Longrightarrow> sys_read p k = sys_read q k"
  unfolding sys_read_def by (erule ssubst)+ (rule refl)

lemma sys_open_registers:
  "i_ebx p = i_ebx q \<Longrightarrow> i_ecx p = i_ecx q \<Longrightarrow> sys_open lo p k = sys_open lo q k"
  unfolding sys_open_def by (erule ssubst)+ (rule refl)

lemma sys_close_registers: "i_ebx p = i_ebx q \<Longrightarrow> sys_close p k = sys_close q k"
  unfolding sys_close_def by (erule ssubst)+ (rule refl)

lemma sys_creat_registers:
  assumes "i_ebx p = i_ebx q" and "i_ecx p = i_ecx q"
  shows "sys_creat lo p k = sys_creat lo q k"
proof -
  have "sys_open lo (p\<lparr>i_ebx := b, i_ecx := c\<rparr>) = sys_open lo (q\<lparr>i_ebx := b, i_ecx := c\<rparr>)" for b c
    by (rule ext, rule sys_open_registers) simp_all
  note open_regs = this
  show ?thesis unfolding sys_creat_def assms open_regs ..
qed

lemma sys_fork_registers: "copyContext p = copyContext q \<Longrightarrow> sys_fork p k = sys_fork q k"
  unfolding sys_fork_def by (erule ssubst)+ (rule refl)

lemma sys_execve_registers:
  assumes "i_ebx p = i_ebx q"
  shows "map_option (\<lambda>(r, p, k). (r, k)) (sys_execve lo p k) = map_option (\<lambda>(r, p, k). (r, k)) (sys_execve lo q k)"
  unfolding sys_execve_def assms
  by (auto simp: Let_def split: Option.bind_splits prod.splits if_splits)

lemma sys_execve_returned:
  assumes "i_ebx p = i_ebx q"
  shows "map_option (\<lambda>(r, p, k). (g r, k)) (sys_execve lo p k) = map_option (\<lambda>(r, p, k). (g r, k)) (sys_execve lo q k)"
  using arg_cong [OF sys_execve_registers [OF assms], of "map_option (\<lambda>(r, k). (g r, k))" lo k]
  by (simp add: option.map_comp comp_def split_def)

lemmas wrapper_regs = sys_write_registers sys_read_registers sys_open_registers sys_close_registers
  sys_creat_registers sys_fork_registers

lemma sys_call_entries:
  "map_of sys_call_table SYS_write = Some (\<lambda>lo ptr k. returning ptr (sys_write ptr k))"
  "map_of sys_call_table SYS_read = Some (\<lambda>lo ptr k. returning ptr (sys_read ptr k))"
  "map_of sys_call_table SYS_open = Some (\<lambda>lo ptr k. returning ptr (sys_open lo ptr k))"
  "map_of sys_call_table SYS_close = Some (\<lambda>lo ptr k. returning ptr (Some (sys_close ptr k)))"
  "map_of sys_call_table SYS_creat = Some (\<lambda>lo ptr k. returning ptr (sys_creat lo ptr k))"
  "map_of sys_call_table SYS_wait = Some (\<lambda>lo ptr k. returning ptr (sys_wait k))"
  "map_of sys_call_table SYS_clear_screen = Some (\<lambda>lo ptr k. returning ptr (sys_clear k))"
  "map_of sys_call_table SYS_fork = Some (\<lambda>lo ptr k. returning ptr (sys_fork ptr k))"
  "map_of sys_call_table SYS_exit = Some (\<lambda>lo ptr k. map_option (\<lambda>(c, k). (SwitchTo c, ptr, k)) (sys_exit k))"
  "map_of sys_call_table SYS_execve = Some (\<lambda>lo ptr k.
     map_option (\<lambda>(r, ptr, k). (case r of Some n \<Rightarrow> Result n | None \<Rightarrow> NoResult, ptr, k)) (sys_execve lo ptr k))"
  by (simp_all add: sys_call_table_def)

section \<open>Properties\<close>

text \<open>
  C40: Every wrapper of the user library reaches the kernel's function of the same name, and that
  function finds the wrapper's arguments in the registers it reads: the result is the function's,
  whatever is in the other registers.
\<close>

theorem system_call_wrappers:
  "system_call lo (u_write fd buf sz f) k = result (sys_write (zero_frame\<lparr>i_ebx := fd, i_ecx := buf, i_edx := sz\<rparr>) k) \<and>
   system_call lo (u_read fd buf sz f) k = result (sys_read (zero_frame\<lparr>i_ebx := fd, i_ecx := buf, i_edx := sz\<rparr>) k) \<and>
   system_call lo (u_open path oflag f) k = result (sys_open lo (zero_frame\<lparr>i_ebx := path, i_ecx := oflag\<rparr>) k) \<and>
   system_call lo (u_close fd f) k = result (Some (sys_close (zero_frame\<lparr>i_ebx := fd\<rparr>) k)) \<and>
   system_call lo (u_creat path mode f) k =
     result (sys_creat lo (zero_frame\<lparr>i_ebx := path, i_ecx := ucast mode\<rparr>) k) \<and>
   system_call lo (u_wait statloc f) k = result (sys_wait k) \<and>
   system_call lo (u_clear_my_screen f) k = result (sys_clear k) \<and>
   system_call lo (u_fork f) k = result (sys_fork f k) \<and>
   system_call lo (u_exit status f) k = map_option (\<lambda>(c, k). (SwitchTo c, k)) (sys_exit k) \<and>
   system_call lo (u_execve path argv envp f) k = map_option (\<lambda>(r, p, k). (case r of Some n \<Rightarrow> Result n | None \<Rightarrow> NoResult, k))
     (sys_execve lo (zero_frame\<lparr>i_ebx := path\<rparr>) k)"
proof (intro conjI)
  show "system_call lo (u_execve path argv envp f) k =
      map_option (\<lambda>(r, p, k). (case r of Some n \<Rightarrow> Result n | None \<Rightarrow> NoResult, k)) (sys_execve lo (zero_frame\<lparr>i_ebx := path\<rparr>) k)"
    by (rule system_callI, simp add: u_execve_def, rule sys_call_entries,
        subst sys_execve_returned [where q = "zero_frame\<lparr>i_ebx := path\<rparr>", symmetric])
       (simp_all add: u_execve_def option.map_comp comp_def split_def)
next
  show "system_call lo (u_exit status f) k = map_option (\<lambda>(c, k). (SwitchTo c, k)) (sys_exit k)"
    by (rule system_callI, simp add: u_exit_def, rule sys_call_entries)
       (simp add: option.map_comp comp_def split_def)
qed (rule system_callI, simp add: u_write_def u_read_def u_open_def u_close_def u_creat_def u_wait_def
       u_clear_my_screen_def u_fork_def, rule sys_call_entries, rule map_returning,
     (rule refl | rule arg_cong [where f = Some])?,
     (rule wrapper_regs; simp add: u_write_def u_read_def u_open_def u_close_def u_creat_def u_fork_def
        copyContext_def fun_eq_iff)?)+

text \<open>
  The path that the shell passes to \<open>execve\<close> ends in a line feed, not in a zero: the bytes behind it
  are what the uninitialised buffer held.
\<close>

lemma getPath_unterminated:
  assumes "length path = 30"
  shows "\<exists>path'. getPath path = Some (0, path') \<and> length path' = 30 \<and> take 7 path' = map of_char ''/mypro\<newline>'' \<and>
    0 \<notin> set (take 7 path') \<and> drop 7 path' = drop 7 path"
proof -
  define c :: "u8 list" where "c = map of_char ''/mypro\<newline>''"
  have "length c = 7" "0 \<notin> set c" by (simp_all add: c_def)
  with assms show ?thesis unfolding getPath_def splice_def c_def [symmetric] by simp
qed

end
