(* ===== verification/UserPages.thy ===== *)
theory UserPages
  imports Syscall
begin

text \<open>
  The user memory of a process (\<open>free_process_user_mem\<close> of \<open>syscall.c\<close>): the pages and tables below a
  page directory as a list, what a write to some pages leaves alone (\<open>outside\<close>), and freeing.
\<close>

section \<open>Writes to pages\<close>

text \<open>\<open>m'\<close> differs from \<open>m\<close> in pages of \<open>S\<close> only.\<close>

definition outside :: "u32 set \<Rightarrow> mem \<Rightarrow> mem \<Rightarrow> bool" where
  "outside S m m' \<longleftrightarrow> (\<forall>q. page_aligned q \<longrightarrow> q \<notin> S \<longrightarrow> (\<forall>i < 4096. m' (q + of_nat i) = m (q + of_nat i)))"

lemma outside_refl [simp]: "outside S m m"
  by (simp add: outside_def)

lemma outside_trans: "outside S m m' \<Longrightarrow> outside T m' m'' \<Longrightarrow> outside (S \<union> T) m m''"
  by (simp add: outside_def)

lemma outside_mono: "outside S m m' \<Longrightarrow> S \<subseteq> T \<Longrightarrow> outside T m m'"
  by (auto simp: outside_def)

lemma outside_byte: "outside S m m' \<Longrightarrow> page_aligned q \<Longrightarrow> q \<notin> S \<Longrightarrow> i < 4096 \<Longrightarrow> m' (q + of_nat i) = m (q + of_nat i)"
  by (simp add: outside_def)

lemma outside_load:
  assumes "outside S m m'" and "page_aligned q" and "q \<notin> S" and k: "unat k < 1024"
  shows "load32 m' (q + 4 * k) = load32 m (q + 4 * k)"
proof (rule load32_cong)
  fix i :: nat assume i: "i < 4"
  with k have "4 * unat k + i < 4096" by simp
  from outside_byte [OF assms(1-3) this]
  show "m' (q + 4 * k + of_nat i) = m (q + 4 * k + of_nat i)" by (simp add: add.assoc)
qed

lemma outside_table_at:
  assumes "outside S m m'" and "page_aligned q" and "q \<notin> S" and "unat k < 1024"
  shows "table_at m' q k = table_at m q k"
  using outside_load [OF assms] by (rule table_at_cong)

lemma outside_page_list:
  assumes "outside S m m'" and "page_list (m, f) xs" and "set xs \<inter> S = {}"
  shows "page_list (m', f) xs"
proof (rule page_list_cong [OF assms(2)])
  fix x assume x: "x \<in> set xs"
  with assms(2) have "page_aligned x" by (simp add: page_list_def)
  with outside_load [OF assms(1), of x 0] assms(3) x show "load32 m' x = load32 m x" by auto
qed

lemma byte_of_other_page:
  assumes "page_aligned p" and "page_aligned q" and "p \<noteq> q" and "i < 4096"
  shows "4096 \<le> unat (q + of_nat i - p :: u32)"
  using aligned_apart [of 4096 p q i] assms by simp

lemma outside_fill: "page_aligned p \<Longrightarrow> outside {p} m (fill m p PAGESIZE d)"
  unfolding outside_def using byte_of_other_page [of p] by (fastforce simp: fill_apply)

lemma memcopy_page:
  assumes "page_aligned p" and "page_aligned q" and "p \<noteq> q"
  shows "memcopy m q p PAGESIZE a = (if unat (a - p) < PAGESIZE then m (q + (a - p)) else m a)"
  using assms byte_of_other_page by (intro memcopy_apply) auto

lemma outside_memcopy:
  assumes "page_aligned p" and "page_aligned q" and "p \<noteq> q"
  shows "outside {p} m (memcopy m q p PAGESIZE)"
    and "i < 4096 \<Longrightarrow> memcopy m q p PAGESIZE (p + of_nat i) = m (q + of_nat i)"
proof -
  show "outside {p} m (memcopy m q p PAGESIZE)"
    unfolding outside_def using byte_of_other_page [OF assms(1)] by (fastforce simp: memcopy_page [OF assms])
  show "memcopy m q p PAGESIZE (p + of_nat i) = m (q + of_nat i)" if "i < 4096"
    using that by (simp add: memcopy_page [OF assms] unat_of_nat32)
qed

lemma outside_store:
  assumes "page_aligned p" and "unat k < 1024"
  shows "outside {p} m (store32 m (p + 4 * k) w)"
  unfolding outside_def
proof (intro allI impI)
  fix q :: u32 and i :: nat
  assume q: "page_aligned q" "q \<notin> {p}" and i: "i < 4096"
  have k: "unat (4 * k) = 4 * unat k" using assms(2) by (subst unat_mult_lem [THEN iffD1]) simp_all
  have b: "4096 \<le> unat (q + of_nat i - p)" using byte_of_other_page [OF assms(1) q(1) _ i] q(2) by auto
  have "4 * k \<le> q + of_nat i - p" using b k assms(2) by (simp add: word_le_nat_alt)
  then have "unat (q + of_nat i - p - 4 * k) = unat (q + of_nat i - p) - 4 * unat k"
    by (simp add: unat_sub k)
  with b assms(2) have "4 \<le> unat (q + of_nat i - (p + 4 * k))" by (simp add: algebra_simps)
  then show "store32 m (p + 4 * k) w (q + of_nat i) = m (q + of_nat i)" by (rule store32_outside)
qed

lemma memcopy_load:
  assumes "page_aligned p" and "page_aligned q" and "p \<noteq> q" and "unat k < 1024"
  shows "load32 (memcopy m q p PAGESIZE) (p + 4 * k) = load32 m (q + 4 * k)"
proof -
  have "memcopy m q p PAGESIZE (p + 4 * k + of_nat i) = m (q + 4 * k + of_nat i)" if "i < 4" for i
    using outside_memcopy(2) [OF assms(1-3), of "4 * unat k + i" m] that assms(4) by (simp add: add.assoc)
  then have "mem_read (memcopy m q p PAGESIZE) (p + 4 * k) 4 = mem_read m (q + 4 * k) 4"
    by (intro nth_equalityI) (auto simp: mem_read_def)
  then show ?thesis by (simp add: load32_def)
qed

section \<open>The pages of a process\<close>

definition mapped_pages :: "mem \<Rightarrow> u32 \<Rightarrow> nat \<Rightarrow> u32 list" where
  "mapped_pages m t n = concat (map (\<lambda>j. case table_at m t (of_nat j) of None \<Rightarrow> [] | Some p \<Rightarrow> [p]) [0..<n])"

definition process_pages :: "mem \<Rightarrow> u32 \<Rightarrow> nat \<Rightarrow> u32 list" where
  "process_pages m dir n =
     concat (map (\<lambda>i. case table_at m dir (of_nat i) of None \<Rightarrow> [] | Some t \<Rightarrow> mapped_pages m t 1024 @ [t]) [0..<n])"

lemma mapped_pages_Suc:
  "mapped_pages m t 0 = []"
  "mapped_pages m t (Suc n) = mapped_pages m t n @ (case table_at m t (of_nat n) of None \<Rightarrow> [] | Some p \<Rightarrow> [p])"
  by (simp_all add: mapped_pages_def)

lemma process_pages_Suc:
  "process_pages m dir 0 = []"
  "process_pages m dir (Suc n) = process_pages m dir n @
     (case table_at m dir (of_nat n) of None \<Rightarrow> [] | Some t \<Rightarrow> mapped_pages m t 1024 @ [t])"
  by (simp_all add: process_pages_def)

lemma of_nat_index: "j < 1024 \<Longrightarrow> unat (of_nat j :: u32) = j"
  by (rule unat_of_nat32) simp

lemma mapped_pages_mono: "n \<le> n' \<Longrightarrow> set (mapped_pages m t n) \<subseteq> set (mapped_pages m t n')"
  unfolding mapped_pages_def set_concat set_map by (intro Union_mono image_mono) auto

lemma mapped_pages_aligned: "p \<in> set (mapped_pages m t n) \<Longrightarrow> page_aligned p"
  by (auto simp: mapped_pages_def split: option.splits intro: table_at_aligned)

lemma process_pages_aligned: "p \<in> set (process_pages m d n) \<Longrightarrow> page_aligned p"
  by (auto simp: process_pages_def split: option.splits intro: table_at_aligned mapped_pages_aligned)

lemma mapped_pages_cong:
  "(\<And>j. j < n \<Longrightarrow> table_at m' t' (of_nat j) = table_at m t (of_nat j)) \<Longrightarrow> mapped_pages m' t' n = mapped_pages m t n"
  unfolding mapped_pages_def by (intro arg_cong [where f = concat] map_cong) simp_all

lemma process_pages_cong:
  assumes "\<And>i. i < n \<Longrightarrow> table_at m' d (of_nat i) = table_at m d (of_nat i)"
    and "\<And>i t j. i < n \<Longrightarrow> table_at m d (of_nat i) = Some t \<Longrightarrow> j < 1024 \<Longrightarrow>
      table_at m' t (of_nat j) = table_at m t (of_nat j)"
  shows "process_pages m' d n = process_pages m d n"
  unfolding process_pages_def
proof (intro arg_cong [where f = concat] map_cong refl)
  fix i assume "i \<in> set [0..<n]"
  then have i: "i < n" by simp
  show "(case table_at m' d (of_nat i) of None \<Rightarrow> [] | Some t \<Rightarrow> mapped_pages m' t 1024 @ [t]) =
      (case table_at m d (of_nat i) of None \<Rightarrow> [] | Some t \<Rightarrow> mapped_pages m t 1024 @ [t])"
    using assms(1) [OF i] assms(2) [OF i]
    by (auto split: option.split intro!: mapped_pages_cong simp del: of_nat_less_iff)
qed

lemma mapped_pages_in: "j < n \<Longrightarrow> table_at m t (of_nat j) = Some p \<Longrightarrow> p \<in> set (mapped_pages m t n)"
  by (force simp: mapped_pages_def)

lemma process_pages_in:
  assumes "i < n" and "table_at m d (of_nat i) = Some t"
  shows "t \<in> set (process_pages m d n)" and "p \<in> set (mapped_pages m t 1024) \<Longrightarrow> p \<in> set (process_pages m d n)"
  using assms by (force simp: process_pages_def)+

lemma process_pages_outside:
  assumes "outside S m m'" and "n \<le> 1024" and "set (process_pages m d n) \<inter> S = {}"
    and "\<And>i. i < n \<Longrightarrow> table_at m' d (of_nat i) = table_at m d (of_nat i)"
  shows "process_pages m' d n = process_pages m d n"
proof (rule process_pages_cong [OF assms(4)])
  fix i t and j :: nat assume i: "i < n" "table_at m d (of_nat i) = Some t" and j: "j < 1024"
  have "t \<notin> S" using process_pages_in(1) [OF i] assms(3) by auto
  with outside_table_at [OF assms(1) table_at_aligned [OF i(2)], of "of_nat j"] j
  show "table_at m' t (of_nat j) = table_at m t (of_nat j)" by (simp add: of_nat_index)
qed

lemma table_at_entry_store:
  assumes "page_aligned t" and "page_aligned q" and "i < 1024" and "j < 1024"
  shows "table_at (store32 m (t + 4 * of_nat i) (entry_word (VIR_2_PHY q) priv)) t (of_nat j) =
    (if j = i then Some q else table_at m t (of_nat j))"
proof (cases "j = i")
  case True
  then show ?thesis
    by (simp add: table_at_def Let_def entry_word_present entry_word_frame frame_of_aligned
        page_aligned_VIR_2_PHY assms(2) del: bit_0)
next
  case False
  then have "(of_nat i :: u32) \<noteq> of_nat j" using of_nat_index assms(3,4) by metis
  with False show ?thesis
    using load_entry_store [OF assms(1,1), of "of_nat i" "of_nat j"] assms(3,4)
    by (auto simp: of_nat_index intro: table_at_cong)
qed

section \<open>Freeing the memory of a process\<close>

lemma one_bit_eq_1: "(w :: 1 word) = 1 \<longleftrightarrow> bit w 0"
proof
  assume "bit w 0"
  then show "w = 1" by (intro bit_word_eqI) (simp del: bit_0 add: bit_1_iff)
qed simp

lemma present_pte: "pt_present (load_pte m p) = PAGE_PRESENT_TRUE \<longleftrightarrow> bit (load32 m p) 0"
  by (simp add: one_bit_eq_1 load_pte_def page_table_item_of_word_def bit_simps)

lemma present_pde: "pd_present (load_pde m p) = PAGE_PRESENT_TRUE \<longleftrightarrow> bit (load32 m p) 0"
  by (simp add: one_bit_eq_1 load_pde_def page_dir_item_of_word_def bit_simps)

lemma page_of_pte:
  "push_bit 12 (ucast (pt_address (load_pte m p))) = load32 m p AND 0xfffff000"
  unfolding page_mask
  by (rule bit_word_eqI) (auto simp: load_pte_def page_table_item_of_word_def bit_simps)

lemma free_table_entry_eq:
  "free_table_entry t j s = (case table_at (fst s) t (of_nat j) of None \<Rightarrow> s | Some p \<Rightarrow> free_page p s)"
  by (simp add: free_table_entry_def present_pte page_of_pte table_at_def Let_def)

lemma free_dir_entry_eq:
  "free_dir_entry d i s = (case table_at (fst s) d (of_nat i) of None \<Rightarrow> s
     | Some t \<Rightarrow> free_page t (fold (free_table_entry t) [0..<1024] s))"
  by (simp add: free_dir_entry_def present_pde table_of_pde table_at_def Let_def del: upt_Suc upt_rec_numeral)

lemma outside_free_pages:
  "\<forall>p \<in> set ps. page_aligned p \<Longrightarrow> outside (set ps) (fst s) (fst (fold free_page ps s))"
proof (induction ps arbitrary: s)
  case (Cons p ps)
  have "outside {p} (fst s) (fst (free_page p s))"
    using outside_store [of p 0] Cons.prems by (simp add: free_page_def)
  with Cons.IH [of "free_page p s"] Cons.prems show ?case
    by (auto dest: outside_trans)
qed simp

lemma free_table_entries:
  assumes "page_aligned t" and "n \<le> 1024" and "t \<notin> set (mapped_pages (fst s) t n)"
  shows "fold (free_table_entry t) [0..<n] s = fold free_page (mapped_pages (fst s) t n) s"
  using assms(2,3)
proof (induction n)
  case (Suc n)
  let ?s = "fold free_page (mapped_pages (fst s) t n) s"
  have "t \<notin> set (mapped_pages (fst s) t n)" using Suc.prems(2) by (auto simp: mapped_pages_Suc)
  then have IH: "fold (free_table_entry t) [0..<n] s = ?s" and
    "table_at (fst ?s) t (of_nat n) = table_at (fst s) t (of_nat n)"
    using Suc outside_table_at [OF outside_free_pages assms(1), of "mapped_pages (fst s) t n" "of_nat n" s]
    by (auto simp: of_nat_index intro: mapped_pages_aligned)
  then show ?case
    using free_table_entry_eq [of t n ?s] by (simp add: mapped_pages_Suc split: option.split)
qed (simp add: mapped_pages_Suc)

lemma free_dir_entries:
  assumes "page_aligned d" and "n \<le> 1024" and "distinct (d # process_pages (fst s) d n)"
  shows "fold (free_dir_entry d) [0..<n] s = fold free_page (process_pages (fst s) d n) s"
  using assms(2,3)
proof (induction n)
  case (Suc n)
  let ?ps = "process_pages (fst s) d n"
  let ?s = "fold free_page ?ps s"
  have out: "outside (set ?ps) (fst s) (fst ?s)"
    by (intro outside_free_pages ballI) (rule process_pages_aligned)
  have IH: "fold (free_dir_entry d) [0..<n] s = ?s"
    using Suc by (simp add: process_pages_Suc)
  have at: "table_at (fst ?s) d (of_nat n) = table_at (fst s) d (of_nat n)"
    using Suc.prems outside_table_at [OF out assms(1)] by (simp add: process_pages_Suc of_nat_index)
  show ?case
  proof (cases "table_at (fst s) d (of_nat n)")
    case None
    then show ?thesis using free_dir_entry_eq [of d n ?s] by (simp add: IH at process_pages_Suc)
  next
    case (Some t)
    note t = table_at_aligned [OF Some]
    from Suc.prems Some have new: "t \<notin> set ?ps" "t \<notin> set (mapped_pages (fst s) t 1024)"
      by (auto simp: process_pages_Suc)
    have same: "mapped_pages (fst ?s) t 1024 = mapped_pages (fst s) t 1024"
      using outside_table_at [OF out t new(1)] by (intro mapped_pages_cong) (simp add: of_nat_index)
    from free_table_entries [OF t order.refl, of ?s] free_dir_entry_eq [of d n ?s] new(2) show ?thesis
      by (simp add: IH at Some process_pages_Suc same del: upt_rec_numeral)
  qed
qed (simp add: process_pages_Suc)

lemma last_process_page:
  "process_pages m d n \<noteq> [] \<Longrightarrow> \<exists>i < n. table_at m d (of_nat i) = Some (last (process_pages m d n))"
proof (induction n)
  case (Suc n)
  then show ?case by (cases "table_at m d (of_nat n)") (auto simp: process_pages_Suc less_Suc_eq)
qed (simp add: process_pages_Suc)

text \<open>The second process of the demonstration kernel with one page, and four free pages.\<close>

definition one_page_mem :: mem where
  "one_page_mem = store32 (store32 (\<lambda>_. 0) 0xc0200000 (entry_word (VIR_2_PHY 0xc0201000) PAGE_PRIVILEGE_USER))
     0xc0201000 (entry_word (VIR_2_PHY 0xc0202000) PAGE_PRIVILEGE_USER)"

definition one_page :: kernel where
  "one_page = set_pool (fold free_page [0xc0401000, 0xc0402000, 0xc0403000, 0xc0404000] (one_page_mem, 0))
     second_running"

lemma one_page_tables:
  assumes "j < 1024"
  shows "table_at one_page_mem 0xc0200000 (of_nat j) = (if j = 0 then Some 0xc0201000 else None)"
    and "table_at one_page_mem 0xc0201000 (of_nat j) = (if j = 0 then Some 0xc0202000 else None)"
proof -
  let ?m = "store32 (\<lambda>_. 0) 0xc0200000 (entry_word (VIR_2_PHY 0xc0201000) PAGE_PRIVILEGE_USER)"
  have zero: "table_at (\<lambda>_. 0) p (of_nat i) = None" for p i by (simp add: table_at_def load32_zero)
  have m: "table_at ?m 0xc0200000 (of_nat j) = (if j = 0 then Some 0xc0201000 else None)"
    using table_at_entry_store [of "0xc0200000" "0xc0201000" 0 j "\<lambda>_. 0" PAGE_PRIVILEGE_USER] assms zero by simp
  have o1: "outside {0xc0200000} (\<lambda>_. 0) ?m"
    using outside_store [of "0xc0200000" 0 "\<lambda>_. 0" "entry_word (VIR_2_PHY 0xc0201000) PAGE_PRIVILEGE_USER"] by simp
  have o2: "outside {0xc0201000} ?m one_page_mem"
    using outside_store [of "0xc0201000" 0 ?m "entry_word (VIR_2_PHY 0xc0202000) PAGE_PRIVILEGE_USER"]
    by (simp add: one_page_mem_def)
  show "table_at one_page_mem 0xc0200000 (of_nat j) = (if j = 0 then Some 0xc0201000 else None)"
    using outside_table_at [OF o2, of "0xc0200000" "of_nat j"] m assms by (simp add: of_nat_index)
  show "table_at one_page_mem 0xc0201000 (of_nat j) = (if j = 0 then Some 0xc0202000 else None)"
    using table_at_entry_store [of "0xc0201000" "0xc0202000" 0 j ?m PAGE_PRIVILEGE_USER] assms
      outside_table_at [OF o1, of "0xc0201000" "of_nat j"] zero
    by (simp add: one_page_mem_def of_nat_index)
qed

lemma process_pages_first:
  assumes "0 < n" and "\<And>i. 0 < i \<Longrightarrow> i < n \<Longrightarrow> table_at m d (of_nat i) = None"
  shows "process_pages m d n = (case table_at m d 0 of None \<Rightarrow> [] | Some t \<Rightarrow> mapped_pages m t 1024 @ [t])"
    and "mapped_pages m d n = (case table_at m d 0 of None \<Rightarrow> [] | Some p \<Rightarrow> [p])"
  using assms
  by (simp_all add: process_pages_def mapped_pages_def upt_conv_Cons concat_eq_Nil_conv del: upt_Suc upt_rec_numeral)

lemma one_page:
  "page_list (pool one_page) [0xc0404000, 0xc0403000, 0xc0402000, 0xc0401000]"
  "process_pages (kmem one_page) 0xc0200000 768 = [0xc0202000, 0xc0201000]"
  "current_process one_page = 1" "p_pagedir (current_pcb one_page) = 0xc0200000" "length (pcblist one_page) = 20"
proof -
  let ?free = "[0xc0401000, 0xc0402000, 0xc0403000, 0xc0404000] :: u32 list"
  have "page_list (one_page_mem, 0) []" by (simp add: page_list_def)
  from page_pool.give_many [OF this, of ?free]
  show "page_list (pool one_page) [0xc0404000, 0xc0403000, 0xc0402000, 0xc0401000]" by (simp add: one_page_def)
  have mp: "mapped_pages one_page_mem 0xc0201000 1024 = [0xc0202000]"
    using process_pages_first(2) [of 1024 one_page_mem "0xc0201000"] one_page_tables(2) [of 0] one_page_tables(2)
    by simp
  have pp: "process_pages one_page_mem 0xc0200000 768 = [0xc0202000, 0xc0201000]"
    using process_pages_first(1) [of 768 one_page_mem "0xc0200000"] one_page_tables(1) [of 0] one_page_tables(1) mp
    by simp
  have out: "outside (set ?free) one_page_mem (kmem one_page)"
    using outside_free_pages [of ?free "(one_page_mem, 0)"] by (simp add: one_page_def)
  show "process_pages (kmem one_page) 0xc0200000 768 = [0xc0202000, 0xc0201000]"
    using process_pages_outside [OF out, of 768 "0xc0200000"] outside_table_at [OF out, of "0xc0200000"] pp
    by (simp add: of_nat_index)
  show "current_process one_page = 1" "length (pcblist one_page) = 20"
    by (simp_all add: one_page_def second_running del: fold_simps)
  show "p_pagedir (current_pcb one_page) = 0xc0200000"
    by (simp add: one_page_def second_running_def demo_kernel_def update_pcb_def zero_pcb_def del: fold_simps)
qed

section \<open>Property: freeing\<close>

text \<open>
  C31: \<open>sys_execve\<close> frees the memory of the calling process with \<open>free_process_user_mem\<close>.  Every page and every
  page table below 3 GB goes to the free list, in the order of the walk, and nothing else of memory changes.
  But the entries of the directory stay: the next page that is handed out, for the new program, is a
  table that the directory still names.
\<close>

theorem free_process_user_mem_correct:
  assumes "page_list (pool k) qs" and "d = p_pagedir (current_pcb k)" and "page_aligned d"
    and "ps = process_pages (kmem k) d 768" and "distinct (d # ps)" and "set ps \<inter> set qs = {}"
  shows "let k' = free_process_user_mem k in
    page_list (pool k') (rev ps @ qs) \<and> outside (set ps) (kmem k) (kmem k') \<and>
    (\<forall>i < 1024. table_at (kmem k') d (of_nat i) = table_at (kmem k) d (of_nat i)) \<and>
    (ps \<noteq> [] \<longrightarrow> (\<exists>i < 768. table_at (kmem k') d (of_nat i) = Some (fst (alloc_page (pool k')))))"
proof -
  let ?s = "fold free_page ps (pool k)"
  have free: "free_process_user_mem k = set_pool ?s k"
    using free_dir_entries [OF assms(3), of 768 "pool k"] assms(2,4,5)
    by (simp add: free_process_user_mem_def del: upt_Suc upt_rec_numeral)
  have al: "\<forall>p \<in> set ps. page_aligned p" using assms(4) process_pages_aligned by blast
  note out = outside_free_pages [OF al, of "pool k"]
  have list: "page_list ?s (rev ps @ qs)"
    using page_pool.give_many [OF assms(1) al] assms(5,6) by simp
  have at: "table_at (fst ?s) d (of_nat i) = table_at (kmem k) d (of_nat i)" if "i < 1024" for i
    using outside_table_at [OF out assms(3), of "of_nat i"] assms(5) that by (simp add: of_nat_index)
  have "\<exists>i < 768. table_at (fst ?s) d (of_nat i) = Some (snd ?s)" if ne: "ps \<noteq> []"
  proof -
    from last_process_page [of "kmem k" d 768] ne assms(4) obtain i where
      i: "i < 768" "table_at (kmem k) d (of_nat i) = Some (last ps)" by auto
    moreover from list ne have "snd ?s = last ps"
      by (cases ps rule: rev_cases) (auto simp: page_list_def)
    ultimately show ?thesis using at [of i] by auto
  qed
  with list out at show ?thesis by (simp add: free alloc_page_def)
qed

theorem free_process_user_mem_correct_witness:
  "let k' = free_process_user_mem one_page in
     page_list (pool k') [0xc0201000, 0xc0202000, 0xc0404000, 0xc0403000, 0xc0402000, 0xc0401000] \<and>
     (\<exists>i < 768. table_at (kmem k') 0xc0200000 (of_nat i) = Some (fst (alloc_page (pool k'))))"
  using free_process_user_mem_correct [OF one_page(1) one_page(4) [symmetric], where ps = "[0xc0202000, 0xc0201000]"]
  by (auto simp: one_page(2,3,5) Let_def)

end
