(* ===== verification/UserCopy.thy ===== *)
theory UserCopy
  imports UserPages "HOL-Library.Multiset"
begin

text \<open>
  Copying the user memory of a process (\<open>copy_process_mem\<close> of \<open>syscall.c\<close>): page tables and directories that
  are copies of each other, the two loops, and what parent and child read afterwards.
\<close>

section \<open>Copied pages and tables\<close>

definition page_equal :: "mem \<Rightarrow> u32 \<Rightarrow> mem \<Rightarrow> u32 \<Rightarrow> bool" where
  "page_equal m p m' q \<longleftrightarrow> (\<forall>i < 4096. m' (q + of_nat i) = m (p + of_nat i))"

definition table_copied :: "mem \<Rightarrow> u32 \<Rightarrow> nat \<Rightarrow> mem \<Rightarrow> u32 \<Rightarrow> bool" where
  "table_copied m t n m' t' \<longleftrightarrow> (\<forall>j < n. case table_at m t (of_nat j) of
     None \<Rightarrow> table_at m' t' (of_nat j) = None
   | Some p \<Rightarrow> \<exists>q. table_at m' t' (of_nat j) = Some q \<and> page_equal m p m' q)"

definition space_copied :: "mem \<Rightarrow> u32 \<Rightarrow> nat \<Rightarrow> mem \<Rightarrow> u32 \<Rightarrow> bool" where
  "space_copied m d n m' d' \<longleftrightarrow> (\<forall>i < n. case table_at m d (of_nat i) of
     None \<Rightarrow> table_at m' d' (of_nat i) = None
   | Some t \<Rightarrow> \<exists>t'. table_at m' d' (of_nat i) = Some t' \<and> table_copied m t 1024 m' t')"

lemma page_equal_trans: "page_equal m p m' q \<Longrightarrow> page_equal m' q m'' r \<Longrightarrow> page_equal m p m'' r"
  by (simp add: page_equal_def)

lemma outside_page_equal: "outside S m m' \<Longrightarrow> page_aligned p \<Longrightarrow> p \<notin> S \<Longrightarrow> page_equal m p m' p"
  by (simp add: page_equal_def outside_def)

text \<open>Both sides of a copy may be written elsewhere.\<close>

lemma mapped_pages_outside:
  assumes "outside S m m'" and "page_aligned t" and "t \<notin> S" and "n \<le> 1024"
  shows "mapped_pages m' t n = mapped_pages m t n"
  using outside_table_at [OF assms(1-3)] assms(4) by (intro mapped_pages_cong) (simp add: of_nat_index)

lemma table_copied_target:
  assumes "table_copied m t n m' t'" and "outside S m' m''" and "page_aligned t'" and "n \<le> 1024"
    and "insert t' (set (mapped_pages m' t' n)) \<inter> S = {}"
  shows "table_copied m t n m'' t'"
  unfolding table_copied_def
proof (intro allI impI)
  fix j assume j: "j < n"
  have at: "table_at m'' t' (of_nat j) = table_at m' t' (of_nat j)"
    using outside_table_at [OF assms(2,3), of "of_nat j"] assms(4,5) j by (simp add: of_nat_index)
  show "case table_at m t (of_nat j) of None \<Rightarrow> table_at m'' t' (of_nat j) = None
     | Some p \<Rightarrow> \<exists>q. table_at m'' t' (of_nat j) = Some q \<and> page_equal m p m'' q"
  proof (cases "table_at m t (of_nat j)")
    case None
    with assms(1) j at show ?thesis by (auto simp: table_copied_def)
  next
    case (Some p)
    with assms(1) j obtain q where q: "table_at m' t' (of_nat j) = Some q" "page_equal m p m' q"
      by (auto simp: table_copied_def split: option.splits)
    have "q \<notin> S" using mapped_pages_in [OF j q(1)] assms(5) by auto
    with q Some at show ?thesis
      by (auto intro: page_equal_trans [OF q(2)] outside_page_equal [OF assms(2)] table_at_aligned)
  qed
qed

lemma table_copied_source:
  assumes "table_copied m' t1 n m'' t'" and "\<And>j. j < n \<Longrightarrow> table_at m' t1 (of_nat j) = table_at m t (of_nat j)"
    and "\<And>p. p \<in> set (mapped_pages m t n) \<Longrightarrow> page_equal m p m' p"
  shows "table_copied m t n m'' t'"
  using assms(1) unfolding table_copied_def
  by (auto simp: assms(2) split: option.splits) (meson assms(3) mapped_pages_in page_equal_trans)

lemma space_copied_target:
  assumes "space_copied m d n m' d'" and "outside S m' m''" and "n \<le> 1024"
    and "set (process_pages m' d' n) \<inter> S = {}"
    and "\<And>i. i < n \<Longrightarrow> table_at m'' d' (of_nat i) = table_at m' d' (of_nat i)"
  shows "space_copied m d n m'' d'"
  unfolding space_copied_def
proof (intro allI impI)
  fix i assume i: "i < n"
  show "case table_at m d (of_nat i) of None \<Rightarrow> table_at m'' d' (of_nat i) = None
     | Some t \<Rightarrow> \<exists>t'. table_at m'' d' (of_nat i) = Some t' \<and> table_copied m t 1024 m'' t'"
  proof (cases "table_at m d (of_nat i)")
    case None
    with assms(1) i assms(5) [OF i] show ?thesis by (auto simp: space_copied_def)
  next
    case (Some t)
    with assms(1) i obtain t' where t': "table_at m' d' (of_nat i) = Some t'" "table_copied m t 1024 m' t'"
      by (auto simp: space_copied_def split: option.splits)
    have "insert t' (set (mapped_pages m' t' 1024)) \<inter> S = {}"
      using process_pages_in [OF i t'(1)] assms(4) by auto
    from table_copied_target [OF t'(2) assms(2) table_at_aligned [OF t'(1)] order.refl this]
    show ?thesis using Some t'(1) assms(5) [OF i] by simp
  qed
qed

text \<open>The pages of a table, and the copies of it, when something else was written.\<close>

lemma table_outside:
  assumes "outside S m m'" and "page_aligned t" and "t \<notin> S" and "set (mapped_pages m t 1024) \<inter> S = {}"
  shows "mapped_pages m' t 1024 = mapped_pages m t 1024"
    and "table_copied m' t 1024 m'' t' \<Longrightarrow> table_copied m t 1024 m'' t'"
proof -
  show "mapped_pages m' t 1024 = mapped_pages m t 1024" using assms(1-3) by (intro mapped_pages_outside) simp_all
  assume "table_copied m' t 1024 m'' t'"
  then show "table_copied m t 1024 m'' t'"
  proof (rule table_copied_source)
    show "table_at m' t (of_nat j) = table_at m t (of_nat j)" if "j < 1024" for j
      using outside_table_at [OF assms(1-3), of "of_nat j"] that by (simp add: of_nat_index)
    show "page_equal m p m' p" if "p \<in> set (mapped_pages m t 1024)" for p
      using outside_page_equal [OF assms(1) mapped_pages_aligned [OF that]] assms(4) that by auto
  qed
qed

lemma space_copied_source:
  assumes "space_copied m' d1 n m'' d'" and "outside S m m'" and "set (process_pages m d n) \<inter> S = {}"
    and at: "\<And>i. i < n \<Longrightarrow> table_at m' d1 (of_nat i) = table_at m d (of_nat i)"
  shows "space_copied m d n m'' d'"
  unfolding space_copied_def
proof (intro allI impI)
  fix i assume i: "i < n"
  show "case table_at m d (of_nat i) of None \<Rightarrow> table_at m'' d' (of_nat i) = None
     | Some t \<Rightarrow> \<exists>t'. table_at m'' d' (of_nat i) = Some t' \<and> table_copied m t 1024 m'' t'"
  proof (cases "table_at m d (of_nat i)")
    case None
    with assms(1) i at [OF i] show ?thesis by (auto simp: space_copied_def)
  next
    case (Some t)
    with assms(1) i at [OF i] obtain t' where
      t': "table_at m'' d' (of_nat i) = Some t'" "table_copied m' t 1024 m'' t'"
      by (auto simp: space_copied_def split: option.splits)
    have "t \<notin> S" "set (mapped_pages m t 1024) \<inter> S = {}"
      using process_pages_in [OF i Some] assms(3) by auto
    from table_outside(2) [OF assms(2) table_at_aligned [OF Some] this t'(2)] t'(1)
    show ?thesis using Some by simp
  qed
qed

section \<open>Copying one table\<close>

lemma page_list_next:
  assumes "page_list (m, f) (q # ys)"
  shows "f = q" and "page_aligned q" and "q \<notin> set ys" and "page_list (m, load32 m q) ys"
  using assms by (auto simp: page_list_def)

lemma copy_page_entry_eq:
  "copy_page_entry t j s = (case table_at (fst s) t (of_nat j) of None \<Rightarrow> s
     | Some p \<Rightarrow> (store32 (memcopy (fst s) p (snd s) PAGESIZE) (t + 4 * of_nat j)
          (entry_word (VIR_2_PHY (snd s)) PAGE_PRIVILEGE_USER), load32 (fst s) (snd s)))"
  by (simp add: copy_page_entry_def present_pte page_of_pte table_at_def Let_def alloc_page_def store_pte_def
      generate_pte_word)

lemma copy_page_step:
  assumes "page_list (m, f) (q # ys)" and t: "page_aligned t" "t \<notin> set (q # ys)" and j: "j < 1024"
    and p: "table_at m t (of_nat j) = Some p" "p \<noteq> q"
  defines "s' \<equiv> copy_page_entry t j (m, f)"
  shows "page_list s' ys" and "outside {q, t} m (fst s')" and "page_equal m p (fst s') q"
    and "\<And>i. i < 1024 \<Longrightarrow> table_at (fst s') t (of_nat i) = (if i = j then Some q else table_at m t (of_nat i))"
proof -
  note q = page_list_next [OF assms(1)]
  let ?m = "memcopy m p q PAGESIZE"
  have s': "s' = (store32 ?m (t + 4 * of_nat j) (entry_word (VIR_2_PHY q) PAGE_PRIVILEGE_USER), load32 m q)"
    unfolding s'_def copy_page_entry_eq using p(1) q(1) by simp
  note cp = outside_memcopy [OF q(2) table_at_aligned [OF p(1)] p(2) [symmetric], where m = m]
  have st: "outside {t} ?m (fst s')"
    unfolding s' fst_conv using t(1) j by (intro outside_store) (simp_all add: of_nat_index)
  from outside_trans [OF cp(1) st] show out: "outside {q, t} m (fst s')" by (simp add: insert_commute)
  show "page_list s' ys"
    using outside_page_list [OF out q(4)] q(3) t(2) by (simp add: s')
  have "page_equal m p ?m q" using cp(2) by (simp add: page_equal_def)
  moreover have "page_equal ?m q (fst s') q" using st q(2) t(2) by (intro outside_page_equal) auto
  ultimately show "page_equal m p (fst s') q" by (rule page_equal_trans)
  show "table_at (fst s') t (of_nat i) = (if i = j then Some q else table_at m t (of_nat i))" if i: "i < 1024" for i
  proof -
    have "t \<notin> {q}" using t(2) by simp
    then have "table_at ?m t (of_nat i) = table_at m t (of_nat i)"
      using outside_table_at [OF cp(1) t(1), of "of_nat i"] i by (simp add: of_nat_index)
    then show ?thesis
      unfolding s' fst_conv using table_at_entry_store [OF t(1) q(2) j i] by simp
  qed
qed

lemma table_copied_Suc:
  "table_copied m t 0 m' t'"
  "table_copied m t (Suc n) m' t' \<longleftrightarrow> table_copied m t n m' t' \<and>
     (case table_at m t (of_nat n) of None \<Rightarrow> table_at m' t' (of_nat n) = None
      | Some p \<Rightarrow> \<exists>q. table_at m' t' (of_nat n) = Some q \<and> page_equal m p m' q)"
  by (auto simp: table_copied_def less_Suc_eq)

lemma space_copied_Suc:
  "space_copied m d 0 m' d'"
  "space_copied m d (Suc n) m' d' \<longleftrightarrow> space_copied m d n m' d' \<and>
     (case table_at m d (of_nat n) of None \<Rightarrow> table_at m' d' (of_nat n) = None
      | Some t \<Rightarrow> \<exists>t'. table_at m' d' (of_nat n) = Some t' \<and> table_copied m t 1024 m' t')"
  by (auto simp: space_copied_def less_Suc_eq)

text \<open>
  What the loops keep: \<open>c\<close> pages of the free list are used, the rest of the list is as it was, and
  nothing outside of these pages and the copied table changed.
\<close>

definition table_loop :: "mem \<Rightarrow> u32 list \<Rightarrow> u32 \<Rightarrow> nat \<Rightarrow> mem \<times> u32 \<Rightarrow> bool" where
  "table_loop m xs t n s \<longleftrightarrow>
     (let c = length (mapped_pages m t n) in
      page_list s (drop c xs) \<and> outside (insert t (set (take c xs))) m (fst s) \<and>
      mapped_pages (fst s) t n = take c xs \<and> table_copied m t n (fst s) t \<and>
      (\<forall>j. n \<le> j \<longrightarrow> j < 1024 \<longrightarrow> table_at (fst s) t (of_nat j) = table_at m t (of_nat j)))"

lemma copy_table_step:
  assumes inv: "table_loop m xs t n s" and t: "page_aligned t" "t \<notin> set xs" and n: "n < 1024"
    and xs: "distinct xs"
    and src: "set (mapped_pages m t (Suc n)) \<inter> insert t (set xs) = {}"
    and len: "length (mapped_pages m t (Suc n)) \<le> length xs"
  shows "table_loop m xs t (Suc n) (copy_page_entry t n s)"
proof (cases "table_at m t (of_nat n)")
  case None
  with inv n have "copy_page_entry t n s = s" by (simp add: copy_page_entry_eq table_loop_def Let_def)
  with inv None n show ?thesis
    by (simp add: table_loop_def Let_def mapped_pages_Suc table_copied_Suc)
next
  case (Some p)
  define c where "c = length (mapped_pages m t n)"
  obtain m1 f where s: "s = (m1, f)" by (cases s)
  from inv have I: "page_list (m1, f) (drop c xs)" "outside (insert t (set (take c xs))) m m1"
    "mapped_pages m1 t n = take c xs" "table_copied m t n m1 t"
    "\<And>j. n \<le> j \<Longrightarrow> j < 1024 \<Longrightarrow> table_at m1 t (of_nat j) = table_at m t (of_nat j)"
    by (simp_all add: table_loop_def Let_def c_def s)
  from len Some have c: "c < length xs" by (simp add: c_def mapped_pages_Suc)
  define q where "q = xs ! c"
  have drop: "drop c xs = q # drop (Suc c) xs" and take: "take (Suc c) xs = take c xs @ [q]"
    using c by (simp_all add: q_def Cons_nth_drop_Suc take_Suc_conv_app_nth)
  have q: "q \<in> set xs" "q \<notin> set (take c xs)"
    using c xs by (auto simp: q_def in_set_conv_nth nth_eq_iff_index_eq)
  from src Some have p: "p \<notin> insert t (set xs)" by (auto simp: mapped_pages_Suc)
  have tq: "t \<notin> set (q # drop (Suc c) xs)" using t(2) q(1) by (auto dest: in_set_dropD)
  have at: "table_at m1 t (of_nat n) = Some p" using I(5) [OF order.refl n] Some by simp
  have pq: "p \<noteq> q" using p q(1) by auto
  note step = copy_page_step [OF I(1) [unfolded drop] t(1) tq n at pq]
  let ?s = "copy_page_entry t n (m1, f)"
  have keep: "table_at (fst ?s) t (of_nat j) = table_at m1 t (of_nat j)" if "j < n" for j
    using step(4) [of j] that n by simp
  have mp: "mapped_pages (fst ?s) t n = take c xs"
    unfolding I(3) [symmetric] using keep by (rule mapped_pages_cong)
  have "outside (insert t (set (take (Suc c) xs))) m (fst ?s)"
    using outside_trans [OF I(2) step(2)] by (rule outside_mono) (auto simp: take)
  moreover have "table_copied m t n (fst ?s) t"
    unfolding table_copied_def
  proof (intro allI impI)
    fix j assume j: "j < n"
    show "case table_at m t (of_nat j) of None \<Rightarrow> table_at (fst ?s) t (of_nat j) = None
       | Some p \<Rightarrow> \<exists>q. table_at (fst ?s) t (of_nat j) = Some q \<and> page_equal m p (fst ?s) q"
    proof (cases "table_at m t (of_nat j)")
      case None
      with I(4) j keep [OF j] show ?thesis by (auto simp: table_copied_def)
    next
      case (Some p')
      with I(4) j obtain r where r: "table_at m1 t (of_nat j) = Some r" "page_equal m p' m1 r"
        by (auto simp: table_copied_def split: option.splits)
      have "r \<in> set (take c xs)" using mapped_pages_in [OF j r(1)] I(3) by simp
      then have "r \<notin> {q, t}" using q(2) t(2) by (auto dest: in_set_takeD)
      from outside_page_equal [OF step(2) table_at_aligned [OF r(1)] this] r Some keep [OF j]
      show ?thesis by (auto intro: page_equal_trans)
    qed
  qed
  moreover have "page_equal m p m1 p"
    using p by (intro outside_page_equal [OF I(2)] table_at_aligned [OF Some]) (auto dest: in_set_takeD)
  with step(3) have "page_equal m p (fst ?s) q" by (rule page_equal_trans [rotated])
  ultimately show ?thesis
    using step(1,4) n I(5) Some mp
    by (simp add: table_loop_def Let_def mapped_pages_Suc table_copied_Suc s take flip: c_def)
qed

lemma copy_table:
  assumes "page_list (m, f) xs" and "page_aligned t" and "t \<notin> set xs" and "n \<le> 1024"
    and "set (mapped_pages m t n) \<inter> insert t (set xs) = {}" and "length (mapped_pages m t n) \<le> length xs"
  shows "table_loop m xs t n (fold (copy_page_entry t) [0..<n] (m, f))"
  using assms(4-6)
proof (induction n)
  case 0
  then show ?case
    using assms(1) by (simp add: table_loop_def mapped_pages_Suc table_copied_Suc)
next
  case (Suc n)
  have sub: "set (mapped_pages m t n) \<subseteq> set (mapped_pages m t (Suc n))" by (rule mapped_pages_mono) simp
  have "length (mapped_pages m t n) \<le> length (mapped_pages m t (Suc n))" by (simp add: mapped_pages_Suc)
  with Suc sub have "table_loop m xs t n (fold (copy_page_entry t) [0..<n] (m, f))" by auto
  from copy_table_step [OF this assms(2,3) _ _ Suc.prems(2,3)] Suc.prems(1) assms(1)
  show ?case by (simp add: page_list_def)
qed

section \<open>Copying an address space\<close>

lemma copy_dir_entry_eq:
  assumes "page_list s (q # ys)" and "page_aligned d" and "d \<noteq> q" and "i < 1024"
  shows "copy_dir_entry d i s = (case table_at (fst s) d (of_nat i) of None \<Rightarrow> s
     | Some t \<Rightarrow> fold (copy_page_entry q) [0..<1024]
         (store32 (memcopy (fill (fst s) q PAGESIZE 0) t q PAGESIZE) (d + 4 * of_nat i)
            (entry_word (VIR_2_PHY q) PAGE_PRIVILEGE_USER), load32 (fst s) q))"
proof -
  obtain m f where s: "s = (m, f)" by (cases s)
  note q = page_list_next [OF assms(1) [unfolded s]]
  have "load32 (fill m q PAGESIZE 0) (d + 4 * of_nat i) = load32 m (d + 4 * of_nat i)"
    using load_entry_fill [OF q(2) assms(2), of "of_nat i"] assms(3,4) by (simp add: of_nat_index)
  with q(1) show ?thesis
    by (simp add: s copy_dir_entry_def present_pde table_of_pde table_at_def Let_def alloc_page_def
        store_pde_def generate_pde_word del: upt_Suc upt_rec_numeral)
qed

text \<open>The first part of a step: the new table, a copy of \<open>t\<close>, in the place of \<open>t\<close>.\<close>

lemma copy_dir_step:
  assumes "page_list (m, f) (q # ys)" and d: "page_aligned d" "d \<notin> set (q # ys)" and i: "i < 1024"
    and t: "page_aligned t" "t \<notin> {d, q}"
  defines "m' \<equiv> store32 (memcopy (fill m q PAGESIZE 0) t q PAGESIZE) (d + 4 * of_nat i)
    (entry_word (VIR_2_PHY q) PAGE_PRIVILEGE_USER)"
  shows "outside {q, d} m m'" and "page_list (m', load32 m q) ys"
    and "\<And>j. j < 1024 \<Longrightarrow> table_at m' q (of_nat j) = table_at m t (of_nat j)"
    and "\<And>j. j < 1024 \<Longrightarrow> table_at m' d (of_nat j) = (if j = i then Some q else table_at m d (of_nat j))"
proof -
  note q = page_list_next [OF assms(1)]
  let ?f = "fill m q PAGESIZE 0" and ?c = "memcopy (fill m q PAGESIZE 0) t q PAGESIZE"
  have "q \<noteq> t" using t(2) by auto
  note cp = outside_memcopy(1) [OF q(2) t(1) this, of ?f]
  have st: "outside {d} ?c m'" unfolding m'_def using d(1) i by (intro outside_store) (simp_all add: of_nat_index)
  from outside_trans [OF outside_fill [OF q(2), of m 0] cp] have mc: "outside {q} m ?c" by simp
  from outside_trans [OF mc st] show out: "outside {q, d} m m'" by (simp add: insert_commute)
  show "page_list (m', load32 m q) ys" using outside_page_list [OF out q(4)] q(3) d(2) by simp
  show "table_at m' q (of_nat j) = table_at m t (of_nat j)" if j: "j < 1024" for j
  proof -
    have k: "unat (of_nat j :: u32) < 1024" using j by (simp add: of_nat_index)
    have "load32 m' (q + 4 * of_nat j) = load32 ?c (q + 4 * of_nat j)"
      using d(2) by (intro outside_load [OF st q(2) _ k]) auto
    also have "\<dots> = load32 ?f (t + 4 * of_nat j)" using t \<open>q \<noteq> t\<close> k by (intro memcopy_load q)
    also have "\<dots> = load32 m (t + 4 * of_nat j)"
      using t by (intro outside_load [OF outside_fill [OF q(2)] t(1) _ k]) auto
    finally show ?thesis by (simp add: table_at_def)
  qed
  show "table_at m' d (of_nat j) = (if j = i then Some q else table_at m d (of_nat j))" if j: "j < 1024" for j
    unfolding m'_def table_at_entry_store [OF d(1) q(2) i j]
    using outside_table_at [OF mc d(1), of "of_nat j"] d(2) j by (simp add: of_nat_index)
qed

text \<open>A whole step: then the pages of the new table.\<close>

lemma copy_dir_entry_step:
  assumes pl: "page_list (m, f) (q # ys)" and d: "page_aligned d" "d \<notin> set (q # ys)" and i: "i < 1024"
    and t: "table_at m d (of_nat i) = Some t"
    and src: "insert t (set (mapped_pages m t 1024)) \<inter> insert d (set (q # ys)) = {}"
    and e: "e = length (mapped_pages m t 1024)" "e \<le> length ys"
  defines "s' \<equiv> copy_dir_entry d i (m, f)" and "S \<equiv> insert d (insert q (set (take e ys)))"
  shows "page_list s' (drop e ys)" and "outside S m (fst s')"
    and "mapped_pages (fst s') q 1024 = take e ys" and "table_copied m t 1024 (fst s') q"
    and "\<And>j. j < 1024 \<Longrightarrow> table_at (fst s') d (of_nat j) = (if j = i then Some q else table_at m d (of_nat j))"
proof -
  note q = page_list_next [OF pl] and at = table_at_aligned [OF t]
  have tq: "t \<notin> {d, q}" "d \<noteq> q" using src d(2) by auto
  define m2 where "m2 = store32 (memcopy (fill m q PAGESIZE 0) t q PAGESIZE) (d + 4 * of_nat i)
    (entry_word (VIR_2_PHY q) PAGE_PRIVILEGE_USER)"
  note step = copy_dir_step [OF pl d i at tq(1), folded m2_def]
  have s': "s' = fold (copy_page_entry q) [0..<1024] (m2, load32 m q)"
    using copy_dir_entry_eq [OF pl d(1) tq(2) i] t by (simp add: s'_def m2_def del: upt_Suc upt_rec_numeral)
  have mp: "mapped_pages m2 q 1024 = mapped_pages m t 1024" using step(3) by (rule mapped_pages_cong)
  have "table_loop m2 ys q 1024 s'"
    unfolding s' using src e q(3) by (intro copy_table step q(2)) (auto simp: mp)
  then have T: "page_list s' (drop e ys)" "outside (insert q (set (take e ys))) m2 (fst s')"
    "mapped_pages (fst s') q 1024 = take e ys" "table_copied m2 q 1024 (fst s') q"
    by (simp_all add: table_loop_def Let_def mp e(1))
  then show "page_list s' (drop e ys)" and "mapped_pages (fst s') q 1024 = take e ys" by simp_all
  show "outside S m (fst s')"
    unfolding S_def using outside_trans [OF step(1) T(2)] by (rule outside_mono) auto
  have dn: "d \<notin> insert q (set (take e ys))" using d(2) by (auto dest: in_set_takeD)
  show "table_at (fst s') d (of_nat j) = (if j = i then Some q else table_at m d (of_nat j))" if "j < 1024" for j
    using step(4) [OF that] outside_table_at [OF T(2) d(1) dn, of "of_nat j"] that by (simp add: of_nat_index)
  show "table_copied m t 1024 (fst s') q"
  proof (rule table_copied_source [OF T(4) step(3)])
    fix p assume p: "p \<in> set (mapped_pages m t 1024)"
    with src have "p \<notin> {q, d}" by auto
    from outside_page_equal [OF step(1) mapped_pages_aligned [OF p] this] show "page_equal m p m2 p" .
  qed
qed

definition space_loop :: "mem \<Rightarrow> u32 list \<Rightarrow> u32 \<Rightarrow> nat \<Rightarrow> mem \<times> u32 \<Rightarrow> bool" where
  "space_loop m xs d n s \<longleftrightarrow>
     (let c = length (process_pages m d n) in
      page_list s (drop c xs) \<and> outside (insert d (set (take c xs))) m (fst s) \<and>
      mset (process_pages (fst s) d n) = mset (take c xs) \<and> space_copied m d n (fst s) d \<and>
      (\<forall>i. n \<le> i \<longrightarrow> i < 1024 \<longrightarrow> table_at (fst s) d (of_nat i) = table_at m d (of_nat i)))"

lemma copy_space_step:
  assumes inv: "space_loop m xs d n s" and d: "page_aligned d" "d \<notin> set xs" and n: "n < 1024"
    and xs: "distinct xs"
    and src: "set (process_pages m d (Suc n)) \<inter> insert d (set xs) = {}"
    and len: "length (process_pages m d (Suc n)) \<le> length xs"
    and t: "table_at m d (of_nat n) = Some t"
  shows "space_loop m xs d (Suc n) (copy_dir_entry d n s)"
proof -
  define c where "c = length (process_pages m d n)"
  define e where "e = length (mapped_pages m t 1024)"
  obtain m1 f where s: "s = (m1, f)" by (cases s)
  from inv have I: "page_list (m1, f) (drop c xs)" "outside (insert d (set (take c xs))) m m1"
    "mset (process_pages m1 d n) = mset (take c xs)" "space_copied m d n m1 d"
    "\<And>j. n \<le> j \<Longrightarrow> j < 1024 \<Longrightarrow> table_at m1 d (of_nat j) = table_at m d (of_nat j)"
    by (simp_all add: space_loop_def Let_def c_def s)
  from len t have c: "c + e < length xs" by (simp add: c_def e_def process_pages_Suc)
  define q ys where "q = xs ! c" and "ys = drop (Suc c) xs"
  have drop: "drop c xs = q # ys" using c by (simp add: q_def ys_def Cons_nth_drop_Suc)
  have xs_eq: "xs = take c xs @ q # ys" by (simp flip: drop)
  have take: "take (c + Suc e) xs = take c xs @ q # take e ys"
    using take_add [of c "Suc e" xs] by (simp only: drop take_Suc_Cons)
  from xs have dist: "set (take c xs) \<inter> insert q (set ys) = {}" by (subst (asm) xs_eq; auto)
  have sub: "set (take c xs) \<subseteq> set xs" "insert q (set ys) \<subseteq> set xs"
    using set_take_subset [of c xs] set_drop_subset [of c xs] by (simp_all add: drop)
  have tp: "insert t (set (mapped_pages m t 1024)) \<inter> insert d (set xs) = {}"
    using src t by (auto simp: process_pages_Suc)
  then have far: "t \<notin> insert d (set (take c xs))" "set (mapped_pages m t 1024) \<inter> insert d (set (take c xs)) = {}"
    using sub by auto
  note same = table_outside [OF I(2) table_at_aligned [OF t] far]
  have "insert t (set (mapped_pages m1 t 1024)) \<inter> insert d (set (q # ys)) = {}"
    and "d \<notin> set (q # ys)" and "e \<le> length ys" and "e = length (mapped_pages m1 t 1024)"
    and "table_at m1 d (of_nat n) = Some t"
    using tp sub d(2) c t I(5) [OF order.refl n] by (auto simp: same(1) e_def ys_def)
  from copy_dir_entry_step [OF I(1) [unfolded drop] d(1) this(2) n this(5,1,4,3)]
  have S: "page_list s' (drop e ys)" "outside (insert d (insert q (set (take e ys)))) m1 (fst s')"
    "mapped_pages (fst s') q 1024 = take e ys" "table_copied m1 t 1024 (fst s') q"
    "\<And>j. j < 1024 \<Longrightarrow> table_at (fst s') d (of_nat j) = (if j = n then Some q else table_at m1 d (of_nat j))"
    if "s' = copy_dir_entry d n s" for s' unfolding that s .
  define s' where "s' = copy_dir_entry d n s"
  note S = S [OF s'_def]
  from I(3) have "set (process_pages m1 d n) = set (take c xs)" by (metis set_mset_mset)
  then have old: "set (process_pages m1 d n) \<inter> insert d (insert q (set (take e ys))) = {}"
    using d(2) sub dist by (auto dest: in_set_takeD)
  have pp: "process_pages (fst s') d n = process_pages m1 d n"
    using n S(5) by (intro process_pages_outside [OF S(2) _ old]) simp_all
  have sc: "space_copied m d n (fst s') d"
    using n S(5) by (intro space_copied_target [OF I(4) S(2) _ old]) simp_all
  have tc: "table_copied m t 1024 (fst s') q" by (rule same(2) [OF S(4)])
  have out': "outside (insert d (set (take (c + Suc e) xs))) m (fst s')"
    unfolding take using outside_trans [OF I(2) S(2)] by (rule outside_mono) auto
  have len': "length (process_pages m d (Suc n)) = c + Suc e" by (simp add: process_pages_Suc t c_def e_def)
  have drop': "drop (c + Suc e) xs = drop e ys" by (simp add: ys_def add.commute)
  from S(1,3) out' tc sc pp I(3,5) S(5) n show ?thesis
    unfolding s'_def [symmetric] space_loop_def len' Let_def take drop'
    by (simp add: process_pages_Suc space_copied_Suc t)
qed

lemma copy_space:
  assumes "page_list (m, f) xs" and "page_aligned d" and "d \<notin> set xs" and "n < 1024"
    and "set (process_pages m d n) \<inter> insert d (set xs) = {}" and "length (process_pages m d n) < length xs"
  shows "space_loop m xs d n (fold (copy_dir_entry d) [0..<n] (m, f))"
  using assms(4-6)
proof (induction n)
  case 0
  then show ?case
    using assms(1) by (simp add: space_loop_def process_pages_Suc space_copied_Suc)
next
  case (Suc n)
  let ?s = "fold (copy_dir_entry d) [0..<n] (m, f)"
  from Suc have IH: "space_loop m xs d n ?s" by (auto simp: process_pages_Suc)
  have dist: "distinct xs" using assms(1) by (simp add: page_list_def)
  have "space_loop m xs d (Suc n) (copy_dir_entry d n ?s)"
  proof (cases "table_at m d (of_nat n)")
    case None
    from Suc.prems(3) have "drop (length (process_pages m d n)) xs \<noteq> []" by (simp add: process_pages_Suc)
    then obtain q ys where qs: "drop (length (process_pages m d n)) xs = q # ys" by (cases "drop (length (process_pages m d n)) xs") auto
    then have "d \<noteq> q" using assms(3) by (metis in_set_dropD list.set_intros(1))
    moreover from IH qs have "page_list ?s (q # ys)" by (simp add: space_loop_def Let_def)
    moreover have "table_at (fst ?s) d (of_nat n) = None"
      using IH None Suc.prems(1) by (simp add: space_loop_def Let_def)
    ultimately have "copy_dir_entry d n ?s = ?s"
      using copy_dir_entry_eq [of ?s q ys d n] assms(2) Suc.prems(1) by simp
    with IH None Suc.prems(1) show ?thesis
      by (simp add: space_loop_def Let_def process_pages_Suc space_copied_Suc)
  next
    case (Some t)
    from copy_space_step [OF IH assms(2,3) _ dist Suc.prems(2) _ Some] Suc.prems(1,3) show ?thesis by simp
  qed
  then show ?case by simp
qed

section \<open>What the two processes read\<close>

lemma frame_offset: "PHY_2_VIR ((w AND 0xfffff000) OR (va AND 0xfff)) = PHY_2_VIR (w AND 0xfffff000) + (va AND 0xfff)"
proof -
  have "(w AND 0xfffff000) OR (va AND 0xfff) = (w AND 0xfffff000) + (va AND 0xfff)"
    unfolding page_mask index_masks by (rule disjunctive_add [symmetric]) (auto simp: bit_simps)
  then show ?thesis by (simp add: PHY_2_VIR_def)
qed

lemma translated_byte:
  "map_option (\<lambda>(a, _). m (PHY_2_VIR a)) (translate m d va) = do {
     t \<leftarrow> table_at m d (dir_index va);
     p \<leftarrow> table_at m t (table_index va);
     Some (m (p + (va AND 0xfff)))
   }"
  by (cases "table_at m d (dir_index va)")
     (auto simp: translate_def table_at_def [of m _ "table_index va"] Let_def frame_offset)

lemma page_offset: "\<exists>i < 4096. va AND 0xfff = (of_nat i :: u32)"
proof -
  have "unat (take_bit 12 va) < 2 ^ 12" by (simp only: unsigned_take_bit_eq take_bit_nat_less_exp)
  then show ?thesis
    by (intro exI [of _ "unat (take_bit 12 va)"]) (simp add: index_masks take_bit_eq_mask)
qed

lemma user_dir_index: "unat va < 0xc0000000 \<Longrightarrow> unat (dir_index va) < 768"
  by (simp add: dir_index_def drop_bit_eq_div unat_div less_mult_imp_div_less)

lemma space_copied_byte:
  assumes "space_copied m d 768 m' d'" and "unat va < 0xc0000000"
  shows "map_option (\<lambda>(a, _). m' (PHY_2_VIR a)) (translate m' d' va) =
    map_option (\<lambda>(a, _). m (PHY_2_VIR a)) (translate m d va)"
proof -
  define i j where "i = unat (dir_index va)" and "j = unat (table_index va)"
  have ij: "i < 768" "j < 1024" "dir_index va = of_nat i" "table_index va = of_nat j"
    using user_dir_index [OF assms(2)] table_index_less [of va] by (simp_all add: i_def j_def)
  obtain b where b: "b < 4096" "va AND 0xfff = of_nat b" using page_offset by blast
  show ?thesis
  proof (cases "table_at m d (of_nat i)")
    case None
    with assms(1) ij show ?thesis unfolding translated_byte by (auto simp: space_copied_def)
  next
    case (Some t)
    with assms(1) ij(1) obtain t' where t': "table_at m' d' (of_nat i) = Some t'" "table_copied m t 1024 m' t'"
      by (auto simp: space_copied_def split: option.splits)
    with ij(2) b(1) Some show ?thesis
      unfolding translated_byte ij(3,4) b(2)
      by (cases "table_at m t (of_nat j)") (fastforce simp: table_copied_def page_equal_def)+
  qed
qed

lemma space_copied_vread:
  assumes "space_copied m d 768 m' d'"
  shows "unat va + n \<le> 0xc0000000 \<Longrightarrow> vread d' m' va n = vread d m va n"
proof (induction n arbitrary: va)
  case (Suc n)
  have "unat (va + 1) = unat va + 1" using Suc.prems by (subst unat_add_small) simp_all
  with Suc have "vread d' m' (va + 1) n = vread d m (va + 1) n" by simp
  moreover have "map_option (\<lambda>(a, _). m' (PHY_2_VIR a)) (translate m' d' va) =
      map_option (\<lambda>(a, _). m (PHY_2_VIR a)) (translate m d va)"
    using assms Suc.prems by (intro space_copied_byte) simp_all
  ultimately show ?case
    by (cases "translate m' d' va"; cases "translate m d va") auto
qed simp

lemma space_copied_refl: "space_copied m d n m d"
  by (auto simp: space_copied_def table_copied_def page_equal_def split: option.split)

text \<open>The new directory is a copy of the old one.\<close>

lemma copy_directory:
  fixes m :: mem
  assumes "page_aligned d" and "page_aligned d'" and "d \<noteq> d'"
  defines "m1 \<equiv> memcopy (fill m d' PAGESIZE 0) d d' PAGESIZE"
  shows "outside {d'} m m1" and "\<And>j. j < 1024 \<Longrightarrow> table_at m1 d' (of_nat j) = table_at m d (of_nat j)"
    and "n \<le> 1024 \<Longrightarrow> d' \<notin> set (process_pages m d n) \<Longrightarrow> process_pages m1 d' n = process_pages m d n"
proof -
  have d: "d \<notin> {d'}" "d' \<noteq> d" using assms(3) by auto
  note fl = outside_fill [OF assms(2), of m 0]
  show out: "outside {d'} m m1"
    using outside_trans [OF fl outside_memcopy(1) [OF assms(2,1) d(2)]] by (simp add: m1_def)
  show tabs: "table_at m1 d' (of_nat j) = table_at m d (of_nat j)" if "j < 1024" for j
    using memcopy_load [OF assms(2,1) d(2), of "of_nat j"] outside_load [OF fl assms(1) d(1), of "of_nat j"] that
    by (simp add: table_at_def m1_def of_nat_index)
  have old: "table_at m1 d (of_nat j) = table_at m d (of_nat j)" if "j < 1024" for j
    using outside_table_at [OF out assms(1) d(1), of "of_nat j"] that by (simp add: of_nat_index)
  assume n: "n \<le> 1024" "d' \<notin> set (process_pages m d n)"
  have "process_pages m1 d' n = process_pages m1 d n"
    using tabs old n unfolding process_pages_def by (intro arg_cong [where f = concat] map_cong) simp_all
  also have "\<dots> = process_pages m d n" using n old by (intro process_pages_outside [OF out]) simp_all
  finally show "process_pages m1 d' n = process_pages m d n" .
qed

section \<open>Property: the child's memory\<close>

text \<open>
  C5: \<open>fork\<close> gives the child an address space of its own: its directory, page tables and pages are the
  first pages of the free list, each used once, and no other page of memory is written.  Below 3 GB the
  child reads at every address what the parent read before, a fault where it had a fault; the parent still
  reads the same; above 3 GB they share the kernel's tables.
\<close>

theorem fork_copies_memory:
  assumes "page_list (pool k) qs" and "d = p_pagedir (current_pcb k)" and "page_aligned d"
    and "ps = process_pages (kmem k) d 768" and "set (d # ps) \<inter> set qs = {}"
    and "length ps + 1 < length qs" and "i < length (pcblist k)" and "i \<noteq> current_process k"
  shows "let k' = copy_process_mem i k; d' = p_pagedir (pcblist k' ! i); new = take (length ps + 1) qs in
    page_list (pool k') (drop (length ps + 1) qs) \<and> outside (set new) (kmem k) (kmem k') \<and>
    mset (d' # process_pages (kmem k') d' 768) = mset new \<and>
    (\<forall>j. 768 \<le> j \<longrightarrow> j < 1024 \<longrightarrow> table_at (kmem k') d' (of_nat j) = table_at (kmem k) d (of_nat j)) \<and>
    (\<forall>va n. unat va + n \<le> 0xc0000000 \<longrightarrow>
       vread d' (kmem k') va n = vread d (kmem k) va n \<and> vread d (kmem k') va n = vread d (kmem k) va n)"
proof -
  from assms(6) obtain d' ys where qs: "qs = d' # ys" by (cases qs) auto
  define m where "m = kmem k"
  have "page_list (m, free_list k) (d' # ys)" using assms(1) by (simp add: qs m_def)
  note q = page_list_next [OF this]
  define m1 where "m1 = memcopy (fill m d' PAGESIZE 0) d d' PAGESIZE"
  define s where "s = fold (copy_dir_entry d') [0..<768] (m1, load32 m d')"
  have dd: "d \<noteq> d'" "d' \<notin> set ps" using assms(5) qs by auto
  note dir = copy_directory [OF assms(3) q(2) dd(1), where m = m, folded m1_def]
  note o1 = dir(1) and tabs = dir(2)
  have ps1: "process_pages m1 d' 768 = ps" using dir(3) [of 768] dd(2) assms(4) by (simp add: m_def)
  have "page_list (m1, load32 m d') ys" using outside_page_list [OF o1 q(4)] q(3) by simp
  then have "space_loop m1 ys d' 768 s"
    unfolding s_def using q assms(5,6) ps1 by (intro copy_space) (auto simp: qs)
  then have S: "page_list s (drop (length ps) ys)" "outside (insert d' (set (take (length ps) ys))) m1 (fst s)"
    "mset (process_pages (fst s) d' 768) = mset (take (length ps) ys)" "space_copied m1 d' 768 (fst s) d'"
    "\<forall>j. 768 \<le> j \<longrightarrow> j < 1024 \<longrightarrow> table_at (fst s) d' (of_nat j) = table_at m1 d' (of_nat j)"
    by (simp_all add: space_loop_def Let_def ps1)
  have new: "take (length ps + 1) qs = d' # take (length ps) ys" "drop (length ps + 1) qs = drop (length ps) ys"
    by (simp_all add: qs)
  have out: "outside (set (take (length ps + 1) qs)) m (fst s)"
    unfolding new using outside_trans [OF o1 S(2)] by (rule outside_mono) auto
  have child: "space_copied m d 768 (fst s) d'"
    using dd(2) assms(4) tabs by (intro space_copied_source [OF S(4) o1]) (simp_all add: m_def)
  have free: "set (d # ps) \<inter> set (take (length ps + 1) qs) = {}"
    using assms(5) by (auto dest: in_set_takeD)
  then have "space_copied m d 768 (fst s) d"
    using assms(4) outside_table_at [OF out assms(3)]
    by (intro space_copied_target [OF space_copied_refl out]) (simp_all add: m_def of_nat_index)
  note reads = space_copied_vread [OF child] space_copied_vread [OF this]
  have k': "copy_process_mem i k = set_pool s (update_pcb i (\<lambda>p. p\<lparr>p_pagedir := d'\<rparr>) k)"
    using assms(2,8) q(1)
    by (simp add: copy_process_mem_def alloc_page_def s_def m1_def m_def update_pcb_def Let_def
        del: upt_Suc upt_rec_numeral)
  have "p_pagedir (pcblist (copy_process_mem i k) ! i) = d'" using assms(7) by (simp add: k' update_pcb_def)
  with S out reads tabs show ?thesis
    unfolding Let_def new by (simp add: k' m_def)
qed

theorem fork_copies_memory_witness:
  "let k' = copy_process_mem 3 one_page; d' = p_pagedir (pcblist k' ! 3) in
     page_list (pool k') [0xc0401000] \<and>
     mset (d' # process_pages (kmem k') d' 768) = {#0xc0404000, 0xc0403000, 0xc0402000#} \<and>
     vread d' (kmem k') 0 4096 = vread 0xc0200000 (kmem one_page) 0 4096"
  using fork_copies_memory [OF one_page(1) one_page(4) [symmetric], where ps = "[0xc0202000, 0xc0201000]" and i = 3]
  by (auto simp: one_page(2,3,5) Let_def)

end
