(* ===== verification/Spec2Isabelle.thy ===== *)
theory Spec2Isabelle
  imports Boot Unistd Lock UserCopy
begin

text \<open>
  A verification library for the teaching kernel NBOS (\<open>src/\<close>): a 32-bit x86 kernel in C with paging,
  processes, a small file system on an IDE disk, a text console, a keyboard, system calls through
  \<open>int 0x80\<close>, and a shell.

  \<^bold>\<open>How the program hangs together.\<close>  \<open>loader.c\<close> loads the kernel's ELF segments; \<open>entry.c\<close> builds its page
  tables and jumps to \<open>main\<close>, which initialises memory, interrupts, the task segment, the file
  system and the process table, switches to user mode as process 0, and forks the shell.  From then on
  the kernel only runs in interrupts: the entry code builds a frame, \<open>interrupt_assign\<close> dispatches to
  the clock, the keyboard, exceptions or a system call.  System calls work on the state of all
  components: process table, table of open files, free pages, disk, screen, keyboard.

  \<^bold>\<open>Theories and sources.\<close>
  \<^item> \<open>Prelude\<close>: machine words, bytes in arrays and memory, searches; the locales \<open>free_pool\<close>,
    \<open>checked_pool\<close> and \<open>returning_pool\<close> for allocators.
  \<^item> \<open>Lock\<close> (\<open>lock.c\<close>, \<open>x86.c\<close>): the spin lock, alone and as a step relation of several processors.
  \<^item> \<open>Disk\<close> (\<open>diskload.c\<close>): the IDE driver over ports; locale \<open>block_device\<close>.
  \<^item> \<open>FsLayout\<close>, \<open>FsAlloc\<close>, \<open>FsInit\<close>, \<open>FsDir\<close>, \<open>FsData\<close>, \<open>FileTable\<close> (\<open>file.c\<close>): structures on disk (locale
    \<open>codec\<close>), free inodes and the block bitmap, formatting, directories and paths, reading and writing
    files (locale \<open>buffer\<close>: kernel or process memory), open files.  \<open>Cstr\<close> (\<open>str.c\<close>): strings.
  \<^item> \<open>Console\<close> (\<open>print.c\<close>), \<open>Keyboard\<close> (\<open>keyboard.c\<close>).
  \<^item> \<open>Elf\<close> (\<open>elf.h\<close>), \<open>Loader\<close> (\<open>loader.c\<close>, \<open>diskload.c\<close>), \<open>PhysMem\<close> and \<open>Paging\<close> (\<open>memory.c\<close>): free pages,
    copying, page tables against the processor's walk \<open>translate\<close>.
  \<^item> \<open>Process\<close> (\<open>process.c\<close>): control blocks, numbering, scheduling (locale \<open>lowest_first\<close>), loading a
    program.  The record \<open>kernel\<close> is the state of everything a system call can touch.
  \<^item> \<open>Syscall\<close> (\<open>syscall.c\<close>), \<open>Interrupt\<close> (\<open>interrupt.c\<close>): one definition per handler; gates; dispatch.
  \<^item> \<open>UserPages\<close>, \<open>UserCopy\<close> (\<open>syscall.c\<close>): the pages of a process, freed by \<open>execve\<close> and copied by \<open>fork\<close>.
  \<^item> \<open>TableMachine\<close>: one interrupt as the step relation \<open>kernel_step\<close>, \<open>reachable\<close>, the locales \<open>step_invariant\<close>
    and \<open>quiet_invariant\<close>, the process table as a machine of its own with its invariants.  \<open>System\<close>: the first
    process, its \<open>_exit\<close>, being resumed by the clock.  \<open>Descriptors\<close>: the invariant of descriptors and open files.
  \<^item> \<open>Boot\<close> (\<open>entry.c\<close>, \<open>task.c\<close>, \<open>main.c\<close>): page tables, segments, the order of initialisation.
  \<^item> \<open>Unistd\<close> (\<open>unistd.c\<close>, \<open>shell.c\<close>, \<open>mypro.c\<close>): wrappers of the system calls, the user programs.
  \<^item> This theory: what holds of the whole, from start-up on.

  \<^bold>\<open>Conventions.\<close>  A C function is a function from its arguments and the state it touches to its result
  and the new state.  Integers have the width they have in C; an \<open>int\<close> result is an \<open>int\<close>.  \<open>None\<close> is
  what C leaves undefined or what never comes back: an access outside an array, a null pointer that is
  followed, a loop that does not end.  A function that ends without a \<open>return\<close> has \<open>None\<close> as its result
  value.  What uninitialised locals hold are arguments (\<open>locals\<close>, \<open>stack_bytes\<close>).

  \<^bold>\<open>What the lemmas show.\<close>  Allocators hand out distinct free items until none is left, as far as their
  bounds reach; codecs round-trip and structures on disk do not disturb each other; the disk driver,
  run against any device that behaves as ATA specifies, transfers the right sector; formatting
  leaves the two programs where the paths \<open>/shell\<close> and \<open>/mypro\<close> lead; files read back what was written;
  page tables translate as intended; \<open>fork\<close> copies every page; numbering finds fresh numbers;
  scheduling and system calls keep the process table consistent over any sequence of interrupts, entirely
  so until the first process calls \<open>_exit\<close>.  Where the code does something else than it means to, the
  property states what it does: shared descriptors, starving processes, the missing standard descriptors,
  freed page tables that stay in a directory, bitmap and directory errors at their boundaries.

  \<^bold>\<open>Loops.\<close>  No fuel is used: loops with a bound are structural or have a measure (\<open>link_pages\<close>,
  \<open>seek_path\<close>, \<open>minfd_loop\<close>, \<open>entry_table\<close>); loops that may not end are \<open>partial_function (option)\<close>
  (\<open>acquire\<close>, \<open>wait_drq\<close>, \<open>getPid\<close>, \<open>read_seg_loop\<close>, \<open>wait_loop\<close>), and that they end where they do is proved.

  \<^bold>\<open>Assumed.\<close>  The drive behind the ports (hypotheses of the driver's theorem, met by a simulated
  drive); handlers run with interrupts off, as their gates say.

  \<^bold>\<open>Not modelled.\<close>  Interrupts between the \<open>sti\<close> of \<open>main\<close> and its switch to user mode; the load of the task
  register and the pointer to the task segment in the processor's record.  The assembly files: the boot
  sector, the sector read of the boot loader (an argument of \<open>Loader\<close>), the entry code (its frame is
  \<open>intr_context\<close>, its part after a handler an \<open>outcome\<close>) and
  \<open>switchCtx\<close> (the context it loads is a result).  Loads of control registers are results.  The macro
  of \<open>debug.h\<close> is not used.  A store of the program to a page that is not mapped is \<open>None\<close> instead of a
  page fault inside the handler.
\<close>

section \<open>The machine after start-up\<close>

text \<open>The kernel's data before \<open>main\<close>: zeroes, except \<open>nextpid\<close>, in tables of their declared sizes.\<close>

definition blank_machine :: "machine \<Rightarrow> bool" where
  "blank_machine mc \<longleftrightarrow> (let k = m_kernel mc in
     pcblist k = replicate PCB_MAX zero_pcb \<and> nextpid k = 1 \<and> length (fileList k) = FILE_MAX_INSYS \<and>
     lock_value (video_lock k) = 0 \<and> length (idt (m_tables mc)) = IDT_ENTRIES)"

lemma table_inv_cong:
  "table_inv k \<Longrightarrow> pcblist k' = pcblist k \<Longrightarrow> current_process k' = current_process k \<Longrightarrow> nextpid k' = nextpid k \<Longrightarrow>
   table_inv k'"
  by (simp add: table_inv_def)

lemma files_inv_cong:
  "files_inv k \<Longrightarrow> pcblist k' = pcblist k \<Longrightarrow> current_process k' = current_process k \<Longrightarrow>
   length (fileList k') = length (fileList k) \<Longrightarrow> lock_value (video_lock k') = 0 \<Longrightarrow> files_inv k'"
  by (simp add: files_inv_def)

lemma booted:
  assumes "blank_machine mc" and "main_init io h ad stk eflags d mc = Some (frame, d', mc')"
  shows "table_inv (m_kernel mc')" and "files_inv (m_kernel mc')"
proof -
  from assms(1) have k: "pcblist (m_kernel mc) = replicate PCB_MAX zero_pcb" "nextpid (m_kernel mc) = 1"
    "length (fileList (m_kernel mc)) = FILE_MAX_INSYS" "lock_value (video_lock (m_kernel mc)) = 0"
    by (simp_all add: blank_machine_def Let_def)
  note st = main_init_state [OF assms(2) k(4)]
  have i: "current_process (init_pcb (addr_pagedir ad) (m_kernel mc)) = 0"
    "nextpid (init_pcb (addr_pagedir ad) (m_kernel mc)) = nextpid (m_kernel mc)"
    "fileList (init_pcb (addr_pagedir ad) (m_kernel mc)) = fileList (m_kernel mc)"
    by (simp_all add: init_pcb_def Let_def update_pcb_def)
  show "table_inv (m_kernel mc')"
    by (rule table_inv_cong [OF table_inv_init [OF k(1,2), of "addr_pagedir ad"]]) (simp_all add: st i)
  show "files_inv (m_kernel mc')"
    by (rule files_inv_cong [OF files_inv_init [of "m_kernel mc" "addr_pagedir ad"]]) (simp_all add: st i k)
qed

text \<open>\<open>k\<close> is a state of the kernel between two interrupts, after \<open>main\<close> has switched to user mode.\<close>

definition running :: "'d ports \<Rightarrow> handlers \<Rightarrow> link_addresses \<Rightarrow> stack_bytes \<Rightarrow> u32 \<Rightarrow> 'd \<Rightarrow> machine \<Rightarrow> kernel \<Rightarrow> bool" where
  "running io h ad stk eflags d mc k \<longleftrightarrow> blank_machine mc \<and>
     (case main_init io h ad stk eflags d mc of None \<Rightarrow> False | Some (frame, d', mc') \<Rightarrow> \<exists>e. reachable (m_kernel mc') e k)"

lemma running_invs:
  assumes "running io h ad stk eflags d mc k"
  shows "table_ok k" and "files_inv k"
proof -
  from assms obtain frame d' mc' e where m: "blank_machine mc" "main_init io h ad stk eflags d mc = Some (frame, d', mc')"
    "reachable (m_kernel mc') e k" by (auto simp: running_def split: option.splits)
  from m(3) table_inv_ok [OF booted(1) [OF m(1,2)]] show "table_ok k" by (rule table.reachable_keeps)
  from m(3) booted(2) [OF m(1,2)] show "files_inv k" by (rule files.reachable_keeps)
qed

section \<open>A machine for the witnesses\<close>

definition demo_ports :: "unit ports" where
  "demo_ports = \<lparr>port_outb = (\<lambda>_ _ _. ()), port_inb = (\<lambda>_ _. (0, ())), port_outw = (\<lambda>_ _ _. ()), port_inw = (\<lambda>_ _. (0, ()))\<rparr>"

definition demo_addresses :: link_addresses where
  "demo_addresses = \<lparr>addr_pagedir = 0xc0020000, addr_idt = 0xc0012345, addr_tss = 0xc0013000,
     addr_stack = 0xc0014000, addr_user_main = 0xc0010456\<rparr>"

definition demo_stack :: stack_bytes where
  "demo_stack = \<lparr>st_block = (\<lambda>_. replicate 476 1), st_inodes = (\<lambda>_. replicate 512 2),
     st_super = super_block_of_bytes [], st_inode = (\<lambda>_. inode_of_bytes [])\<rparr>"

definition demo_machine :: machine where
  "demo_machine = \<lparr>
     m_kernel = demo_kernel\<lparr>pcblist := replicate PCB_MAX zero_pcb, nextpid := 1, kmem := demo_boot_mem,
       kdisk := (\<lambda>_. replicate 512 7), fileList := replicate FILE_MAX_INSYS
         \<lparr>oflags = 0, of_offset = 0, f_inode_block_no = 0, f_inode_offset = 0, of_isopen = 0\<rparr>\<rparr>,
     m_tables = \<lparr>idt = replicate 256 (make_idt_desc 0 0), intr_name = replicate 256 [],
       idtr = \<lparr>idt_size = 0, idt_addr_low = 0, idt_addr_high = 0\<rparr>\<rparr>,
     m_tss = undefined, m_gdt = []\<rparr>"

lemma demo_machine_blank: "blank_machine demo_machine"
  by (simp add: blank_machine_def demo_machine_def demo_kernel_def Let_def)

lemma demo_machine_memory: "kmem (m_kernel demo_machine) = demo_boot_mem" "disk_ok (kdisk (m_kernel demo_machine))"
  "length (st_block demo_stack n) = 476" "length (st_inodes demo_stack n) = 512"
  by (simp_all add: demo_machine_def demo_stack_def disk_ok_def)

lemma demo_segments:
  "headers demo_boot_mem (0x9000 + e_phoff (elf_at demo_boot_mem 0x9000)) (unat (e_phnum (elf_at demo_boot_mem 0x9000)))
     = [ph_at demo_boot_mem 0x9034]"
  "last_index (\<lambda>h. p_type h = LOAD_SEG) [ph_at demo_boot_mem 0x9034] = Some 0"
  by (simp_all add: demo_headers demo_table)

lemma demo_running:
  obtains k where "running demo_ports demo_handlers demo_addresses demo_stack 0x202 () demo_machine k"
proof -
  let ?k = "m_kernel demo_machine"
  from init_file_disk_programs [of "kdisk ?k" "st_block demo_stack" "st_inodes demo_stack" "st_super demo_stack"
      "st_inode demo_stack", OF demo_machine_memory(2-4)]
  obtain dd where dd: "init_file_disk (kdisk ?k) (st_block demo_stack) (st_inodes demo_stack) (st_super demo_stack)
       (st_inode demo_stack) = Some dd" by blast
  obtain s where mem: "init_memory (kmem ?k) = Some s"
    using init_memory_link [OF demo_segments(1) [symmetric] demo_segments(2)] unfolding demo_machine_memory by blast
  have lock: "lock_value (video_lock ?k) = 0"
    using demo_machine_blank by (simp only: blank_machine_def Let_def)
  obtain frame d' mc' where
    "main_init demo_ports demo_handlers demo_addresses demo_stack 0x202 () demo_machine = Some (frame, d', mc')"
    using main_init_returns [OF lock mem dd, of demo_ports demo_handlers demo_addresses "0x202" "()"] by blast
  then have "running demo_ports demo_handlers demo_addresses demo_stack 0x202 () demo_machine (m_kernel mc')"
    using demo_machine_blank by (auto simp: running_def intro: reachable.start)
  then show thesis by (rule that)
qed

definition demo_locals :: locals where
  "demo_locals = \<lparr>l_superblock_tail = [], l_inode = inode_of_bytes [], l_filename = (\<lambda>_. [])\<rparr>"

section \<open>Properties\<close>

text \<open>
  C2: \<open>main\<close> initialises everything and reaches user mode: with the kernel's ELF header where the boot
  loader left it, from blank tables and whatever the disk held, it ends its initialisation and leaves
  well-formed tables, the path \<open>/shell\<close> resolving to the sectors the shell is linked at, all gates
  leading to their handlers with only the system call's open to programs, and a frame that resumes
  \<open>main\<close> at its low address in user segments.
\<close>

theorem boot_establishes:
  assumes "blank_machine mc" and "m = kmem (m_kernel mc)"
    and "hs = headers m (0x9000 + e_phoff (elf_at m 0x9000)) (unat (e_phnum (elf_at m 0x9000)))"
    and "last_index (\<lambda>h. p_type h = LOAD_SEG) hs = Some i"
    and "disk_ok (kdisk (m_kernel mc))" and "\<And>i. length (st_block stk i) = 476"
    and "\<And>i. length (st_inodes stk i) = 512"
  shows "\<exists>frame d' mc' shell. main_init io h ad stk eflags d mc = Some (frame, d', mc') \<and>
    table_inv (m_kernel mc') \<and> files_inv (m_kernel mc') \<and>
    ir_eip frame = addr_user_main ad - 0xc0000000 \<and> ir_cs frame = UCODE_SELECTOR \<and> ir_ss frame = UDATA_SELECTOR \<and>
    (\<forall>fn r. seekFileInode (kdisk (m_kernel mc')) fn (slash # shell_name @ 0 # r) = Some (0, shell)) \<and>
    i_mode shell = REGULAR_FILE \<and> block_no shell = map of_nat [57..<72] @ replicate 5 0 \<and>
    (\<forall>v < IDT_ENTRIES. gate_offset (idt (m_tables mc') ! v) = vector_handler h v \<and>
       gate_dpl (idt (m_tables mc') ! v) = (if v = 128 then 3 else 0))"
proof -
  let ?k = "m_kernel mc"
  from init_file_disk_programs [of "kdisk ?k" "st_block stk" "st_inodes stk" "st_super stk" "st_inode stk", OF assms(5-7)] obtain dd shell where
    dd: "init_file_disk (kdisk ?k) (st_block stk) (st_inodes stk) (st_super stk) (st_inode stk) = Some dd"
    and shell: "\<And>fn r. seekFileInode dd fn (slash # shell_name @ 0 # r) = Some (0, shell)"
      "i_mode shell = REGULAR_FILE" "block_no shell = map of_nat [57..<72] @ replicate 5 0"
    by blast
  from assms(1) have lock: "lock_value (video_lock ?k) = 0" and idt: "length (idt (m_tables mc)) = IDT_ENTRIES"
    by (simp_all add: blank_machine_def Let_def)
  have mem: "init_memory (kmem ?k) = Some (link_pages m None (ALIGN_UP (p_vaddr (hs ! i) + p_memsize (hs ! i))) 0)"
    using init_memory_link [OF assms(3,4)] assms(2) by simp
  obtain frame d' mc' where main: "main_init io h ad stk eflags d mc = Some (frame, d', mc')"
    using main_init_returns [OF lock mem dd, of io h ad eflags d] by blast
  note st = main_init_state [OF main lock]
  show ?thesis
  proof (intro exI conjI)
    show "main_init io h ad stk eflags d mc = Some (frame, d', mc')" by (rule main)
    show "table_inv (m_kernel mc')" "files_inv (m_kernel mc')" using booted [OF assms(1) main] by simp_all
    show "\<forall>fn r. seekFileInode (kdisk (m_kernel mc')) fn (slash # shell_name @ 0 # r) = Some (0, shell)"
      using shell(1) st(6) dd by simp
    show "\<forall>v < IDT_ENTRIES. gate_offset (idt (m_tables mc') ! v) = vector_handler h v \<and>
       gate_dpl (idt (m_tables mc') ! v) = (if v = 128 then 3 else 0)"
      using fill_gates_nth [OF idt] by (simp add: st(7) make_idt_desc_decoded)
  qed (use shell st(8) in simp_all)
qed

theorem boot_establishes_witness:
  "\<exists>frame d' mc'. main_init demo_ports demo_handlers demo_addresses demo_stack 0x202 () demo_machine = Some (frame, d', mc') \<and>
     ir_eip frame = 0x10456 \<and> files_inv (m_kernel mc') \<and> gate_dpl (idt (m_tables mc') ! 128) = 3"
  using boot_establishes [OF demo_machine_blank refl demo_segments(1) [folded demo_machine_memory(1), symmetric]
      demo_segments(2) [folded demo_machine_memory(1)] demo_machine_memory(2-4),
      of demo_ports demo_handlers demo_addresses "0x202" "()"]
  by (fastforce simp: demo_addresses_def)

text \<open>
  C6: The tables keep their shape over any sequence of interrupts from start-up on: every process has
  20 descriptors, and a descriptor that is open refers to an entry of the table of open files, one
  that is closed to none, so that no system call indexes outside either table.
\<close>

theorem descriptors_typed:
  assumes "running io h ad stk eflags d mc k" and "i < PCB_MAX" and "j < FILE_MAX_InPROCESS"
  shows "length (pcblist k) = PCB_MAX \<and> current_process k < PCB_MAX \<and> length (fdlist (pcblist k ! i)) = FILE_MAX_InPROCESS \<and>
    (if isOpen j (fdlist (pcblist k ! i)) = 0 then ofptr (fdlist (pcblist k ! i) ! j) = None
     else \<exists>e < length (fileList k). ofptr (fdlist (pcblist k ! i) ! j) = Some e)"
proof -
  note inv = running_invs(2) [OF assms(1)]
  from files_invD(5) [OF inv assms(2)] assms(3) have
    "length (fdlist (pcblist k ! i)) = FILE_MAX_InPROCESS" "fd_ok (fdlist (pcblist k ! i) ! j)"
    by (simp_all add: fds_ok_def)
  with files_invD(1-3) [OF inv] show ?thesis by (auto simp: fd_ok_def isOpen_def)
qed

theorem descriptors_typed_witness:
  "\<exists>k. running demo_ports demo_handlers demo_addresses demo_stack 0x202 () demo_machine k \<and> length (fdlist (pcblist k ! 7)) = 20"
proof -
  obtain k where "running demo_ports demo_handlers demo_addresses demo_stack 0x202 () demo_machine k"
    by (rule demo_running)
  with descriptors_typed [OF this, of 7 0] show ?thesis by auto
qed

text \<open>Reads and writes on the standard descriptors.\<close>

lemma low_fd: "unat fd \<le> STDERR_FILENO \<Longrightarrow> sint (fd :: u32) = int (unat fd)"
  by (rule sint_small) simp

lemma std_refused:
  assumes "files_inv k" and "unat (i_ebx f) \<le> STDERR_FILENO"
  shows "sys_write f k = Some (-1, k)" "sys_read f k = Some (-1, k)"
  using assms files_invD(5) [OF assms(1) files_invD(2) [OF assms(1)]]
  by (simp_all add: sys_write_def sys_read_def low_fd Let_def isOpen_def fds_ok_def)

lemma std_calls:
  assumes inv: "files_inv k" and "unat fd \<le> STDERR_FILENO"
  shows "system_call lo (u_write fd buf sz f) k = Some (Result (-1), k)"
    and "system_call lo (u_read fd buf sz f) k = Some (Result (-1), k)"
  using assms(2) unfolding u_write_def u_read_def
  by (auto intro!: system_callI simp: sys_call_table_def std_refused [OF inv])

text \<open>
  C3: No process ever has a standard descriptor: \<open>init_pcb\<close> leaves all three closed, \<open>sys_open\<close> starts
  at descriptor 3, \<open>sys_fork\<close> copies the closed ones, and \<open>create_process\<close>, which opens them, is
  never called.  So in every state after start-up every \<open>write\<close> and \<open>read\<close> on them returns -1.
\<close>

theorem standard_descriptors_closed:
  assumes "running io h ad stk eflags d mc k" and "unat fd \<le> STDERR_FILENO"
  shows "(\<forall>i < PCB_MAX. isOpen (unat fd) (fdlist (pcblist k ! i)) = 0) \<and>
    system_call lo (u_write fd buf sz f) k = Some (Result (-1), k) \<and>
    system_call lo (u_read fd buf sz f) k = Some (Result (-1), k)"
proof -
  note inv = running_invs(2) [OF assms(1)]
  from files_invD(5) [OF inv] assms(2) show ?thesis
    by (simp add: std_calls [OF inv assms(2)] isOpen_def fds_ok_def)
qed

theorem standard_descriptors_closed_witness:
  "\<exists>k. running demo_ports demo_handlers demo_addresses demo_stack 0x202 () demo_machine k \<and>
    system_call demo_locals (u_write 1 0x1000 7 zero_frame) k = Some (Result (-1), k)"
proof -
  obtain k where "running demo_ports demo_handlers demo_addresses demo_stack 0x202 () demo_machine k"
    by (rule demo_running)
  with standard_descriptors_closed [OF this, of 1] show ?thesis by auto
qed

lemma start_files:
  assumes "sys_clear k = Some (r, k')" and "files_inv k"
  shows "files_inv k'"
  using on_resultD [OF sys_clear_files [OF assms(2)] assms(1)] by simp

text \<open>
  C8: What that means for the shell, run on the kernel: its start only clears the screen, neither the
  greeting nor the prompt appears, and a round of its loop changes nothing, so it never runs a
  command.
\<close>

theorem shell_silent:
  assumes "running io h ad stk eflags d mc k"
  shows "shell_round (kernel_environment lo f) a k = Some k \<and>
    shell_start (kernel_environment lo f) a k = map_option snd (sys_clear k) \<and> sys_clear k \<noteq> None"
proof -
  note inv = running_invs(2) [OF assms]
  from sys_clear_lock [OF files_invD(4) [OF inv]] obtain k' where c: "sys_clear k = Some (0, k')" by blast
  note inv' = start_files [OF c inv]
  have clear: "system_call lo (u_clear_my_screen f) k = Some (Result 0, k')"
    by (simp add: system_call_def interrupt_assign_def u_clear_my_screen_def sys_call_table_def c)
  show ?thesis
    by (simp add: shell_round_def shell_start_def do_call_def kernel_environment_def c clear
        std_calls [OF inv] std_calls [OF inv'])
qed

theorem shell_silent_witness:
  "\<exists>k. running demo_ports demo_handlers demo_addresses demo_stack 0x202 () demo_machine k \<and>
    shell_round (kernel_environment demo_locals zero_frame) (shell_data.make 1 2 3 4 5 6 7 8) k = Some k"
proof -
  obtain k where "running demo_ports demo_handlers demo_addresses demo_stack 0x202 () demo_machine k"
    by (rule demo_running)
  with shell_silent [OF this] show ?thesis by auto
qed



end
